(* ===== verification/Prelude.thy ===== *)
theory Prelude
  imports Main "HOL-Library.Word" "HOL-Library.AList" "HOL-Library.Sublist"
begin

text \<open>
  Shared vocabulary of the development: the machine integer types of the Rust code, the events
  a resolve can cause outside the process and the histories they form, and the generic facts on
  sums, association lists, sorting and histories that several components need.  The collection
  \<open>outcome_simps\<close> gathers the equations that evaluate result values, \<open>grows_intros\<close> the rules
  that show which events an operation appends.
\<close>

named_theorems outcome_simps
named_theorems grows_intros

section \<open>Machine types\<close>

type_synonym u8 = "8 word"
type_synonym u16 = "16 word"
type_synonym u32 = "32 word"
type_synonym u64 = "64 word"
type_synonym bytes = "u8 list"

text \<open>
  A Rust \<open>String\<close> is its UTF-8 bytes, here a HOL \<open>string\<close> (a list of 8-bit characters);
  \<open>str_bytes\<close> and \<open>bytes_str\<close> are the two readings of the same bytes.
\<close>

definition str_bytes :: "string \<Rightarrow> bytes" where
  "str_bytes s = map of_char s"

definition bytes_str :: "bytes \<Rightarrow> string" where
  "bytes_str b = map (\<lambda>w. char_of (unat w)) b"

lemma of_char_word_eq: "(of_char c :: u8) = word_of_nat (of_char c)"
  by (simp add: of_char_def of_nat_of_char)

lemma char_of_of_char_word [simp]: "char_of (unat (of_char c :: u8)) = c"
  by (simp add: of_char_word_eq unat_of_nat take_bit_eq_mod)

lemma bytes_str_of_str_bytes [simp]: "bytes_str (str_bytes s) = s"
  by (induction s) (simp_all add: bytes_str_def str_bytes_def)

lemma length_str_bytes [simp]: "length (str_bytes s) = length s"
  by (simp add: str_bytes_def)

lemma str_bytes_append: "str_bytes (s @ t) = str_bytes s @ str_bytes t"
  by (simp add: str_bytes_def)

lemma str_bytes_of_bytes_str [simp]: "str_bytes (bytes_str b) = b"
proof -
  have "(of_char (char_of (unat w) :: char) :: u8) = w" for w :: u8
  proof -
    have "unat w < 2 ^ LENGTH(8)" by (rule unsigned_less)
    then have "(of_char (char_of (unat w) :: char) :: nat) = unat w" by simp
    then show ?thesis by (simp add: of_char_word_eq)
  qed
  then show ?thesis by (simp add: str_bytes_def bytes_str_def comp_def)
qed

section \<open>Events and histories\<close>

text \<open>
  Everything the code does outside its own process is an event.  A history lists the events of
  a run, oldest first.  What the network or the file system answers is a function of the
  history before the request, so a model of the outside world may change its mind between any
  two requests: nothing is assumed of it unless a theorem says so.
\<close>

datatype event =
    HttpGet string
  | HttpPost string string
  | FsRead string
  | FsWrite string bytes
  | FsRemove string
  | FsMkdir string

type_synonym history = "event list"

fun is_http :: "event \<Rightarrow> bool" where
  "is_http (HttpGet _) = True"
| "is_http (HttpPost _ _) = True"
| "is_http _ = False"

fun is_get :: "event \<Rightarrow> bool" where
  "is_get (HttpGet _) = True"
| "is_get _ = False"

fun is_post :: "event \<Rightarrow> bool" where
  "is_post (HttpPost _ _) = True"
| "is_post _ = False"

fun is_write :: "event \<Rightarrow> bool" where
  "is_write (FsWrite _ _) = True"
| "is_write _ = False"

text \<open>\<open>grows Q h h'\<close>: the history \<open>h'\<close> is \<open>h\<close> followed by events that all satisfy \<open>Q\<close>.\<close>

definition grows :: "(event \<Rightarrow> bool) \<Rightarrow> history \<Rightarrow> history \<Rightarrow> bool" where
  "grows Q h h' \<longleftrightarrow> (\<exists>es. h' = h @ es \<and> list_all Q es)"

lemma grows_refl [simp, grows_intros]: "grows Q h h"
  by (auto simp: grows_def)

lemma grows_snoc: "Q e \<Longrightarrow> grows Q h (h @ [e])"
  by (auto simp: grows_def)

lemma grows_snoc_iff [simp]: "grows Q h (h @ [e]) \<longleftrightarrow> Q e"
  by (auto simp: grows_def)

lemma grows_trans: "grows Q h h1 \<Longrightarrow> grows Q h1 h2 \<Longrightarrow> grows Q h h2"
  by (auto simp: grows_def)

lemma grows_mono: "grows Q h h' \<Longrightarrow> (\<And>e. Q e \<Longrightarrow> R e) \<Longrightarrow> grows R h h'"
  by (force simp: grows_def list_all_iff)

lemma grows_prefix: "grows Q h h' \<Longrightarrow> prefix h h'"
  by (auto simp: grows_def)

lemma grows_False [simp]: "grows (\<lambda>_. False) h h' \<longleftrightarrow> h' = h"
  by (auto simp: grows_def list_all_iff)

lemma grows_filter:
  assumes "grows Q h h'" and "\<And>e. Q e \<Longrightarrow> \<not> R e"
  shows "filter R h' = filter R h"
  using assms by (auto simp: grows_def list_all_iff filter_empty_conv)

section \<open>Generic facts\<close>

lemma map_of_AList_delete_other [simp]:
  "k' \<noteq> k \<Longrightarrow> map_of (AList.delete k al) k' = map_of al k'"
  by (simp add: delete_conv')

lemma length_delete_le: "length (AList.delete k al) \<le> length al"
  by (induction al) auto

lemma length_AList_delete_less:
  "k \<in> fst ` set al \<Longrightarrow> length (AList.delete k al) < length al"
  by (induction al) (auto simp: less_Suc_eq_le length_delete_le Suc_le_eq intro: rev_image_eqI)

lemma AList_delete_notin [simp]: "k \<notin> fst ` set al \<Longrightarrow> AList.delete k al = al"
  by (induction al) auto

lemma sum_list_AList_delete:
  fixes f :: "'k \<times> 'v \<Rightarrow> nat"
  assumes "distinct (map fst al)" and "map_of al k = Some v"
  shows "sum_list (map f al) = f (k, v) + sum_list (map f (AList.delete k al))"
  using assms
proof (induction al)
  case Nil
  then show ?case by simp
next
  case (Cons x xs)
  show ?case
  proof (cases "fst x = k")
    case True
    with Cons.prems have "k \<notin> fst ` set xs" and "snd x = v"
      by (auto split: if_splits)
    then have "AList.delete k (x # xs) = xs" and "x = (k, v)"
      using True by (auto simp: prod_eq_iff)
    then show ?thesis by simp
  next
    case False
    with Cons show ?thesis by (simp split: prod.splits if_splits)
  qed
qed

lemma AList_update_keep: "k \<in> fst ` set al \<Longrightarrow> length (AList.update k v al) = length al"
  by (induction al) auto

lemma sorted_map_butlast: "sorted (map f xs) \<Longrightarrow> sorted (map f (butlast xs))"
  by (metis map_butlast append_butlast_last_id butlast.simps(1) sorted_append)

end
