(* ===== verification/CacheSpec.thy ===== *)
theory CacheSpec
  imports Prelude
begin

text \<open>
  The interfaces of the caches.  \<open>cache_ops\<close> is what the resolver relies on: a hit is a value that
  was put under that key, and looking never changes what is stored.  \<open>lru_cache\<close> adds the
  eviction policy as an abstract specification: the entries form a list, most recently used
  first; a hit moves to the front, and an insertion keeps the longest prefix that fits.  The
  clients' lemmas are proved here once.
\<close>

section \<open>The eviction policy on lists\<close>

fun total_size :: "('v \<Rightarrow> nat) \<Rightarrow> ('k \<times> 'v) list \<Rightarrow> nat" where
  "total_size sz [] = 0"
| "total_size sz ((k, v) # xs) = sz v + total_size sz xs"

definition fits :: "('v \<Rightarrow> nat) \<Rightarrow> nat \<Rightarrow> nat \<Rightarrow> ('k \<times> 'v) list \<Rightarrow> bool" where
  "fits sz me mb xs \<longleftrightarrow> length xs \<le> me \<and> total_size sz xs \<le> mb"

function lru_fit :: "('v \<Rightarrow> nat) \<Rightarrow> nat \<Rightarrow> nat \<Rightarrow> ('k \<times> 'v) list \<Rightarrow> ('k \<times> 'v) list" where
  "lru_fit sz me mb xs = (if xs = [] \<or> fits sz me mb xs then xs else lru_fit sz me mb (butlast xs))"
  by pat_completeness auto
termination
  by (relation "measure (\<lambda>(sz, me, mb, xs). length xs)") auto

declare lru_fit.simps [simp del]

lemma fits_Nil [simp]: "fits sz me mb []"
  by (simp add: fits_def)

lemma lru_fit_fits: "fits sz me mb (lru_fit sz me mb xs)"
  by (induction sz me mb xs rule: lru_fit.induct) (subst lru_fit.simps, auto)

lemma lru_fit_id: "fits sz me mb xs \<Longrightarrow> lru_fit sz me mb xs = xs"
  by (subst lru_fit.simps) simp

lemma lru_fit_step: "\<not> fits sz me mb xs \<Longrightarrow> lru_fit sz me mb xs = lru_fit sz me mb (butlast xs)"
  by (subst lru_fit.simps) auto

lemma lru_fit_prefix: "prefix (lru_fit sz me mb xs) xs"
proof (induction sz me mb xs rule: lru_fit.induct)
  case (1 sz me mb xs)
  show ?case
  proof (cases "xs = [] \<or> fits sz me mb xs")
    case True
    then show ?thesis by (subst lru_fit.simps) simp
  next
    case False
    with 1 have "prefix (lru_fit sz me mb (butlast xs)) (butlast xs)" by blast
    moreover have "prefix (butlast xs) xs" by (rule prefixeq_butlast)
    ultimately show ?thesis using False by (subst lru_fit.simps) auto
  qed
qed

lemma lru_fit_longest: "prefix p xs \<Longrightarrow> fits sz me mb p \<Longrightarrow> prefix p (lru_fit sz me mb xs)"
proof (induction sz me mb xs rule: lru_fit.induct)
  case (1 sz me mb xs)
  show ?case
  proof (cases "xs = [] \<or> fits sz me mb xs")
    case True
    with 1(2) show ?thesis by (subst lru_fit.simps) simp
  next
    case False
    with "1.prems" have "p \<noteq> xs" by auto
    with "1.prems"(1) have "prefix p (butlast xs)"
      by (metis False append_butlast_last_id prefix_snoc)
    with 1 False show ?thesis by (subst lru_fit.simps) auto
  qed
qed

lemma lru_fit_Cons:
  assumes "0 < me" and "sz v \<le> mb"
  shows "\<exists>ys. lru_fit sz me mb ((k, v) # xs) = (k, v) # ys"
proof -
  have "prefix [(k, v)] (lru_fit sz me mb ((k, v) # xs))"
    using assms by (intro lru_fit_longest) (simp_all add: fits_def)
  then show ?thesis by (auto simp: prefix_def)
qed

definition to_front :: "'k \<Rightarrow> 'v \<Rightarrow> ('k \<times> 'v) list \<Rightarrow> ('k \<times> 'v) list" where
  "to_front k v xs = (k, v) # filter (\<lambda>(k', v'). k' \<noteq> k) xs"

lemma map_of_filter_other: "x \<noteq> k \<Longrightarrow> map_of (filter (\<lambda>(k', v'). k' \<noteq> k) xs) x = map_of xs x"
  by (induction xs) auto

lemma map_of_to_front [simp]: "map_of (to_front k v xs) = (map_of xs)(k \<mapsto> v)"
  by (simp add: to_front_def fun_eq_iff map_of_filter_other)

lemma distinct_to_front:
  assumes "distinct (map fst xs)"
  shows "distinct (map fst (to_front k v xs))"
proof -
  have "distinct (map fst (filter (\<lambda>(k', v'). k' \<noteq> k) xs))"
    using assms by (rule distinct_map_filter)
  then show ?thesis by (auto simp: to_front_def)
qed

lemma map_of_prefix:
  "prefix ys xs \<Longrightarrow> map_of ys k = Some v \<Longrightarrow> map_of xs k = Some v"
  by (auto simp: prefix_def map_add_def)

section \<open>What the resolver relies on\<close>

locale cache_ops =
  fixes stored :: "'c \<Rightarrow> string \<Rightarrow> 'v option"
    and get :: "'c \<Rightarrow> string \<Rightarrow> 'v option \<times> 'c"
    and put :: "'c \<Rightarrow> string \<Rightarrow> 'v \<Rightarrow> 'c"
    and wf :: "'c \<Rightarrow> bool"
  assumes get_value: "wf c \<Longrightarrow> fst (get c k) = stored c k"
    and get_frame: "wf c \<Longrightarrow> stored (snd (get c k)) = stored c"
    and put_only: "wf c \<Longrightarrow> stored (put c k v) k' = Some w \<Longrightarrow>
          (k' = k \<and> w = v) \<or> stored c k' = Some w"
    and wf_get: "wf c \<Longrightarrow> wf (snd (get c k))"
    and wf_put: "wf c \<Longrightarrow> wf (put c k v)"
begin

text \<open>A property of every stored pair survives looking and storing.\<close>

lemma all_get:
  assumes "wf c" and "\<And>k v. stored c k = Some v \<Longrightarrow> Q k v"
  shows "stored (snd (get c k)) k' = Some v \<Longrightarrow> Q k' v"
  using assms by (simp add: get_frame)

lemma all_put:
  assumes "wf c" and "\<And>k v. stored c k = Some v \<Longrightarrow> Q k v" and "Q k v"
  shows "stored (put c k v) k' = Some w \<Longrightarrow> Q k' w"
  using assms put_only by blast

lemma hit_satisfies:
  assumes "wf c" and "\<And>k v. stored c k = Some v \<Longrightarrow> Q k v" and "get c k = (Some v, c')"
  shows "Q k v"
  using assms get_value [of c k] by simp

end

section \<open>Least recently used\<close>

text \<open>
  The specification is itself a cache: its state is the list, most recently used first.
  \<open>run_ops\<close> performs a sequence of operations on any cache and lists what the lookups returned.
\<close>

definition spec_get :: "('k \<times> 'v) list \<Rightarrow> 'k \<Rightarrow> 'v option \<times> ('k \<times> 'v) list" where
  "spec_get xs k = (map_of xs k, case map_of xs k of None \<Rightarrow> xs | Some v \<Rightarrow> to_front k v xs)"

definition spec_put ::
    "('v \<Rightarrow> nat) \<Rightarrow> nat \<Rightarrow> nat \<Rightarrow> ('k \<times> 'v) list \<Rightarrow> 'k \<Rightarrow> 'v \<Rightarrow> ('k \<times> 'v) list" where
  "spec_put sz me mb xs k v =
     (if me = 0 \<or> mb < sz v then xs else lru_fit sz me mb (to_front k v xs))"

datatype 'v cache_op = GetOp string | PutOp string 'v

fun run_ops ::
    "('c \<Rightarrow> string \<Rightarrow> 'v option \<times> 'c) \<Rightarrow> ('c \<Rightarrow> string \<Rightarrow> 'v \<Rightarrow> 'c) \<Rightarrow> 'v cache_op list \<Rightarrow> 'c
      \<Rightarrow> 'v option list \<times> 'c" where
  "run_ops get put [] c = ([], c)"
| "run_ops get put (GetOp k # ops) c =
     (let (r, c') = get c k; (rs, c'') = run_ops get put ops c' in (r # rs, c''))"
| "run_ops get put (PutOp k v # ops) c = run_ops get put ops (put c k v)"

context cache_ops begin

lemma wf_run: "wf c \<Longrightarrow> wf (snd (run_ops get put ops c))"
proof (induction ops arbitrary: c)
  case Nil
  then show ?case by simp
next
  case (Cons x ops)
  then show ?case
    by (cases x) (auto simp: split_beta wf_put intro: wf_get)
qed

end

text \<open>
  \<open>live n c\<close> says that the cache can still tell the recency of its entries apart for \<open>n\<close> more
  operations.
\<close>

locale lru_cache = cache_ops +
  fixes order :: "'c \<Rightarrow> (string \<times> 'v) list"
    and sz :: "'v \<Rightarrow> nat"
    and limits :: "'c \<Rightarrow> nat \<times> nat"
    and live :: "nat \<Rightarrow> 'c \<Rightarrow> bool"
  assumes order_stored: "wf c \<Longrightarrow> stored c = map_of (order c)"
    and get_order: "wf c \<Longrightarrow> live (Suc n) c \<Longrightarrow> order (snd (get c k)) = snd (spec_get (order c) k)"
    and put_order: "wf c \<Longrightarrow> live (Suc n) c \<Longrightarrow>
          order (put c k v) = spec_put sz (fst (limits c)) (snd (limits c)) (order c) k v"
    and limits_get: "limits (snd (get c k)) = limits c"
    and limits_put: "limits (put c k v) = limits c"
    and live_get: "wf c \<Longrightarrow> live (Suc n) c \<Longrightarrow> live n (snd (get c k))"
    and live_put: "wf c \<Longrightarrow> live (Suc n) c \<Longrightarrow> live n (put c k v)"
begin

text \<open>The simulation: the same lookups hit with the same values, and the orders agree.\<close>

lemma simulates:
  assumes "wf c" and "live (length ops) c" and "limits c = (me, mb)"
  shows "fst (run_ops get put ops c) = fst (run_ops spec_get (spec_put sz me mb) ops (order c))"
    and "order (snd (run_ops get put ops c)) = snd (run_ops spec_get (spec_put sz me mb) ops (order c))"
proof -
  have "fst (run_ops get put ops c) = fst (run_ops spec_get (spec_put sz me mb) ops (order c)) \<and>
      order (snd (run_ops get put ops c)) = snd (run_ops spec_get (spec_put sz me mb) ops (order c))"
    using assms
  proof (induction ops arbitrary: c)
    case Nil
    then show ?case by simp
  next
    case (Cons x ops)
    show ?case
    proof (cases x)
      case (GetOp k)
      obtain r c' where g: "get c k = (r, c')" by fastforce
      have "r = fst (spec_get (order c) k)" and "order c' = snd (spec_get (order c) k)"
        using get_value [OF Cons.prems(1), of k] order_stored [OF Cons.prems(1)]
          get_order [OF Cons.prems(1), of "length ops" k] Cons.prems(2) g
        by (simp_all add: spec_get_def)
      moreover have "wf c'" and "live (length ops) c'" and "limits c' = (me, mb)"
        using wf_get [OF Cons.prems(1), of k] live_get [OF Cons.prems(1), of "length ops" k]
          limits_get [of c k] Cons.prems g by simp_all
      ultimately show ?thesis
        using Cons.IH [of c'] g GetOp by (auto simp: split_beta)
    next
      case (PutOp k v)
      then show ?thesis
        using Cons.IH [of "put c k v"] Cons.prems wf_put [OF Cons.prems(1), of k v]
          live_put [OF Cons.prems(1), of "length ops" k v] limits_put [of c k v]
          put_order [OF Cons.prems(1), of "length ops" k v] by simp
    qed
  qed
  then show "fst (run_ops get put ops c) = fst (run_ops spec_get (spec_put sz me mb) ops (order c))"
    and "order (snd (run_ops get put ops c)) = snd (run_ops spec_get (spec_put sz me mb) ops (order c))"
    by simp_all
qed

text \<open>What was just stored is there, first in the order.\<close>

lemma put_stores:
  assumes "wf c" "live (Suc n) c" "0 < fst (limits c)" "sz v \<le> snd (limits c)"
  shows "stored (put c k v) k = Some v"
proof -
  obtain ys where "order (put c k v) = (k, v) # ys"
    using put_order [OF assms(1,2)] lru_fit_Cons [of "fst (limits c)" sz v "snd (limits c)"] assms(3,4)
    by (force simp: to_front_def spec_put_def)
  with order_stored [OF wf_put [OF assms(1)]] show ?thesis by simp
qed

text \<open>
  Eviction respects recency: whatever survives an insertion was, in the order before it, in front
  of everything that did not.
\<close>

lemma survivors_prefix:
  assumes "wf c" "live (Suc n) c" "0 < fst (limits c)" "sz v \<le> snd (limits c)"
  shows "prefix (order (put c k v)) (to_front k v (order c))"
  using put_order [OF assms(1,2)] assms(3,4) by (simp add: spec_put_def lru_fit_prefix)

lemma nothing_evicted_if_room:
  assumes "wf c" "live (Suc n) c" "0 < fst (limits c)" "sz v \<le> snd (limits c)"
    and "fits sz (fst (limits c)) (snd (limits c)) (to_front k v (order c))"
  shows "stored (put c k v) = (stored c)(k \<mapsto> v)"
  using put_order [OF assms(1,2)] assms(3,4) order_stored [OF assms(1)]
    order_stored [OF wf_put [OF assms(1)]]
  by (simp add: spec_put_def lru_fit_id [OF assms(5)])

end

end
