(* ===== verification/MemoryCache.thy ===== *)
theory MemoryCache
  imports CacheSpec "HOL-Library.Multiset"
begin

text \<open>
  The in-memory half of \<open>src/src/cache.rs\<close>: the content identity and the bounded LRU.  The
  \<open>HashMap\<close> is an association list with distinct keys, whose order stands for the unspecified
  iteration order; recency ticks are \<open>u64\<close>.  A \<open>usize\<close> is a natural number: the lemmas show that
  no subtraction the code does goes below zero and no sum passes twice the byte budget.
\<close>

section \<open>Identity and entries\<close>

record resolved_data =
  rd_bytes :: bytes
  rd_content_type :: string

definition content_id :: "string \<Rightarrow> string \<Rightarrow> string \<Rightarrow> string option \<Rightarrow> string" where
  "content_id store root key slt =
     store @ '':'' @ root @ '':'' @ key @ '':'' @ (case slt of Some s \<Rightarrow> s | None \<Rightarrow> '''')"

record entry =
  last_used :: u64
  e_data :: resolved_data

record inner =
  tick :: u64
  used_bytes :: nat
  entries :: "(string \<times> entry) list"

record memory_cache =
  max_entries :: nat
  max_bytes :: nat
  inner :: inner

definition DEFAULT_MEMORY_ENTRIES :: nat where
  "DEFAULT_MEMORY_ENTRIES = 256"

definition DEFAULT_MEMORY_BYTES :: nat where
  "DEFAULT_MEMORY_BYTES = 32 * 1024 * 1024"

definition mc_new :: "nat \<Rightarrow> nat \<Rightarrow> memory_cache" where
  "mc_new me mb =
     \<lparr>max_entries = me, max_bytes = mb, inner = \<lparr>tick = 0, used_bytes = 0, entries = []\<rparr>\<rparr>"

section \<open>Operations\<close>

definition mc_get :: "memory_cache \<Rightarrow> string \<Rightarrow> resolved_data option \<times> memory_cache" where
  "mc_get c k =
     (let i = (inner c)\<lparr>tick := tick (inner c) + 1\<rparr>
      in case map_of (entries i) k of
           None \<Rightarrow> (None, c\<lparr>inner := i\<rparr>)
         | Some e \<Rightarrow>
             (Some (e_data e),
              c\<lparr>inner := i\<lparr>entries := AList.update k (e\<lparr>last_used := tick i\<rparr>) (entries i)\<rparr>\<rparr>))"

text \<open>\<open>iter().min_by_key(..)\<close>: the first entry whose \<open>last_used\<close> no other entry undercuts.\<close>

fun oldest_from :: "string \<times> entry \<Rightarrow> (string \<times> entry) list \<Rightarrow> string \<times> entry" where
  "oldest_from best [] = best"
| "oldest_from best (x # xs) =
     oldest_from (if last_used (snd x) < last_used (snd best) then x else best) xs"

fun victim_of :: "(string \<times> entry) list \<Rightarrow> string option" where
  "victim_of [] = None"
| "victim_of (x # xs) = Some (fst (oldest_from x xs))"

function evict :: "nat \<Rightarrow> nat \<Rightarrow> inner \<Rightarrow> inner" where
  "evict me mb i =
     (if me < length (entries i) \<or> mb < used_bytes i then
        (case victim_of (entries i) of
           None \<Rightarrow> i
         | Some victim \<Rightarrow>
            (case map_of (entries i) victim of
               None \<Rightarrow> i
             | Some removed \<Rightarrow>
                 evict me mb (i\<lparr>entries := AList.delete victim (entries i),
                                used_bytes := used_bytes i - length (rd_bytes (e_data removed))\<rparr>)))
      else i)"
  by pat_completeness auto
termination
proof (relation "measure (\<lambda>(me, mb, i). length (entries i))")
  fix me mb :: nat and i :: inner and v r
  assume "map_of (entries i) v = Some r"
  then have "v \<in> fst ` set (entries i)" by (force dest: map_of_SomeD)
  then show "((me, mb, i\<lparr>entries := AList.delete v (entries i),
        used_bytes := used_bytes i - length (rd_bytes (e_data r))\<rparr>), me, mb, i)
      \<in> measure (\<lambda>(me, mb, i). length (entries i))"
    by (simp add: length_AList_delete_less)
qed simp

declare evict.simps [simp del]

definition mc_put :: "memory_cache \<Rightarrow> string \<Rightarrow> resolved_data \<Rightarrow> memory_cache" where
  "mc_put c k d =
     (let size = length (rd_bytes d)
      in if max_entries c = 0 \<or> max_bytes c < size then c
         else
           (let i = inner c;
                t = tick i + 1;
                b = (case map_of (entries i) k of
                       Some prev \<Rightarrow> used_bytes i - length (rd_bytes (e_data prev))
                     | None \<Rightarrow> used_bytes i);
                i' = \<lparr>tick = t, used_bytes = b + size,
                      entries = AList.update k \<lparr>last_used = t, e_data = d\<rparr> (entries i)\<rparr>
            in c\<lparr>inner := evict (max_entries c) (max_bytes c) i'\<rparr>))"

section \<open>The accounting invariant\<close>

definition esize :: "string \<times> entry \<Rightarrow> nat" where
  "esize x = length (rd_bytes (e_data (snd x)))"

definition accounted :: "inner \<Rightarrow> bool" where
  "accounted i \<longleftrightarrow> distinct (map fst (entries i)) \<and> used_bytes i = sum_list (map esize (entries i))"

definition mc_wf :: "memory_cache \<Rightarrow> bool" where
  "mc_wf c \<longleftrightarrow> accounted (inner c) \<and> length (entries (inner c)) \<le> max_entries c \<and>
     used_bytes (inner c) \<le> max_bytes c"

lemma oldest_from_mem: "oldest_from b xs \<in> insert b (set xs)"
  by (induction xs arbitrary: b) (auto split: if_splits)

lemma oldest_from_le:
  "y \<in> insert b (set xs) \<Longrightarrow> last_used (snd (oldest_from b xs)) \<le> last_used (snd y)"
proof (induction xs arbitrary: b y)
  case Nil
  then show ?case by simp
next
  case (Cons x xs)
  let ?b = "if last_used (snd x) < last_used (snd b) then x else b"
  have le: "last_used (snd ?b) \<le> last_used (snd x)" "last_used (snd ?b) \<le> last_used (snd b)"
    by (auto simp: not_less)
  have best: "last_used (snd (oldest_from ?b xs)) \<le> last_used (snd ?b)"
    by (rule Cons.IH) simp
  show ?case
  proof (cases "y \<in> set xs")
    case True
    then show ?thesis using Cons.IH [of y ?b] by simp
  next
    case False
    with Cons.prems have "y = x \<or> y = b" by auto
    with le best show ?thesis by (auto intro: order_trans)
  qed
qed

lemma victim_of_mem: "victim_of es = Some k \<Longrightarrow> k \<in> fst ` set es"
proof (cases es)
  case (Cons x xs)
  assume "victim_of es = Some k"
  with Cons have "k = fst (oldest_from x xs)" by simp
  with Cons oldest_from_mem [of x xs] show ?thesis by auto
qed simp

lemma victim_of_None [simp]: "victim_of es = None \<longleftrightarrow> es = []"
  by (cases es) auto

lemma map_of_victim: "victim_of es = Some k \<Longrightarrow> \<exists>e. map_of es k = Some e"
  using victim_of_mem [of es k] by (metis map_of_eq_None_iff not_None_eq)

lemma accounted_empty: "accounted i \<Longrightarrow> entries i = [] \<Longrightarrow> used_bytes i = 0"
  by (simp add: accounted_def)

lemma accounted_delete:
  assumes "accounted i" and "map_of (entries i) k = Some e"
  shows "accounted (i\<lparr>entries := AList.delete k (entries i),
           used_bytes := used_bytes i - length (rd_bytes (e_data e))\<rparr>)"
    and "length (rd_bytes (e_data e)) \<le> used_bytes i"
  using assms sum_list_AList_delete [of "entries i" k e esize]
  by (auto simp: accounted_def esize_def distinct_delete)

lemma sum_list_AList_update:
  fixes f :: "'k \<times> 'v \<Rightarrow> nat"
  assumes "distinct (map fst al)"
  shows "sum_list (map f (AList.update k e al)) + (case map_of al k of Some p \<Rightarrow> f (k, p) | None \<Rightarrow> 0)
           = sum_list (map f al) + f (k, e)"
  using assms
proof (induction al)
  case Nil
  then show ?case by simp
next
  case (Cons x al)
  then show ?case by (cases x) (auto split: option.splits simp: map_of_eq_None_iff)
qed

lemma accounted_update:
  assumes "accounted i"
  shows "accounted
    \<lparr>tick = t,
     used_bytes = (case map_of (entries i) k of
                     Some prev \<Rightarrow> used_bytes i - length (rd_bytes (e_data prev))
                   | None \<Rightarrow> used_bytes i) + length (rd_bytes (e_data e)),
     entries = AList.update k e (entries i)\<rparr>"
proof -
  have d: "distinct (map fst (entries i))" using assms by (simp add: accounted_def)
  then have "distinct (map fst (AList.update k e (entries i)))" by (rule distinct_update)
  moreover note sum_list_AList_update [OF d, of esize k e]
  moreover have "used_bytes i = sum_list (map esize (entries i))"
    using assms by (simp add: accounted_def)
  ultimately show ?thesis
    using accounted_delete(2) [OF assms, of k]
    by (cases "map_of (entries i) k") (simp_all add: accounted_def esize_def)
qed

section \<open>Both bounds hold after every operation\<close>

lemma evict_ok:
  assumes "accounted i"
  shows "accounted (evict me mb i)" and "length (entries (evict me mb i)) \<le> me"
    and "used_bytes (evict me mb i) \<le> mb" and "tick (evict me mb i) = tick i"
    and "set (entries (evict me mb i)) \<subseteq> set (entries i)"
proof -
  have "accounted (evict me mb i) \<and> length (entries (evict me mb i)) \<le> me \<and>
      used_bytes (evict me mb i) \<le> mb \<and> tick (evict me mb i) = tick i \<and>
      set (entries (evict me mb i)) \<subseteq> set (entries i)"
    using assms
  proof (induction me mb i rule: evict.induct)
    case (1 me mb i)
    show ?case
    proof (cases "me < length (entries i) \<or> mb < used_bytes i")
      case False
      with 1(2) show ?thesis by (subst (1 2 3 4 5) evict.simps) simp
    next
      case True
      with 1(2) have "entries i \<noteq> []" using accounted_empty by force
      then obtain v where v: "victim_of (entries i) = Some v" by (cases "entries i") auto
      then obtain r where r: "map_of (entries i) v = Some r" using map_of_victim by blast
      let ?i = "i\<lparr>entries := AList.delete v (entries i),
                 used_bytes := used_bytes i - length (rd_bytes (e_data r))\<rparr>"
      have "accounted ?i" using accounted_delete(1) [OF 1(2) r] .
      moreover have "evict me mb i = evict me mb ?i"
        using True v r by (subst evict.simps) simp
      moreover have "set (AList.delete v (entries i)) \<subseteq> set (entries i)"
        by (auto simp: AList.delete_eq)
      ultimately show ?thesis using 1(1) [OF True v r] by auto
    qed
  qed
  then show "accounted (evict me mb i)" and "length (entries (evict me mb i)) \<le> me"
    and "used_bytes (evict me mb i) \<le> mb" and "tick (evict me mb i) = tick i"
    and "set (entries (evict me mb i)) \<subseteq> set (entries i)" by simp_all
qed

lemma mc_wf_new [simp]: "mc_wf (mc_new me mb)"
  by (simp add: mc_wf_def mc_new_def accounted_def)

lemma map_esize_touch:
  "map_of al k = Some e \<Longrightarrow> e_data e' = e_data e \<Longrightarrow> distinct (map fst al) \<Longrightarrow>
     sum_list (map esize (AList.update k e' al)) = sum_list (map esize al)"
  using sum_list_AList_update [of al esize k e'] by (simp add: esize_def)

lemma mc_wf_get: "mc_wf c \<Longrightarrow> mc_wf (snd (mc_get c k))"
proof (cases "map_of (entries (inner c)) k")
  case (Some e)
  assume wf: "mc_wf c"
  from Some have "k \<in> fst ` set (entries (inner c))" by (force dest: map_of_SomeD)
  with wf Some show ?thesis
    by (simp add: mc_wf_def mc_get_def Let_def accounted_def distinct_update AList_update_keep
        map_esize_touch [OF Some])
qed (simp add: mc_wf_def mc_get_def Let_def accounted_def)

lemma mc_put_small:
  "max_entries c = 0 \<or> max_bytes c < length (rd_bytes d) \<Longrightarrow> mc_put c k d = c"
  by (simp add: mc_put_def)

text \<open>The state \<open>mc_put\<close> hands to the eviction loop.\<close>

definition inserted :: "inner \<Rightarrow> string \<Rightarrow> resolved_data \<Rightarrow> inner" where
  "inserted i k d =
     \<lparr>tick = tick i + 1,
      used_bytes = (case map_of (entries i) k of
                      Some prev \<Rightarrow> used_bytes i - length (rd_bytes (e_data prev))
                    | None \<Rightarrow> used_bytes i) + length (rd_bytes d),
      entries = AList.update k \<lparr>last_used = tick i + 1, e_data = d\<rparr> (entries i)\<rparr>"

lemma mc_put_large:
  "0 < max_entries c \<Longrightarrow> length (rd_bytes d) \<le> max_bytes c \<Longrightarrow>
     mc_put c k d = c\<lparr>inner := evict (max_entries c) (max_bytes c) (inserted (inner c) k d)\<rparr>"
  by (simp add: mc_put_def inserted_def Let_def)

lemma accounted_inserted: "accounted i \<Longrightarrow> accounted (inserted i k d)"
  using accounted_update [of i "tick i + 1" k "\<lparr>last_used = tick i + 1, e_data = d\<rparr>"]
  by (simp add: inserted_def)

lemma mc_wf_put: "mc_wf c \<Longrightarrow> mc_wf (mc_put c k d)"
  using evict_ok [OF accounted_inserted [of "inner c" k d]]
  by (cases "max_entries c = 0 \<or> max_bytes c < length (rd_bytes d)")
    (simp_all add: mc_put_small mc_put_large mc_wf_def)

lemma inserted_peak:
  "mc_wf c \<Longrightarrow> length (rd_bytes d) \<le> max_bytes c \<Longrightarrow>
     used_bytes (inserted (inner c) k d) \<le> 2 * max_bytes c"
  by (auto simp: mc_wf_def inserted_def split: option.splits)

section \<open>Looking up\<close>

definition mc_stored :: "memory_cache \<Rightarrow> string \<Rightarrow> resolved_data option" where
  "mc_stored c k = map_option e_data (map_of (entries (inner c)) k)"

lemma mc_stored_new [simp]: "mc_stored (mc_new me mb) = Map.empty"
  by (simp add: mc_stored_def mc_new_def fun_eq_iff)

lemma fst_mc_get: "fst (mc_get c k) = mc_stored c k"
  by (simp add: mc_get_def mc_stored_def Let_def split: option.splits)

lemma mc_stored_get: "mc_stored (snd (mc_get c k)) = mc_stored c"
  by (auto simp: mc_get_def mc_stored_def Let_def fun_eq_iff update_conv' split: option.splits)

lemma mc_stored_put_only:
  assumes "mc_wf c" and "mc_stored (mc_put c k v) k' = Some w"
  shows "(k' = k \<and> w = v) \<or> mc_stored c k' = Some w"
proof (cases "max_entries c = 0 \<or> max_bytes c < length (rd_bytes v)")
  case True
  with assms show ?thesis by (simp add: mc_put_small)
next
  case False
  let ?i = "inserted (inner c) k v" and ?e = "evict (max_entries c) (max_bytes c) (inserted (inner c) k v)"
  have acc: "accounted ?i" using assms(1) by (simp add: mc_wf_def accounted_inserted)
  from False assms(2) obtain e where "map_of (entries ?e) k' = Some e" and w: "w = e_data e"
    by (auto simp: mc_put_large mc_stored_def)
  then have "(k', e) \<in> set (entries ?i)" using evict_ok(5) [OF acc] by (auto dest: map_of_SomeD)
  moreover have "distinct (map fst (entries ?i))" using acc by (simp add: accounted_def)
  ultimately have "map_of (entries ?i) k' = Some e" by simp
  with w show ?thesis
    by (auto simp: inserted_def update_conv' mc_stored_def split: if_splits)
qed

interpretation mem: cache_ops mc_stored mc_get mc_put mc_wf
  by unfold_locales
    (simp_all add: fst_mc_get mc_stored_get mc_wf_get mc_wf_put mc_stored_put_only)

section \<open>Recency\<close>

definition by_age :: "(string \<times> entry) list \<Rightarrow> (string \<times> entry) list" where
  "by_age es = sort_key (\<lambda>x. last_used (snd x)) es"

definition payload :: "string \<times> entry \<Rightarrow> string \<times> resolved_data" where
  "payload x = (fst x, e_data (snd x))"

definition inner_order :: "inner \<Rightarrow> (string \<times> resolved_data) list" where
  "inner_order i = map payload (rev (by_age (entries i)))"

definition mc_order :: "memory_cache \<Rightarrow> (string \<times> resolved_data) list" where
  "mc_order c = inner_order (inner c)"

definition dsize :: "resolved_data \<Rightarrow> nat" where
  "dsize d = length (rd_bytes d)"

definition ticks_ok :: "inner \<Rightarrow> bool" where
  "ticks_ok i \<longleftrightarrow> inj_on (\<lambda>x. last_used (snd x)) (set (entries i)) \<and>
     (\<forall>x \<in> set (entries i). last_used (snd x) \<le> tick i)"

definition mc_live :: "nat \<Rightarrow> memory_cache \<Rightarrow> bool" where
  "mc_live n c \<longleftrightarrow> ticks_ok (inner c) \<and> unat (tick (inner c)) + n < 2 ^ 64"

lemma by_age_set [simp]: "set (by_age es) = set es" "length (by_age es) = length es"
  by (simp_all add: by_age_def)

lemma by_age_distinct: "distinct (map fst es) \<Longrightarrow> distinct (map fst (by_age es))"
  by (simp add: distinct_map by_age_def)

lemma map_of_payload: "map_of (map payload xs) k = map_option e_data (map_of xs k)"
  by (induction xs) (auto simp: payload_def)

lemma map_of_same_set:
  "set xs = set ys \<Longrightarrow> distinct (map fst xs) \<Longrightarrow> distinct (map fst ys) \<Longrightarrow> map_of xs = map_of ys"
proof -
  assume a: "set xs = set ys" "distinct (map fst xs)" "distinct (map fst ys)"
  show "map_of xs = map_of ys"
  proof (rule map_of_eqI)
    show "set (map fst xs) = set (map fst ys)" using a(1) by simp
    show "\<forall>k \<in> set (map fst xs). map_of xs k = map_of ys k"
    proof
      fix k assume "k \<in> set (map fst xs)"
      then obtain v where "(k, v) \<in> set xs" by auto
      moreover from this have "(k, v) \<in> set ys" using a(1) by simp
      ultimately show "map_of xs k = map_of ys k" using a(2,3) by simp
    qed
  qed
qed

lemma inner_order_lookup:
  assumes "accounted i"
  shows "map_of (inner_order i) k = map_option e_data (map_of (entries i) k)"
proof -
  have "map_of (rev (by_age (entries i))) = map_of (entries i)"
    using assms by (intro map_of_same_set)
      (simp_all add: accounted_def by_age_distinct rev_map [symmetric])
  then show ?thesis by (simp add: inner_order_def map_of_payload)
qed

lemma total_size_order: "total_size dsize (map payload xs) = sum_list (map esize xs)"
  by (induction xs) (simp_all add: payload_def dsize_def esize_def)

lemma fits_inner_order:
  "accounted i \<Longrightarrow> fits dsize me mb (inner_order i) \<longleftrightarrow> length (entries i) \<le> me \<and> used_bytes i \<le> mb"
proof -
  assume "accounted i"
  moreover have "sum_list (map esize (rev (by_age (entries i)))) = sum_list (map esize (entries i))"
    by (simp add: by_age_def sum_mset_sum_list [symmetric] rev_map [symmetric])
  ultimately show ?thesis
    by (simp add: fits_def inner_order_def total_size_order accounted_def)
qed

text \<open>Removing the victim drops the last entry of the order.\<close>

lemma by_age_delete:
  assumes "distinct (map fst es)" and "inj_on (\<lambda>x. last_used (snd x)) (set es)"
    and "victim_of es = Some v"
  shows "by_age (AList.delete v es) = tl (by_age es)"
proof -
  obtain x xs where es: "es = x # xs" using assms(3) by (cases es) auto
  let ?o = "oldest_from x xs"
  have v: "v = fst ?o" using assms(3) es by simp
  have o_in: "?o \<in> set es" using oldest_from_mem [of x xs] es by simp
  have o_le: "y \<in> set es \<Longrightarrow> last_used (snd ?o) \<le> last_used (snd y)" for y
    using oldest_from_le [of y x xs] es by simp
  obtain a rest where srt: "by_age es = a # rest"
    using es by (metis by_age_set(2) length_0_conv list.exhaust list.simps(3))
  have a_in: "a \<in> set es" using srt by_age_set(1) [of es] by auto
  have sorted: "sorted (map (\<lambda>x. last_used (snd x)) (a # rest))"
    unfolding srt [symmetric] by_age_def by (rule sorted_sort_key)
  have "?o \<in> set (a # rest)" using o_in srt by_age_set(1) [of es] by simp
  with sorted have "last_used (snd a) \<le> last_used (snd ?o)" by auto
  with o_le [OF a_in] have "last_used (snd a) = last_used (snd ?o)" by simp
  with assms(2) a_in o_in have "a = ?o" by (auto dest: inj_onD)
  with v have "fst a = v" by simp
  moreover have "distinct (map fst (a # rest))" using by_age_distinct [OF assms(1)] srt by simp
  ultimately have "filter (\<lambda>(k', _). v \<noteq> k') (a # rest) = rest"
    by (auto simp: filter_id_conv split_beta intro: rev_image_eqI)
  moreover have "by_age (AList.delete v es) = filter (\<lambda>(k', _). v \<noteq> k') (by_age es)"
    by (simp add: by_age_def AList.delete_eq filter_sort)
  ultimately show ?thesis using srt by simp
qed

lemma ticks_ok_subset:
  "ticks_ok i \<Longrightarrow> set (entries j) \<subseteq> set (entries i) \<Longrightarrow> tick j = tick i \<Longrightarrow> ticks_ok j"
  by (auto simp: ticks_ok_def intro: inj_on_subset)

lemma evict_order:
  assumes "accounted i" and "ticks_ok i"
  shows "inner_order (evict me mb i) = lru_fit dsize me mb (inner_order i)"
  using assms
proof (induction me mb i rule: evict.induct)
  case (1 me mb i)
  show ?case
  proof (cases "me < length (entries i) \<or> mb < used_bytes i")
    case False
    then have "fits dsize me mb (inner_order i)" using 1(2) by (simp add: fits_inner_order)
    then show ?thesis using False by (subst evict.simps) (simp add: lru_fit_id)
  next
    case True
    with 1(2) have "entries i \<noteq> []" using accounted_empty by force
    then obtain v where v: "victim_of (entries i) = Some v" by (cases "entries i") auto
    then obtain r where r: "map_of (entries i) v = Some r" using map_of_victim by blast
    let ?i = "i\<lparr>entries := AList.delete v (entries i),
               used_bytes := used_bytes i - length (rd_bytes (e_data r))\<rparr>"
    have "evict me mb i = evict me mb ?i" using True v r by (subst evict.simps) simp
    also have "inner_order \<dots> = lru_fit dsize me mb (inner_order ?i)"
      using 1(1) [OF True v r] accounted_delete(1) [OF 1(2) r] ticks_ok_subset [OF 1(3)]
      by (auto simp: AList.delete_eq)
    also have "inner_order ?i = butlast (inner_order i)"
      using by_age_delete [OF _ _ v] 1(2,3)
      by (simp add: inner_order_def accounted_def ticks_ok_def map_butlast [symmetric] butlast_rev)
    also have "lru_fit dsize me mb (butlast (inner_order i)) = lru_fit dsize me mb (inner_order i)"
      using True 1(2) by (intro lru_fit_step [symmetric]) (auto simp: fits_inner_order)
    finally show ?thesis .
  qed
qed

text \<open>Writing an entry with a fresh tick puts it last in age, that is first in the order.\<close>

lemma mset_update:
  "distinct (map fst es) \<Longrightarrow>
     mset (AList.update k e es) = mset (filter (\<lambda>(k', _). k \<noteq> k') es @ [(k, e)])"
proof (induction es)
  case Nil
  then show ?case by simp
next
  case (Cons x es)
  show ?case
  proof (cases "fst x = k")
    case True
    with Cons.prems have "filter (\<lambda>(k', _). k \<noteq> k') es = es"
      by (auto simp: filter_id_conv intro: rev_image_eqI)
    with True show ?thesis by (cases x) simp
  next
    case False
    with Cons show ?thesis by (cases x) simp
  qed
qed

definition fresh_for :: "u64 \<Rightarrow> (string \<times> entry) list \<Rightarrow> bool" where
  "fresh_for t es \<longleftrightarrow> (\<forall>x \<in> set es. last_used (snd x) < t)"

lemma set_update_sub: "set (AList.update k e es) \<subseteq> insert (k, e) (set es)"
  by (induction es) auto

lemma inj_on_update:
  assumes "inj_on (\<lambda>x. last_used (snd x)) (set es)" and "fresh_for (last_used e) es"
  shows "inj_on (\<lambda>x. last_used (snd x)) (set (AList.update k e es))"
proof (rule inj_on_subset [OF _ set_update_sub])
  show "inj_on (\<lambda>x. last_used (snd x)) (insert (k, e) (set es))"
    using assms by (auto simp: fresh_for_def inj_on_insert)
qed

lemma by_age_update:
  assumes "distinct (map fst es)" and "inj_on (\<lambda>x. last_used (snd x)) (set es)"
    and "fresh_for (last_used e) es"
  shows "by_age (AList.update k e es) = filter (\<lambda>(k', _). k \<noteq> k') (by_age es) @ [(k, e)]"
  unfolding by_age_def
proof (rule sort_key_inj_key_eq)
  let ?f = "\<lambda>x::string \<times> entry. last_used (snd x)"
  show "mset (AList.update k e es) = mset (filter (\<lambda>(k', _). k \<noteq> k') (sort_key ?f es) @ [(k, e)])"
    using mset_update [OF assms(1)] by simp
  show "inj_on ?f (set (AList.update k e es))" using assms(2,3) by (rule inj_on_update)
  have "sorted (map ?f (filter (\<lambda>(k', _). k \<noteq> k') (sort_key ?f es)))"
    by (intro sorted_filter) simp
  then show "sorted (map ?f (filter (\<lambda>(k', _). k \<noteq> k') (sort_key ?f es) @ [(k, e)]))"
    using assms(3) by (auto simp: fresh_for_def sorted_append less_imp_le)
qed

lemma filter_payload:
  "map payload (filter (\<lambda>(k', _). k \<noteq> k') xs) = filter (\<lambda>(k', v'). k' \<noteq> k) (map payload xs)"
  by (induction xs) (auto simp: payload_def)

lemma inner_order_update:
  assumes "accounted i" and "ticks_ok i" and "fresh_for (last_used e) (entries i)"
    and "entries j = AList.update k e (entries i)"
  shows "inner_order j = to_front k (e_data e) (inner_order i)"
  using by_age_update [of "entries i" e k] assms
  by (simp add: inner_order_def accounted_def ticks_ok_def to_front_def filter_payload rev_filter
      payload_def)

section \<open>Every operation refines its specification\<close>

lemma tick_succ:
  assumes "unat t + Suc n < 2 ^ 64"
  shows "unat (t + 1 :: u64) = Suc (unat t)" and "t < t + 1"
proof -
  have "unat t + unat (1 :: u64) < 2 ^ LENGTH(64)" using assms by simp
  then show "unat (t + 1) = Suc (unat t)" by (simp add: unat_add_lem [THEN iffD1])
  then show "t < t + 1" by (simp add: word_less_nat_alt)
qed

lemma live_fresh:
  assumes "mc_live (Suc n) c"
  shows "fresh_for (tick (inner c) + 1) (entries (inner c))"
  using assms tick_succ(2) [of "tick (inner c)" n]
  by (auto simp: mc_live_def ticks_ok_def fresh_for_def intro: le_less_trans)

lemma ticks_ok_update:
  assumes "ticks_ok i" and "fresh_for t (entries i)" and "last_used e = t"
    and "entries j = AList.update k e (entries i)" and "tick j = t"
  shows "ticks_ok j"
  unfolding ticks_ok_def
proof
  show "inj_on (\<lambda>x. last_used (snd x)) (set (entries j))"
    using assms inj_on_update [of "entries i" e k] by (simp add: ticks_ok_def)
  show "\<forall>x \<in> set (entries j). last_used (snd x) \<le> tick j"
  proof
    fix x assume "x \<in> set (entries j)"
    then have "x \<in> insert (k, e) (set (entries i))"
      unfolding assms(4) by (rule subsetD [OF set_update_sub])
    then have "x = (k, e) \<or> x \<in> set (entries i)" by simp
    then show "last_used (snd x) \<le> tick j"
      using assms(2,3,5) by (auto simp: fresh_for_def less_imp_le)
  qed
qed

lemma mc_get_order:
  assumes "mc_wf c" and "mc_live (Suc n) c"
  shows "mc_order (snd (mc_get c k)) = snd (spec_get (mc_order c) k)"
proof -
  have acc: "accounted (inner c)" and ok: "ticks_ok (inner c)"
    using assms by (simp_all add: mc_wf_def mc_live_def)
  show ?thesis
  proof (cases "map_of (entries (inner c)) k")
    case None
    then show ?thesis
      by (simp add: mc_get_def Let_def mc_order_def spec_get_def inner_order_lookup [OF acc])
        (simp add: inner_order_def)
  next
    case (Some e)
    then show ?thesis
      using inner_order_update [OF acc ok, of "e\<lparr>last_used := tick (inner c) + 1\<rparr>"] live_fresh [OF assms(2)]
      by (simp add: mc_get_def Let_def mc_order_def spec_get_def inner_order_lookup [OF acc])
  qed
qed

lemma mc_live_get:
  assumes "mc_wf c" and "mc_live (Suc n) c"
  shows "mc_live n (snd (mc_get c k))"
proof (cases "map_of (entries (inner c)) k")
  case None
  then show ?thesis
    using assms(2) tick_succ(1) [of "tick (inner c)" n] live_fresh [OF assms(2)]
    by (auto simp: mc_live_def mc_get_def Let_def ticks_ok_def fresh_for_def less_imp_le)
next
  case (Some e)
  then show ?thesis
    using assms(2) tick_succ(1) [of "tick (inner c)" n]
      ticks_ok_update [OF _ live_fresh [OF assms(2)], of "e\<lparr>last_used := tick (inner c) + 1\<rparr>"]
    by (auto simp: mc_live_def mc_get_def Let_def)
qed

lemma inserted_facts:
  assumes "mc_wf c" and "mc_live (Suc n) c"
  shows "inner_order (inserted (inner c) k d) = to_front k d (inner_order (inner c))"
    and "ticks_ok (inserted (inner c) k d)"
  using assms inner_order_update [of "inner c" "\<lparr>last_used = tick (inner c) + 1, e_data = d\<rparr>"]
    ticks_ok_update [of "inner c" "tick (inner c) + 1" "\<lparr>last_used = tick (inner c) + 1, e_data = d\<rparr>"]
    live_fresh [OF assms(2)]
  by (simp_all add: mc_wf_def mc_live_def inserted_def)

lemma mc_put_order:
  assumes "mc_wf c" and "mc_live (Suc n) c"
  shows "mc_order (mc_put c k d) = spec_put dsize (max_entries c) (max_bytes c) (mc_order c) k d"
proof (cases "max_entries c = 0 \<or> max_bytes c < length (rd_bytes d)")
  case True
  then show ?thesis by (auto simp: mc_put_small spec_put_def dsize_def)
next
  case False
  have "accounted (inserted (inner c) k d)" using assms(1) by (simp add: mc_wf_def accounted_inserted)
  from evict_order [OF this inserted_facts(2) [OF assms]] False show ?thesis
    by (simp add: mc_put_large spec_put_def dsize_def mc_order_def inserted_facts(1) [OF assms])
qed

lemma mc_live_put:
  assumes "mc_wf c" and "mc_live (Suc n) c"
  shows "mc_live n (mc_put c k d)"
proof (cases "max_entries c = 0 \<or> max_bytes c < length (rd_bytes d)")
  case True
  then show ?thesis using assms(2) by (simp add: mc_put_small mc_live_def)
next
  case False
  let ?i = "inserted (inner c) k d"
  have acc: "accounted ?i" using assms(1) by (simp add: mc_wf_def accounted_inserted)
  have "tick ?i = tick (inner c) + 1" by (simp add: inserted_def)
  with False assms(2) tick_succ(1) [of "tick (inner c)" n] evict_ok(4) [OF acc]
    ticks_ok_subset [OF inserted_facts(2) [OF assms] evict_ok(5) [OF acc] evict_ok(4) [OF acc]]
  show ?thesis by (simp add: mc_put_large mc_live_def)
qed

lemma mc_limits [simp]:
  "max_entries (snd (mc_get c k)) = max_entries c" "max_bytes (snd (mc_get c k)) = max_bytes c"
  "max_entries (mc_put c k d) = max_entries c" "max_bytes (mc_put c k d) = max_bytes c"
  by (simp_all add: mc_get_def mc_put_def Let_def split: option.splits)

definition mc_limit_pair :: "memory_cache \<Rightarrow> nat \<times> nat" where
  "mc_limit_pair c = (max_entries c, max_bytes c)"

lemma mc_order_lookup: "mc_wf c \<Longrightarrow> mc_stored c = map_of (mc_order c)"
  by (simp add: fun_eq_iff mc_stored_def mc_order_def mc_wf_def inner_order_lookup)

interpretation lru: lru_cache mc_stored mc_get mc_put mc_wf mc_order dsize mc_limit_pair mc_live
proof unfold_locales
  fix c :: memory_cache and k :: string and d :: resolved_data and n :: nat
  show "mc_wf c \<Longrightarrow> mc_stored c = map_of (mc_order c)" by (rule mc_order_lookup)
  show "mc_wf c \<Longrightarrow> mc_live (Suc n) c \<Longrightarrow> mc_order (snd (mc_get c k)) = snd (spec_get (mc_order c) k)"
    by (rule mc_get_order)
  show "mc_wf c \<Longrightarrow> mc_live (Suc n) c \<Longrightarrow>
      mc_order (mc_put c k d) = spec_put dsize (fst (mc_limit_pair c)) (snd (mc_limit_pair c)) (mc_order c) k d"
    using mc_put_order by (simp add: mc_limit_pair_def)
  show "mc_limit_pair (snd (mc_get c k)) = mc_limit_pair c" by (simp add: mc_limit_pair_def)
  show "mc_limit_pair (mc_put c k d) = mc_limit_pair c" by (simp add: mc_limit_pair_def)
  show "mc_wf c \<Longrightarrow> mc_live (Suc n) c \<Longrightarrow> mc_live n (snd (mc_get c k))" by (rule mc_live_get)
  show "mc_wf c \<Longrightarrow> mc_live (Suc n) c \<Longrightarrow> mc_live n (mc_put c k d)" by (rule mc_live_put)
qed

lemma mc_live_new: "n < 2 ^ 64 \<Longrightarrow> mc_live n (mc_new me mb)"
  by (simp add: mc_live_def ticks_ok_def mc_new_def)

lemma mc_order_new: "mc_order (mc_new me mb) = []"
  by (simp add: mc_order_def inner_order_def mc_new_def by_age_def)

lemma run_limits:
  "max_entries (snd (run_ops mc_get mc_put ops c)) = max_entries c \<and>
   max_bytes (snd (run_ops mc_get mc_put ops c)) = max_bytes c"
proof (induction ops arbitrary: c)
  case Nil
  then show ?case by simp
next
  case (Cons x ops)
  then show ?case
  proof (cases x)
    case (GetOp k)
    with Cons [of "snd (mc_get c k)"] show ?thesis by (simp add: split_beta)
  next
    case (PutOp k v)
    with Cons [of "mc_put c k v"] show ?thesis by simp
  qed
qed

section \<open>Separators in identities\<close>

lemma split_at_first:
  assumes "c \<notin> set xs" and "c \<notin> set ys"
  shows "xs @ c # u = ys @ c # v \<longleftrightarrow> xs = ys \<and> u = v"
  using assms
proof (induction xs arbitrary: ys)
  case Nil
  then show ?case by (cases ys) auto
next
  case (Cons x xs)
  then show ?case by (cases ys) auto
qed

lemma split_at_last:
  assumes "c \<notin> set u" and "c \<notin> set v"
  shows "xs @ c # u = ys @ c # v \<longleftrightarrow> xs = ys \<and> u = v"
proof -
  have "xs @ c # u = ys @ c # v \<longleftrightarrow> rev u @ c # rev xs = rev v @ c # rev ys"
    by (subst rev_is_rev_conv [symmetric]) simp
  then show ?thesis using split_at_first [of c "rev u" "rev v" "rev xs" "rev ys"] assms by auto
qed

section \<open>The properties of the memory cache\<close>

text \<open>
  C21. The memory cache implements the LRU specification: whatever operations are performed on a
  fresh cache (fewer than \<open>2 ^ 64\<close> of them, after which the \<open>u64\<close> tick would wrap), every lookup
  returns what the specification returns, the most recently used list, and the entries in
  order of recency are that list.
\<close>

theorem memory_cache_is_lru:
  assumes "length ops < 2 ^ 64"
  shows "fst (run_ops mc_get mc_put ops (mc_new me mb)) = fst (run_ops spec_get (spec_put dsize me mb) ops [])
    \<and> mc_order (snd (run_ops mc_get mc_put ops (mc_new me mb)))
        = snd (run_ops spec_get (spec_put dsize me mb) ops [])"
proof -
  have "mc_limit_pair (mc_new me mb) = (me, mb)" by (simp add: mc_limit_pair_def mc_new_def)
  from lru.simulates [OF mc_wf_new mc_live_new [OF assms] this] show ?thesis
    by (simp add: mc_order_new)
qed

definition sample_data :: "nat \<Rightarrow> resolved_data" where
  "sample_data n = \<lparr>rd_bytes = replicate n 0, rd_content_type = ''image/png''\<rparr>"

text \<open>The scenario of the code's own test: with room for two entries, the least recent one goes.\<close>

lemma memory_cache_is_lru_witness:
  "fst (run_ops mc_get mc_put
      [PutOp ''a'' (sample_data 1), PutOp ''b'' (sample_data 1), GetOp ''a'', PutOp ''c'' (sample_data 1),
       GetOp ''a'', GetOp ''c'', GetOp ''b''] (mc_new 2 100))
     = [Some (sample_data 1), Some (sample_data 1), Some (sample_data 1), None]"
proof -
  have "fst (run_ops spec_get (spec_put dsize 2 100)
      [PutOp ''a'' (sample_data 1), PutOp ''b'' (sample_data 1), GetOp ''a'', PutOp ''c'' (sample_data 1),
       GetOp ''a'', GetOp ''c'', GetOp ''b''] [])
     = [Some (sample_data 1), Some (sample_data 1), Some (sample_data 1), None]"
    by code_simp
  then show ?thesis
    using memory_cache_is_lru [of "[PutOp ''a'' (sample_data 1), PutOp ''b'' (sample_data 1), GetOp ''a'',
        PutOp ''c'' (sample_data 1), GetOp ''a'', GetOp ''c'', GetOp ''b'']" 2 100] by simp
qed

text \<open>
  Both bounds hold whatever is done with a cache: there are never more entries than
  \<open>max_entries\<close>, no key has two entries, and the byte counter is the sum of the sizes of the
  entries and at most \<open>max_bytes\<close>.
\<close>

theorem memory_cache_bounded:
  "let i = inner (snd (run_ops mc_get mc_put ops (mc_new me mb)))
   in length (entries i) \<le> me \<and> distinct (map fst (entries i)) \<and>
      used_bytes i = sum_list (map (\<lambda>x. length (rd_bytes (e_data (snd x)))) (entries i)) \<and> used_bytes i \<le> mb"
proof -
  let ?c = "snd (run_ops mc_get mc_put ops (mc_new me mb))"
  have "mc_wf ?c" by (rule mem.wf_run) simp
  moreover have "max_entries ?c = max_entries (mc_new me mb) \<and> max_bytes ?c = max_bytes (mc_new me mb)"
    by (rule run_limits)
  ultimately show ?thesis
    by (simp add: mc_wf_def accounted_def esize_def [abs_def] mc_new_def Let_def)
qed

text \<open>
  The byte counter never wraps, not on a 32-bit \<open>usize\<close> either: in every cache that keeps its
  invariant, the entry a \<open>put\<close> replaces is counted, so that the subtraction is exact, and the
  counter the eviction loop starts from is at most twice the budget; the same is true of every
  entry the loop removes.
\<close>

theorem memory_cache_counter_exact:
  assumes "mc_wf c" and "length (rd_bytes d) \<le> max_bytes c"
  shows "used_bytes (inserted (inner c) k d) \<le> 2 * max_bytes c
    \<and> (case map_of (entries (inner c)) k of
          Some prev \<Rightarrow> length (rd_bytes (e_data prev)) \<le> used_bytes (inner c) | None \<Rightarrow> True)
    \<and> (case map_of (entries (inserted (inner c) k d)) v of
          Some e \<Rightarrow> length (rd_bytes (e_data e)) \<le> used_bytes (inserted (inner c) k d) | None \<Rightarrow> True)"
proof -
  have acc: "accounted (inner c)" using assms(1) by (simp add: mc_wf_def)
  show ?thesis
    using inserted_peak [OF assms] accounted_delete(2) [OF acc]
      accounted_delete(2) [OF accounted_inserted [OF acc, of k d]]
    by (auto split: option.splits)
qed

lemma memory_cache_counter_exact_witness:
  "used_bytes (inserted (inner (mc_new 2 100)) ''a'' (sample_data 60)) \<le> 2 * 100"
  using memory_cache_counter_exact [OF mc_wf_new [of 2 100], of "sample_data 60" "''a''" "''a''"]
  by (simp add: mc_new_def sample_data_def)

text \<open>
  A \<open>put\<close> of an entry within the byte budget is found by the next lookup, and if all entries
  fit it evicts nothing.
\<close>

theorem memory_cache_put_get:
  assumes "mc_wf c" and "mc_live (Suc n) c" and "0 < max_entries c" and "length (rd_bytes d) \<le> max_bytes c"
  shows "fst (mc_get (mc_put c k d) k) = Some d
    \<and> (fits dsize (max_entries c) (max_bytes c) (to_front k d (mc_order c)) \<longrightarrow>
         mc_stored (mc_put c k d) = (mc_stored c)(k \<mapsto> d))"
  using lru.put_stores [OF assms(1,2), of d k] lru.nothing_evicted_if_room [OF assms(1,2), of d k] assms(3,4)
  by (simp add: fst_mc_get mc_limit_pair_def dsize_def)

lemma memory_cache_put_get_witness:
  "fst (mc_get (mc_put (mc_new 2 100) ''a'' (sample_data 60)) ''a'') = Some (sample_data 60)
   \<and> fst (mc_get (mc_put (mc_new 2 100) ''a'' (sample_data 60)) ''b'') = None"
proof -
  have "mc_live (Suc 0) (mc_new 2 100)" by (rule mc_live_new) simp
  from memory_cache_put_get [OF mc_wf_new this, of "sample_data 60" "''a''"] show ?thesis
    by (simp add: mc_new_def sample_data_def fst_mc_get mc_order_def inner_order_def by_age_def
        to_front_def fits_def dsize_def mc_stored_def)
qed

text \<open>
  The cache identity separates contents: store ids, roots and salts are hex, so they hold no
  colon, and two identities are equal only if store, root, resource key and salt are; the one
  collision is between no salt and an empty salt, which derive the same key.
\<close>

theorem content_id_injective:
  assumes "CHR '':'' \<notin> set s1" "CHR '':'' \<notin> set s2" "CHR '':'' \<notin> set r1" "CHR '':'' \<notin> set r2"
    and "CHR '':'' \<notin> set (case t1 of Some t \<Rightarrow> t | None \<Rightarrow> [])"
    and "CHR '':'' \<notin> set (case t2 of Some t \<Rightarrow> t | None \<Rightarrow> [])"
  shows "content_id s1 r1 k1 t1 = content_id s2 r2 k2 t2 \<longleftrightarrow>
    s1 = s2 \<and> r1 = r2 \<and> k1 = k2 \<and>
    (case t1 of Some t \<Rightarrow> t | None \<Rightarrow> []) = (case t2 of Some t \<Rightarrow> t | None \<Rightarrow> [])"
proof -
  let ?t1 = "case t1 of Some t \<Rightarrow> t | None \<Rightarrow> []" and ?t2 = "case t2 of Some t \<Rightarrow> t | None \<Rightarrow> []"
  have "content_id s1 r1 k1 t1 = content_id s2 r2 k2 t2 \<longleftrightarrow>
      s1 = s2 \<and> r1 @ '':'' @ k1 @ '':'' @ ?t1 = r2 @ '':'' @ k2 @ '':'' @ ?t2"
    using split_at_first [OF assms(1,2)] by (simp add: content_id_def)
  also have "\<dots> \<longleftrightarrow> s1 = s2 \<and> r1 = r2 \<and> k1 @ '':'' @ ?t1 = k2 @ '':'' @ ?t2"
    using split_at_first [OF assms(3,4)] by simp
  also have "k1 @ '':'' @ ?t1 = k2 @ '':'' @ ?t2 \<longleftrightarrow> k1 = k2 \<and> ?t1 = ?t2"
    using split_at_last [OF assms(5,6)] by simp
  finally show ?thesis .
qed

lemma content_id_injective_witness:
  "content_id ''aa'' ''bb'' ''a:b.png'' None \<noteq> content_id ''aa'' ''bb'' ''a'' (Some ''b.png'')"
  using content_id_injective [of "''aa''" "''aa''" "''bb''" "''bb''" None "Some ''b.png''" "''a:b.png''" "''a''"]
  by simp

end
