(* ===== verification/ContentType.thy ===== *)
theory ContentType
  imports RustStd
begin

text \<open>
  \<open>src/src/content_type.rs\<close>: the MIME type of a resource, from its path extension, else from its
  leading bytes, else the generic type.
\<close>

definition DEFAULT_CONTENT_TYPE :: string where
  "DEFAULT_CONTENT_TYPE = ''application/octet-stream''"

text \<open>The arms of the \<open>match\<close> on the lower-cased extension, in its order.\<close>

definition extension_arms :: "(string \<times> string) list" where
  "extension_arms =
     [(''html'', ''text/html''), (''htm'', ''text/html''), (''css'', ''text/css''),
      (''js'', ''text/javascript''), (''mjs'', ''text/javascript''),
      (''json'', ''application/json''), (''txt'', ''text/plain''), (''xml'', ''application/xml''),
      (''svg'', ''image/svg+xml''), (''png'', ''image/png''), (''jpg'', ''image/jpeg''),
      (''jpeg'', ''image/jpeg''), (''gif'', ''image/gif''), (''webp'', ''image/webp''),
      (''avif'', ''image/avif''), (''ico'', ''image/x-icon''), (''bmp'', ''image/bmp''),
      (''pdf'', ''application/pdf''), (''wasm'', ''application/wasm''), (''mp4'', ''video/mp4''),
      (''webm'', ''video/webm''), (''mp3'', ''audio/mpeg''), (''ogg'', ''audio/ogg''),
      (''wav'', ''audio/wav''), (''woff2'', ''font/woff2''), (''woff'', ''font/woff''),
      (''ttf'', ''font/ttf'')]"

text \<open>\<open>resource_key.rsplit('.').next()\<close> is the last piece; it is there for every key.\<close>

definition from_extension :: "string \<Rightarrow> string option" where
  "from_extension key =
     (let ext = to_ascii_lowercase (last (split_on CHR ''.'' key)) in map_of extension_arms ext)"

definition from_magic_bytes :: "bytes \<Rightarrow> string option" where
  "from_magic_bytes b =
     (if take 8 b = [0x89, 0x50, 0x4E, 0x47, 0x0D, 0x0A, 0x1A, 0x0A] then Some ''image/png''
      else if take 3 b = [0xFF, 0xD8, 0xFF] then Some ''image/jpeg''
      else if take 4 b = str_bytes ''GIF8'' then Some ''image/gif''
      else if take 4 b = str_bytes ''RIFF'' \<and> take 4 (drop 8 b) = str_bytes ''WEBP'' then Some ''image/webp''
      else if take 4 b = str_bytes ''%PDF'' then Some ''application/pdf''
      else if take 4 b = [0x00, 0x61, 0x73, 0x6D] then Some ''application/wasm''
      else None)"

definition derive :: "string \<Rightarrow> bytes \<Rightarrow> string" where
  "derive key b =
     (case (case from_extension key of Some m \<Rightarrow> Some m | None \<Rightarrow> from_magic_bytes b) of
        Some m \<Rightarrow> m
      | None \<Rightarrow> DEFAULT_CONTENT_TYPE)"

section \<open>The types that can come out\<close>

definition known_types :: "string list" where
  "known_types = DEFAULT_CONTENT_TYPE # map snd extension_arms"

lemma from_extension_known: "from_extension key = Some m \<Longrightarrow> m \<in> set (map snd extension_arms)"
  by (auto simp: from_extension_def Let_def dest: map_of_SomeD intro: rev_image_eqI)

lemma from_magic_known: "from_magic_bytes b = Some m \<Longrightarrow> m \<in> set (map snd extension_arms)"
proof -
  have "set [''image/png'', ''image/jpeg'', ''image/gif'', ''image/webp'', ''application/pdf'',
      ''application/wasm''] \<subseteq> set (map snd extension_arms)"
    by (simp add: extension_arms_def)
  then show "from_magic_bytes b = Some m \<Longrightarrow> ?thesis"
    by (auto simp: from_magic_bytes_def split: if_splits)
qed

lemma from_extension_last_dot:
  "CHR ''.'' \<notin> set ext \<Longrightarrow>
   from_extension (stem @ CHR ''.'' # ext) = map_of extension_arms (to_ascii_lowercase ext)"
  by (simp add: from_extension_def)

lemma from_extension_no_dot:
  "CHR ''.'' \<notin> set key \<Longrightarrow> from_extension key = map_of extension_arms (to_ascii_lowercase key)"
  by (simp add: from_extension_def)

end
