(* ===== verification/Errors.thy ===== *)
theory Errors
  imports RustStd
begin

text \<open>
  The error taxonomy of \<open>src/src/error.rs\<close>, its messages (the \<open>#[error(..)]\<close> attributes, which
  the wasm surface shows to the caller) and the classification of errors the ladder walk is
  built on: which of them let a resolve go on to the next tier and which stop it.
\<close>

section \<open>The error type\<close>

datatype resolve_error =
    Parse string
  | Transport string
  | Rpc string
  | NotFound
  | RootRequired
  | VerifyFailed string
  | DecryptFailed

text \<open>The error type of the \<open>dig_urn_protocol\<close> crate, as \<open>crypto.rs\<close> matches on it.\<close>

datatype protocol_error =
    P_Parse string
  | P_Transport string
  | P_Rpc string
  | P_NotFound
  | P_RootRequired
  | P_VerifyFailed string
  | P_DecryptFailed

section \<open>Messages\<close>

fun error_display :: "resolve_error \<Rightarrow> string" where
  "error_display (Parse m) = ''invalid DIG URN: '' @ m"
| "error_display (Transport m) = ''transport error: '' @ m"
| "error_display (Rpc m) = ''rpc error: '' @ m"
| "error_display NotFound = ''resource not found''"
| "error_display RootRequired =
     ''a root-pinned URN is required to resolve over the public gateway (rootless URNs are not chain-verified there)''"
| "error_display (VerifyFailed m) = ''inclusion verification failed: '' @ m"
| "error_display DecryptFailed = ''decryption failed (wrong key/salt or corrupt ciphertext)''"

section \<open>Classification\<close>

text \<open>
  The three groups of \<open>SPEC.md\<close> 4.1: integrity failures abort the whole ladder, absence and
  unreachability let it go on, everything else is a hard error.
\<close>

fun is_integrity :: "resolve_error \<Rightarrow> bool" where
  "is_integrity (VerifyFailed _) = True"
| "is_integrity DecryptFailed = True"
| "is_integrity _ = False"

fun is_fall_through :: "resolve_error \<Rightarrow> bool" where
  "is_fall_through NotFound = True"
| "is_fall_through (Transport _) = True"
| "is_fall_through _ = False"

fun is_hard :: "resolve_error \<Rightarrow> bool" where
  "is_hard (Parse _) = True"
| "is_hard (Rpc _) = True"
| "is_hard RootRequired = True"
| "is_hard _ = False"

lemma classification_exclusive:
  "is_integrity e \<Longrightarrow> \<not> is_fall_through e \<and> \<not> is_hard e"
  "is_fall_through e \<Longrightarrow> \<not> is_integrity e \<and> \<not> is_hard e"
  "is_hard e \<Longrightarrow> \<not> is_integrity e \<and> \<not> is_fall_through e"
  by (cases e; simp)+

lemma classification_total: "is_integrity e \<or> is_fall_through e \<or> is_hard e"
  by (cases e) simp_all

end
