(* ===== verification/Transport_Model.thy ===== *)
theory Transport_Model
  imports Errors
begin

text \<open>
  \<open>src/src/transport.rs\<close>: the response record, its two accessors and the transport interface.
  A transport answers a request from the history of everything that happened before it, and each
  request becomes an event of the history.
\<close>

section \<open>Responses\<close>

record http_response =
  status :: u16
  headers :: "(string \<times> string) list"
  body :: bytes

definition is_success :: "http_response \<Rightarrow> bool" where
  "is_success resp \<longleftrightarrow> 200 \<le> status resp \<and> status resp < 300"

definition header :: "http_response \<Rightarrow> string \<Rightarrow> string option" where
  "header resp name =
     (let name' = to_ascii_lowercase name
      in map_option snd (find (\<lambda>(k, v). eq_ignore_ascii_case k name') (headers resp)))"

section \<open>The injected transport\<close>

datatype transport_error = TransportError string

type_synonym transport = "history \<Rightarrow> event \<Rightarrow> transport_error + http_response"

definition http_get :: "transport \<Rightarrow> string \<Rightarrow> history \<Rightarrow> (transport_error + http_response) \<times> history" where
  "http_get T url h = (T h (HttpGet url), h @ [HttpGet url])"

definition post_json ::
    "transport \<Rightarrow> string \<Rightarrow> string \<Rightarrow> history \<Rightarrow> (transport_error + http_response) \<times> history" where
  "post_json T url bdy h = (T h (HttpPost url bdy), h @ [HttpPost url bdy])"

lemma http_get_history [simp]: "snd (http_get T url h) = h @ [HttpGet url]"
  by (simp add: http_get_def)

lemma post_json_history [simp]: "snd (post_json T url b h) = h @ [HttpPost url b]"
  by (simp add: post_json_def)

section \<open>Header lookup\<close>

lemma header_None_iff:
  "header resp name = None \<longleftrightarrow> \<not> (\<exists>k v. (k, v) \<in> set (headers resp) \<and> eq_ignore_ascii_case k name)"
  by (auto simp: header_def find_None_iff)

lemma header_case_insensitive:
  "to_ascii_lowercase a = to_ascii_lowercase b \<Longrightarrow> header resp a = header resp b"
  by (simp add: header_def)

lemma header_nil [simp]: "headers resp = [] \<Longrightarrow> header resp name = None"
  by (simp add: header_def)

lemma header_Some_mem:
  "header resp name = Some v \<Longrightarrow> \<exists>k. (k, v) \<in> set (headers resp) \<and> eq_ignore_ascii_case k name"
  by (fastforce simp: header_def find_Some_iff in_set_conv_nth)

end
