(* ===== verification/External.thy ===== *)
theory External
  imports Transport_Model
begin

text \<open>
  Everything the code calls that is not under \<open>src/\<close>, as two records of functions which the
  definitions take as arguments: \<open>crates\<close> for the third-party crates (\<open>dig-urn-protocol\<close>,
  \<open>digstore-core\<close>, \<open>base64\<close>, \<open>serde_json\<close>, the WHATWG URL parsers) and \<open>host\<close> for the build
  features and the machine the code runs on (transport, file system, name resolution, the
  JavaScript runtime).  Nothing is assumed of either record here; the last section names the
  documented behaviour some theorems assume.
\<close>

section \<open>Values exchanged with the crates\<close>

text \<open>\<open>serde_json::Value\<close>, with the three number representations of that crate.\<close>

datatype json_number = PosInt u64 | NegInt u64 | Float u64

datatype json =
    JNull
  | JBool bool
  | JNumber json_number
  | JString string
  | JArray "json list"
  | JObject "(string \<times> json) list"

text \<open>\<open>dig_urn_protocol::verify::FoldedProof\<close> and its injected trait \<open>ContentCrypto\<close>.\<close>

record folded_proof =
  fp_leaf :: bytes
  fp_root :: bytes

record 'u content_crypto =
  cc_decode_and_fold :: "bytes \<Rightarrow> folded_proof option"
  cc_decrypt_chunk :: "'u \<Rightarrow> bytes option \<Rightarrow> bytes \<Rightarrow> bytes option"

text \<open>The verifiable artifacts of \<open>cache.rs\<close>, whose JSON envelope \<open>serde_json\<close> writes and reads.\<close>

record disk_artifacts =
  da_ciphertext :: bytes
  da_proof_b64 :: string
  da_chunk_lens :: "u32 list"

text \<open>The result of \<open>dig.getContent\<close>, as \<open>rpc.rs\<close> declares it for \<open>serde\<close>.\<close>

record get_content =
  gc_total_length :: u64
  gc_offset :: u64
  gc_next_offset :: "u64 option"
  gc_complete :: "bool option"
  gc_ciphertext :: "string option"
  gc_inclusion_proof :: "string option"
  gc_chunk_lens :: "u32 list option"

section \<open>The crates\<close>

text \<open>
  \<open>'u\<close> is the type \<open>dig_urn_protocol::DigUrn\<close> and \<open>'m\<close> is \<open>digstore_core::MerkleProof\<close>; both stay
  abstract.  A \<open>Result\<close> whose error the code drops is an \<open>option\<close> here.
\<close>

record ('u, 'm) crates =
  du_parse_with_salt :: "string \<Rightarrow> string + 'u \<times> string option"
  du_store_id_hex :: "'u \<Rightarrow> string"
  du_root_hex :: "'u \<Rightarrow> string option"
  du_effective_resource_key :: "'u \<Rightarrow> string"
  du_content_key_hex :: "'u \<Rightarrow> string"
  du_canonical_rootless :: "'u \<Rightarrow> 'u"
  du_canonical :: "'u \<Rightarrow> string"
  du_salt_bytes :: "string \<Rightarrow> bytes option"
  b32_from_hex :: "string \<Rightarrow> bytes option"
  pv_verify_inclusion ::
    "'u content_crypto \<Rightarrow> bytes \<Rightarrow> bytes \<Rightarrow> bytes \<Rightarrow> protocol_error + unit"
  pv_decrypt ::
    "'u content_crypto \<Rightarrow> 'u \<Rightarrow> bytes option \<Rightarrow> bytes \<Rightarrow> u32 list \<Rightarrow> protocol_error + bytes"
  pv_verify_and_decrypt ::
    "'u content_crypto \<Rightarrow> 'u \<Rightarrow> bytes option \<Rightarrow> bytes \<Rightarrow> bytes \<Rightarrow> bytes \<Rightarrow> u32 list
      \<Rightarrow> protocol_error + bytes"
  mp_from_bytes :: "bytes \<Rightarrow> 'm option"
  mp_verify :: "'m \<Rightarrow> bool"
  mp_leaf :: "'m \<Rightarrow> bytes"
  mp_root :: "'m \<Rightarrow> bytes"
  dc_resource_leaf :: "bytes \<Rightarrow> bytes"
  dc_derive_decryption_key :: "string \<Rightarrow> bytes option \<Rightarrow> bytes"
  dc_decrypt_chunk :: "bytes \<Rightarrow> bytes \<Rightarrow> bytes option"
  dc_sha256_hex :: "bytes \<Rightarrow> string"
  b64_decode :: "bytes \<Rightarrow> bytes option"
  b64_encode :: "bytes \<Rightarrow> string"
  sj_value_from_slice :: "bytes \<Rightarrow> string + json"
  sj_to_string :: "json \<Rightarrow> string"
  sj_get_content :: "json \<Rightarrow> string + get_content"
  sj_artifacts_to_vec :: "disk_artifacts \<Rightarrow> bytes option"
  sj_artifacts_from_slice :: "bytes \<Rightarrow> disk_artifacts option"
  url_parse :: "string \<Rightarrow> (string \<times> string option) option"
  web_url_new :: "string \<Rightarrow> (string \<times> string) option"

section \<open>The machine and the build\<close>

text \<open>An IP address: the four octets of a V4 address, the eight segments of a V6 one.\<close>

datatype ip_addr = V4 u8 u8 u8 u8 | V6 "u16 list"

text \<open>
  A function of Node's \<open>fs\<close> module, applied to a path after a history: the value it returns, or
  \<open>None\<close> when it throws.  A Node \<open>Buffer\<close> is a \<open>Uint8Array\<close>.
\<close>

datatype js_value = JsUint8Array bytes | JsOther

type_synonym js_function = "history \<Rightarrow> string \<Rightarrow> js_value option"

record node_fs =
  read_file_sync :: js_function
  write_file_sync :: js_function
  mkdir_sync :: js_function
  unlink_sync :: js_function

record host =
  feature_native :: bool
  feature_wasm :: bool
  transport :: transport
  fs_read :: "history \<Rightarrow> string \<Rightarrow> bytes option"
  lookup_host :: "string \<Rightarrow> ip_addr list option"
  injected_fs :: "node_fs option"

section \<open>Documented behaviour some theorems assume\<close>

text \<open>
  The integrity gate of \<open>dig_urn_protocol::verify\<close>, as the comments of \<open>crypto.rs\<close> and section
  5.2 of \<open>SPEC.md\<close> document it: plaintext is returned only when the ciphertext is the leaf of
  the folded proof and the root of that proof is the trusted root.
\<close>

definition gate_contract :: "('u, 'm) crates \<Rightarrow> bool" where
  "gate_contract K \<longleftrightarrow>
     (\<forall>C u salt ct proof root lens pt.
        pv_verify_and_decrypt K C u salt ct proof root lens = Inr pt \<longrightarrow>
        (\<exists>f. cc_decode_and_fold C proof = Some f \<and> fp_leaf f = dc_resource_leaf K ct \<and> fp_root f = root))"

text \<open>
  Its decryption half: the ciphertext is split by the chunk lengths (one chunk when there are
  none) and every chunk must open.
\<close>

definition chunks_open :: "'u content_crypto \<Rightarrow> 'u \<Rightarrow> bytes option \<Rightarrow> bytes list \<Rightarrow> bytes list \<Rightarrow> bool" where
  "chunks_open C u salt cs ps \<longleftrightarrow> list_all2 (\<lambda>c p. cc_decrypt_chunk C u salt c = Some p) cs ps"

definition decrypt_contract :: "('u, 'm) crates \<Rightarrow> bool" where
  "decrypt_contract K \<longleftrightarrow>
     (\<forall>C u salt ct proof root lens pt.
        pv_verify_and_decrypt K C u salt ct proof root lens = Inr pt \<longrightarrow>
        (\<exists>cs ps. concat cs = ct \<and> map length cs = (if lens = [] then [length ct] else map unat lens) \<and>
                 chunks_open C u salt cs ps \<and> pt = concat ps))"

text \<open>Base64 and the artifact envelope read back what they wrote.\<close>

definition b64_roundtrip :: "('u, 'm) crates \<Rightarrow> bool" where
  "b64_roundtrip K \<longleftrightarrow>
     (\<forall>b. b64_decode K (str_bytes (b64_encode K b)) = Some b \<and> trim (b64_encode K b) = b64_encode K b)"

definition envelope_roundtrip :: "('u, 'm) crates \<Rightarrow> bool" where
  "envelope_roundtrip K \<longleftrightarrow>
     (\<forall>a. \<exists>b. sj_artifacts_to_vec K a = Some b \<and> sj_artifacts_from_slice K b = Some a)"

text \<open>A SHA-256 digest in hex: 64 lower-case hex digits.\<close>

definition is_hex_digit :: "char \<Rightarrow> bool" where
  "is_hex_digit c \<longleftrightarrow> c \<in> set ''0123456789abcdef''"

definition sha256_hex_format :: "('u, 'm) crates \<Rightarrow> bool" where
  "sha256_hex_format K \<longleftrightarrow>
     (\<forall>b. length (dc_sha256_hex K b) = 64 \<and> list_all is_hex_digit (dc_sha256_hex K b))"

text \<open>
  A file system that does what it is told: reading a path after a history yields what the last
  write to the path left, unless a removal came later.
\<close>

fun file_event :: "(string \<rightharpoonup> bytes) \<Rightarrow> event \<Rightarrow> (string \<rightharpoonup> bytes)" where
  "file_event m (FsWrite p b) = m(p \<mapsto> b)"
| "file_event m (FsRemove p) = m(p := None)"
| "file_event m _ = m"

definition files_after :: "history \<Rightarrow> (string \<rightharpoonup> bytes)" where
  "files_after h = foldl file_event Map.empty h"

definition honest_fs :: "host \<Rightarrow> bool" where
  "honest_fs H \<longleftrightarrow> (\<forall>h p. fs_read H h p = files_after h p)"

definition honest_node_fs :: "node_fs \<Rightarrow> bool" where
  "honest_node_fs f \<longleftrightarrow> (\<forall>h p. read_file_sync f h p = map_option JsUint8Array (files_after h p))"

lemma files_after_snoc [simp]: "files_after (h @ [e]) = file_event (files_after h) e"
  by (simp add: files_after_def)

lemma foldl_file_event_frame:
  assumes "list_all (\<lambda>e. \<not> (\<exists>b. e = FsWrite p b) \<and> e \<noteq> FsRemove p) es"
  shows "foldl file_event m es p = m p"
  using assms
proof (induction es arbitrary: m)
  case Nil
  then show ?case by simp
next
  case (Cons e es)
  then show ?case by (cases e) auto
qed

lemma files_after_grows:
  assumes "grows Q h h'" and "\<And>e. Q e \<Longrightarrow> \<not> (\<exists>b. e = FsWrite p b) \<and> e \<noteq> FsRemove p"
  shows "files_after h' p = files_after h p"
proof -
  from assms obtain es where "h' = h @ es"
    and "list_all (\<lambda>e. \<not> (\<exists>b. e = FsWrite p b) \<and> e \<noteq> FsRemove p) es"
    by (auto simp: grows_def list_all_iff)
  then show ?thesis by (simp add: files_after_def foldl_file_event_frame)
qed

end
