(* ===== verification/Urn_Model.thy ===== *)
theory Urn_Model
  imports External
begin

text \<open>
  \<open>src/src/urn.rs\<close>: the parsed URN and its accessors, over the parser and the key derivation of
  \<open>dig_urn_protocol\<close>, which are parameters.
\<close>

record 'u parsed_urn =
  urn :: 'u
  salt :: "string option"

definition parse_urn :: "('u, 'm) crates \<Rightarrow> string \<Rightarrow> resolve_error + 'u parsed_urn" where
  "parse_urn K input =
     (case du_parse_with_salt K input of
        Inl e \<Rightarrow> Inl (Parse e)
      | Inr (u, s) \<Rightarrow> Inr \<lparr>urn = u, salt = s\<rparr>)"

definition store_id_hex :: "('u, 'm) crates \<Rightarrow> 'u parsed_urn \<Rightarrow> string" where
  "store_id_hex K p = du_store_id_hex K (urn p)"

definition root_hex :: "('u, 'm) crates \<Rightarrow> 'u parsed_urn \<Rightarrow> string option" where
  "root_hex K p = du_root_hex K (urn p)"

definition resource_key :: "('u, 'm) crates \<Rightarrow> 'u parsed_urn \<Rightarrow> string" where
  "resource_key K p = du_effective_resource_key K (urn p)"

definition retrieval_key_hex :: "('u, 'm) crates \<Rightarrow> 'u parsed_urn \<Rightarrow> string" where
  "retrieval_key_hex K p = du_content_key_hex K (urn p)"

lemma parse_urn_error: "parse_urn K s = Inl e \<Longrightarrow> \<exists>m. e = Parse m"
  by (auto simp: parse_urn_def split: sum.splits)

end
