(* ===== verification/Crypto_Model.thy ===== *)
theory Crypto_Model
  imports Urn_Model
begin

text \<open>
  \<open>src/src/crypto.rs\<close>: the adapter between the resolver and the verification contract of
  \<open>dig_urn_protocol\<close>.  It supplies the \<open>digstore_core\<close> primitives, decodes the wire forms (hex
  salt, hex root, base64 proof) in the order the code decodes them, and maps the errors.  The
  lemmas say what an accepted ciphertext has been checked against and which errors can come out.
\<close>

section \<open>The injected primitives\<close>

definition digstore_crypto :: "('u, 'm) crates \<Rightarrow> 'u content_crypto" where
  "digstore_crypto K =
     \<lparr>cc_decode_and_fold =
        (\<lambda>proof. case mp_from_bytes K proof of
           None \<Rightarrow> None
         | Some m \<Rightarrow> if \<not> mp_verify K m then None
                     else Some \<lparr>fp_leaf = mp_leaf K m, fp_root = mp_root K m\<rparr>),
      cc_decrypt_chunk =
        (\<lambda>u s chunk.
           let canonical = du_canonical K (du_canonical_rootless K u);
               key = dc_derive_decryption_key K canonical s
           in dc_decrypt_chunk K key chunk)\<rparr>"

section \<open>Decoding the wire forms\<close>

definition parse_salt :: "('u, 'm) crates \<Rightarrow> string option \<Rightarrow> resolve_error + bytes option" where
  "parse_salt K salt_hex =
     (case salt_hex of
        None \<Rightarrow> Inr None
      | Some s \<Rightarrow>
          if trim s = [] then Inr None
          else (case du_salt_bytes K s of
                  Some b \<Rightarrow> Inr (Some b)
                | None \<Rightarrow> Inl (Parse ''secret salt must be 64 hex chars'')))"

definition parse_trusted_root :: "('u, 'm) crates \<Rightarrow> string \<Rightarrow> resolve_error + bytes" where
  "parse_trusted_root K trusted_root_hex =
     (case b32_from_hex K (trim trusted_root_hex) of
        Some b \<Rightarrow> Inr b
      | None \<Rightarrow> Inl (VerifyFailed ''trusted root must be 64 hex chars''))"

definition decode_proof_b64 :: "('u, 'm) crates \<Rightarrow> string \<Rightarrow> resolve_error + bytes" where
  "decode_proof_b64 K proof_b64 =
     (case b64_decode K (str_bytes (trim proof_b64)) of
        Some b \<Rightarrow> Inr b
      | None \<Rightarrow> Inl (VerifyFailed ''inclusion proof is not valid base64''))"

fun map_err :: "protocol_error \<Rightarrow> resolve_error" where
  "map_err (P_Parse m) = Parse m"
| "map_err (P_Transport m) = Transport m"
| "map_err (P_Rpc m) = Rpc m"
| "map_err P_NotFound = NotFound"
| "map_err P_RootRequired = RootRequired"
| "map_err (P_VerifyFailed m) = VerifyFailed m"
| "map_err P_DecryptFailed = DecryptFailed"

definition map_result :: "protocol_error + 'a \<Rightarrow> resolve_error + 'a" where
  "map_result r = (case r of Inl e \<Rightarrow> Inl (map_err e) | Inr x \<Rightarrow> Inr x)"

section \<open>The three entry points\<close>

definition verify_inclusion ::
    "('u, 'm) crates \<Rightarrow> bytes \<Rightarrow> string \<Rightarrow> string \<Rightarrow> resolve_error + unit" where
  "verify_inclusion K ciphertext proof_b64 trusted_root_hex =
     (case parse_trusted_root K trusted_root_hex of
        Inl e \<Rightarrow> Inl e
      | Inr root \<Rightarrow>
         (case decode_proof_b64 K proof_b64 of
            Inl e \<Rightarrow> Inl e
          | Inr proof \<Rightarrow> map_result (pv_verify_inclusion K (digstore_crypto K) ciphertext proof root)))"

definition decrypt ::
    "('u, 'm) crates \<Rightarrow> 'u parsed_urn \<Rightarrow> bytes \<Rightarrow> u32 list \<Rightarrow> resolve_error + bytes" where
  "decrypt K parsed ciphertext chunk_lens =
     (case parse_salt K (salt parsed) of
        Inl e \<Rightarrow> Inl e
      | Inr s \<Rightarrow> map_result (pv_decrypt K (digstore_crypto K) (urn parsed) s ciphertext chunk_lens))"

definition verify_and_decrypt ::
    "('u, 'm) crates \<Rightarrow> 'u parsed_urn \<Rightarrow> bytes \<Rightarrow> string \<Rightarrow> string \<Rightarrow> u32 list
      \<Rightarrow> resolve_error + bytes" where
  "verify_and_decrypt K parsed ciphertext proof_b64 trusted_root_hex chunk_lens =
     (case parse_salt K (salt parsed) of
        Inl e \<Rightarrow> Inl e
      | Inr s \<Rightarrow>
         (case parse_trusted_root K trusted_root_hex of
            Inl e \<Rightarrow> Inl e
          | Inr root \<Rightarrow>
             (case decode_proof_b64 K proof_b64 of
                Inl e \<Rightarrow> Inl e
              | Inr proof \<Rightarrow>
                  map_result (pv_verify_and_decrypt K (digstore_crypto K) (urn parsed) s
                    ciphertext proof root chunk_lens))))"

section \<open>What acceptance means\<close>

lemmas crypto_defs = verify_and_decrypt_def parse_salt_def parse_trusted_root_def
  decode_proof_b64_def map_result_def

lemma verify_and_decrypt_InrD:
  assumes "verify_and_decrypt K parsed ct proof_b64 root_hx lens = Inr pt"
  obtains s root wire where "parse_salt K (salt parsed) = Inr s"
    and "b32_from_hex K (trim root_hx) = Some root"
    and "b64_decode K (str_bytes (trim proof_b64)) = Some wire"
    and "pv_verify_and_decrypt K (digstore_crypto K) (urn parsed) s ct wire root lens = Inr pt"
  using assms
  by (auto simp: verify_and_decrypt_def parse_trusted_root_def decode_proof_b64_def map_result_def
      split: sum.splits option.splits)

lemma digstore_fold_Some:
  "cc_decode_and_fold (digstore_crypto K) wire = Some f \<longleftrightarrow>
     (\<exists>m. mp_from_bytes K wire = Some m \<and> mp_verify K m \<and>
          f = \<lparr>fp_leaf = mp_leaf K m, fp_root = mp_root K m\<rparr>)"
  by (auto simp: digstore_crypto_def split: option.splits if_splits)

text \<open>
  \<open>included_under K ct proof_b64 root_hx\<close>: the base64 text decodes to a merkle proof whose path
  folds, whose leaf is the hash of the ciphertext and whose root is the root named in hex.
\<close>

definition included_under :: "('u, 'm) crates \<Rightarrow> bytes \<Rightarrow> string \<Rightarrow> string \<Rightarrow> bool" where
  "included_under K ct proof_b64 root_hx \<longleftrightarrow>
     (\<exists>wire m. b64_decode K (str_bytes (trim proof_b64)) = Some wire \<and>
        mp_from_bytes K wire = Some m \<and> mp_verify K m \<and>
        mp_leaf K m = dc_resource_leaf K ct \<and>
        b32_from_hex K (trim root_hx) = Some (mp_root K m))"

text \<open>The key of a URN: derived from its rootless canonical form and the decoded salt.\<close>

definition urn_key :: "('u, 'm) crates \<Rightarrow> 'u parsed_urn \<Rightarrow> bytes option \<Rightarrow> bytes" where
  "urn_key K parsed s =
     dc_derive_decryption_key K (du_canonical K (du_canonical_rootless K (urn parsed))) s"

definition opens_as :: "('u, 'm) crates \<Rightarrow> 'u parsed_urn \<Rightarrow> bytes \<Rightarrow> bytes \<Rightarrow> bool" where
  "opens_as K parsed ct pt \<longleftrightarrow>
     (\<exists>s cs ps. parse_salt K (salt parsed) = Inr s \<and> concat cs = ct \<and> concat ps = pt \<and>
        list_all2 (\<lambda>c p. dc_decrypt_chunk K (urn_key K parsed s) c = Some p) cs ps)"

lemma verify_and_decrypt_included:
  assumes gate: "gate_contract K"
    and ok: "verify_and_decrypt K parsed ct proof_b64 root_hx lens = Inr pt"
  shows "included_under K ct proof_b64 root_hx"
proof -
  from ok obtain s root wire
    where root: "b32_from_hex K (trim root_hx) = Some root"
      and wire: "b64_decode K (str_bytes (trim proof_b64)) = Some wire"
      and pv: "pv_verify_and_decrypt K (digstore_crypto K) (urn parsed) s ct wire root lens = Inr pt"
    by (rule verify_and_decrypt_InrD)
  from gate pv obtain f where "cc_decode_and_fold (digstore_crypto K) wire = Some f"
    and "fp_leaf f = dc_resource_leaf K ct" and "fp_root f = root"
    unfolding gate_contract_def by blast
  with root wire show ?thesis
    by (auto simp: digstore_fold_Some included_under_def)
qed

lemma verify_and_decrypt_opens:
  assumes dec: "decrypt_contract K"
    and ok: "verify_and_decrypt K parsed ct proof_b64 root_hx lens = Inr pt"
  shows "opens_as K parsed ct pt"
proof -
  from ok obtain s root wire
    where s: "parse_salt K (salt parsed) = Inr s"
      and pv: "pv_verify_and_decrypt K (digstore_crypto K) (urn parsed) s ct wire root lens = Inr pt"
    by (rule verify_and_decrypt_InrD)
  from dec pv obtain cs ps where "concat cs = ct" and "pt = concat ps"
    and "chunks_open (digstore_crypto K) (urn parsed) s cs ps"
    unfolding decrypt_contract_def by blast
  with s show ?thesis
    by (auto simp: opens_as_def chunks_open_def digstore_crypto_def urn_key_def Let_def)
qed

section \<open>Parse extracts, derive validates\<close>

definition bad_salt :: "('u, 'm) crates \<Rightarrow> 'u parsed_urn \<Rightarrow> bool" where
  "bad_salt K parsed \<longleftrightarrow> (\<exists>s. salt parsed = Some s \<and> trim s \<noteq> [] \<and> du_salt_bytes K s = None)"

lemma parse_salt_bad:
  "bad_salt K parsed \<Longrightarrow> parse_salt K (salt parsed) = Inl (Parse ''secret salt must be 64 hex chars'')"
  by (auto simp: bad_salt_def parse_salt_def)

lemma parse_salt_good: "\<not> bad_salt K parsed \<Longrightarrow> \<exists>s. parse_salt K (salt parsed) = Inr s"
  by (auto simp: bad_salt_def parse_salt_def split: option.splits)

lemma verify_and_decrypt_bad_root:
  assumes "\<not> bad_salt K parsed" and "b32_from_hex K (trim root_hx) = None"
  shows "verify_and_decrypt K parsed ct proof_b64 root_hx lens
           = Inl (VerifyFailed ''trusted root must be 64 hex chars'')"
  using parse_salt_good [OF assms(1)] assms(2)
  by (auto simp: verify_and_decrypt_def parse_trusted_root_def)

end
