(* ===== verification/Tier.thy ===== *)
theory Tier
  imports MemoryCache ContentType Crypto_Model
begin

text \<open>
  The internal result of one endpoint fetch (\<open>Fetched\<close> of \<open>src/src/resolver.rs\<close>) and the contract
  the resolver relies on, whichever tier answers: which requests a fetch makes, what justifies
  the bytes of a successful one, and that a pinned root is never replaced.  The clients' lemmas
  are proved here once; the node tier and the gateway tier interpret the locale.
\<close>

section \<open>The result of a fetch\<close>

record fetched =
  f_data :: resolved_data
  f_root :: "string option"
  f_artifacts :: "disk_artifacts option"

definition resolved_data_new :: "bytes \<Rightarrow> string \<Rightarrow> resolved_data" where
  "resolved_data_new b ct = \<lparr>rd_bytes = b, rd_content_type = ct\<rparr>"

lemma resolved_data_new_sel [simp]:
  "rd_bytes (resolved_data_new b ct) = b" "rd_content_type (resolved_data_new b ct) = ct"
  by (simp_all add: resolved_data_new_def)

section \<open>What justifies the bytes\<close>

text \<open>The bytes are what the gate released for artifacts that go with them, under the root that goes with them.\<close>

definition verified_as :: "('u, 'm) crates \<Rightarrow> 'u parsed_urn \<Rightarrow> string \<Rightarrow> disk_artifacts \<Rightarrow> resolved_data \<Rightarrow> bool" where
  "verified_as K p root a d \<longleftrightarrow>
     verify_and_decrypt K p (da_ciphertext a) (da_proof_b64 a) root (da_chunk_lens a) = Inr (rd_bytes d) \<and>
     rd_content_type d = derive (resource_key K p) (rd_bytes d)"

definition verified_fetch :: "('u, 'm) crates \<Rightarrow> 'u parsed_urn \<Rightarrow> fetched \<Rightarrow> bool" where
  "verified_fetch K p f \<longleftrightarrow>
     (\<exists>root a. f_root f = Some root \<and> f_artifacts f = Some a \<and> verified_as K p root a (f_data f))"

text \<open>What the gate's contract makes of it: a ciphertext included under the root, opening to the bytes.\<close>

definition authentic :: "('u, 'm) crates \<Rightarrow> 'u parsed_urn \<Rightarrow> string \<Rightarrow> bytes \<Rightarrow> bool" where
  "authentic K p root b \<longleftrightarrow> (\<exists>ct wire. included_under K ct wire root \<and> opens_as K p ct b)"

lemma verified_as_authentic:
  assumes "gate_contract K" and "decrypt_contract K" and "verified_as K p root a d"
  shows "authentic K p root (rd_bytes d)"
  using verify_and_decrypt_included [OF assms(1)] verify_and_decrypt_opens [OF assms(2)] assms(3)
  unfolding authentic_def verified_as_def by blast

section \<open>The contract of a tier\<close>

locale tier_fetch =
  fixes fetch :: "('u, 'm) crates \<Rightarrow> host \<Rightarrow> string \<Rightarrow> 'u parsed_urn \<Rightarrow> history
      \<Rightarrow> (resolve_error + fetched) \<times> history"
    and request :: "('u, 'm) crates \<Rightarrow> string \<Rightarrow> 'u parsed_urn \<Rightarrow> event \<Rightarrow> bool"
    and attested :: "('u, 'm) crates \<Rightarrow> host \<Rightarrow> string \<Rightarrow> 'u parsed_urn \<Rightarrow> history \<Rightarrow> fetched \<Rightarrow> bool"
  assumes requests_only: "request K b p e \<Longrightarrow> is_http e"
    and fetch_events: "fetch K H b p h = (r, h') \<Longrightarrow> grows (request K b p) h h'"
    and fetch_sound: "fetch K H b p h = (Inr f, h') \<Longrightarrow>
          verified_fetch K p f \<or> (attested K H b p h f \<and> f_artifacts f = None)"
    and fetch_root: "fetch K H b p h = (Inr f, h') \<Longrightarrow> root_hex K p = Some root \<Longrightarrow> f_root f = Some root"
begin

text \<open>A fetch writes no file.\<close>

lemma fetch_no_write: "fetch K H b p h = (r, h') \<Longrightarrow> grows (\<lambda>e. \<not> is_write e) h h'"
  by (rule grows_mono [OF fetch_events], assumption)
    (metis requests_only is_http.simps(3-6) is_write.elims(2))

lemma fetch_http: "fetch K H b p h = (r, h') \<Longrightarrow> grows is_http h h'"
  by (rule grows_mono [OF fetch_events], assumption) (rule requests_only)

text \<open>Artifacts handed to the disk cache pass the gate again, under the same root.\<close>

lemma artifacts_verified:
  assumes "fetch K H b p h = (Inr f, h')" and "f_artifacts f = Some a"
  shows "\<exists>root. f_root f = Some root \<and> verified_as K p root a (f_data f)"
  using fetch_sound [OF assms(1)] assms(2) by (auto simp: verified_fetch_def)

lemma pinned_authentic:
  assumes "gate_contract K" and "decrypt_contract K"
    and "fetch K H b p h = (Inr f, h')" and "root_hex K p = Some root"
  shows "authentic K p root (rd_bytes (f_data f)) \<or> attested K H b p h f"
  using fetch_sound [OF assms(3)] fetch_root [OF assms(3,4)] verified_as_authentic [OF assms(1,2)]
  by (auto simp: verified_fetch_def)

end

end
