(* ===== verification/IpParse.thy ===== *)
theory IpParse
  imports External
begin

text \<open>
  The part of \<open>std::net\<close> that \<open>is_loopback_host\<close> uses: \<open>str::parse::<IpAddr>\<close>, the recursive
  descent parser of the standard library (strict dotted decimal without leading zeros; V6 groups
  with one \<open>::\<close> and an embedded V4 tail), and \<open>IpAddr::is_loopback\<close>.  The lemmas say which
  characters an address can be written with and that printed V4 addresses parse back.
\<close>

section \<open>Numbers and separators\<close>

fun read_digits :: "nat \<Rightarrow> nat \<Rightarrow> nat \<Rightarrow> nat \<Rightarrow> string \<Rightarrow> (nat \<times> nat \<times> string) option" where
  "read_digits radix maxd acc n [] = Some (acc, n, [])"
| "read_digits radix maxd acc n (c # cs) =
     (case to_digit radix c of
        None \<Rightarrow> Some (acc, n, c # cs)
      | Some d \<Rightarrow> if maxd < n + 1 then None else read_digits radix maxd (acc * radix + d) (n + 1) cs)"

definition read_number :: "nat \<Rightarrow> nat \<Rightarrow> bool \<Rightarrow> nat \<Rightarrow> string \<Rightarrow> (nat \<times> string) option" where
  "read_number radix maxd allow_zero_prefix limit s =
     (case read_digits radix maxd 0 0 s of
        None \<Rightarrow> None
      | Some (v, n, rest) \<Rightarrow>
          if n = 0 then None
          else if \<not> allow_zero_prefix \<and> take 1 s = ''0'' \<and> 1 < n then None
          else if v < limit then Some (v, rest) else None)"

definition read_given_char :: "char \<Rightarrow> string \<Rightarrow> string option" where
  "read_given_char c s = (case s of [] \<Rightarrow> None | x # xs \<Rightarrow> if x = c then Some xs else None)"

definition read_separator :: "char \<Rightarrow> nat \<Rightarrow> string \<Rightarrow> string option" where
  "read_separator c i s = (if i = 0 then Some s else read_given_char c s)"

section \<open>V4 and V6 addresses\<close>

definition read_octet :: "nat \<Rightarrow> string \<Rightarrow> (nat \<times> string) option" where
  "read_octet i s =
     (case read_separator CHR ''.'' i s of None \<Rightarrow> None | Some t \<Rightarrow> read_number 10 3 False 256 t)"

fun read_octets :: "nat \<Rightarrow> nat \<Rightarrow> string \<Rightarrow> (nat list \<times> string) option" where
  "read_octets 0 i s = Some ([], s)"
| "read_octets (Suc n) i s =
     (case read_octet i s of
        None \<Rightarrow> None
      | Some (v, t) \<Rightarrow>
         (case read_octets n (i + 1) t of None \<Rightarrow> None | Some (vs, u) \<Rightarrow> Some (v # vs, u)))"

definition read_v4 :: "string \<Rightarrow> (nat list \<times> string) option" where
  "read_v4 s = read_octets 4 0 s"

fun v4_groups :: "nat list \<Rightarrow> u16 list" where
  "v4_groups [a, b, c, d] = [word_of_nat (256 * a + b), word_of_nat (256 * c + d)]"
| "v4_groups _ = []"

text \<open>
  \<open>read_groups n i s\<close>: the loop over the slots \<open>i, i + 1, \<dots>\<close> with \<open>n\<close> slots left; the
  flag says whether it ended in an embedded V4 address, which needs two slots.
\<close>

fun read_groups :: "nat \<Rightarrow> nat \<Rightarrow> string \<Rightarrow> u16 list \<times> bool \<times> string" where
  "read_groups 0 i s = ([], False, s)"
| "read_groups (Suc n) i s =
     (case (if n = 0 then None
            else case read_separator CHR '':'' i s of None \<Rightarrow> None | Some t \<Rightarrow> read_v4 t) of
        Some (os, u) \<Rightarrow> (v4_groups os, True, u)
      | None \<Rightarrow>
         (case (case read_separator CHR '':'' i s of
                  None \<Rightarrow> None | Some t \<Rightarrow> read_number 16 4 True 65536 t) of
            None \<Rightarrow> ([], False, s)
          | Some (g, u) \<Rightarrow>
             (let (gs, v4, w) = read_groups n (i + 1) u in (word_of_nat g # gs, v4, w))))"

definition read_v6 :: "string \<Rightarrow> (u16 list \<times> string) option" where
  "read_v6 s =
     (let (hd_gs, hd_v4, t) = read_groups 8 0 s
      in if length hd_gs = 8 then Some (hd_gs, t)
         else if hd_v4 then None
         else (case read_given_char CHR '':'' t of
                 None \<Rightarrow> None
               | Some u \<Rightarrow>
                  (case read_given_char CHR '':'' u of
                     None \<Rightarrow> None
                   | Some v \<Rightarrow>
                      (let (tl_gs, tl_v4, w) = read_groups (8 - (length hd_gs + 1)) 0 v
                       in Some (hd_gs @ replicate (8 - length hd_gs - length tl_gs) 0 @ tl_gs, w)))))"

fun v4_of :: "nat list \<Rightarrow> ip_addr" where
  "v4_of [a, b, c, d] = V4 (word_of_nat a) (word_of_nat b) (word_of_nat c) (word_of_nat d)"
| "v4_of _ = V4 0 0 0 0"

definition read_ip :: "string \<Rightarrow> (ip_addr \<times> string) option" where
  "read_ip s =
     (case read_v4 s of
        Some (os, t) \<Rightarrow> Some (v4_of os, t)
      | None \<Rightarrow> (case read_v6 s of Some (gs, t) \<Rightarrow> Some (V6 gs, t) | None \<Rightarrow> None))"

definition parse_ip :: "string \<Rightarrow> ip_addr option" where
  "parse_ip s = (case read_ip s of Some (a, []) \<Rightarrow> Some a | _ \<Rightarrow> None)"

fun ip_is_loopback :: "ip_addr \<Rightarrow> bool" where
  "ip_is_loopback (V4 a b c d) \<longleftrightarrow> a = 127"
| "ip_is_loopback (V6 gs) \<longleftrightarrow> gs = [0, 0, 0, 0, 0, 0, 0, 1]"

section \<open>The characters of an address\<close>

definition ip_chars :: "char set" where
  "ip_chars = set ''0123456789abcdefABCDEF.:''"

text \<open>A reader consumes a prefix written in those characters.\<close>

definition consumes :: "string \<Rightarrow> string \<Rightarrow> bool" where
  "consumes s rest \<longleftrightarrow> (\<exists>u. s = u @ rest \<and> set u \<subseteq> ip_chars)"

lemma consumes_refl [simp]: "consumes s s"
  by (auto simp: consumes_def)

lemma consumes_trans: "consumes s t \<Longrightarrow> consumes t u \<Longrightarrow> consumes s u"
  by (fastforce simp: consumes_def)

lemma consumes_Cons: "c \<in> ip_chars \<Longrightarrow> consumes cs rest \<Longrightarrow> consumes (c # cs) rest"
  unfolding consumes_def by (metis append_Cons insert_subset list.simps(15))

lemma hex_char_codes:
  "map char_of [48, 49, 50, 51, 52, 53, 54, 55, 56, 57, 97, 98, 99, 100, 101, 102,
     65, 66, 67, 68, 69, 70 :: nat] = ''0123456789abcdefABCDEF''"
  by code_simp

lemma to_digit_ip_chars:
  assumes "to_digit radix c = Some d" and "radix \<le> 16"
  shows "c \<in> ip_chars"
proof -
  let ?codes = "[48, 49, 50, 51, 52, 53, 54, 55, 56, 57, 97, 98, 99, 100, 101, 102,
     65, 66, 67, 68, 69, 70 :: nat]"
  from assms have "(of_char c :: nat) \<in> {48..57} \<union> {97..102} \<union> {65..70}"
    by (auto simp: to_digit_def Let_def split: if_splits)
  also have "\<dots> = set ?codes" by (simp add: atLeastAtMost_upt upt_rec set_eq_iff; presburger)
  finally have "char_of (of_char c :: nat) \<in> set (map char_of ?codes)"
    unfolding set_map by (rule imageI)
  then have "c \<in> set ''0123456789abcdefABCDEF''"
    unfolding hex_char_codes by simp
  then show ?thesis by (auto simp: ip_chars_def)
qed

lemma read_digits_consumes:
  "read_digits radix maxd acc n s = Some (v, k, rest) \<Longrightarrow> radix \<le> 16 \<Longrightarrow> consumes s rest"
  by (induction s arbitrary: acc n)
    (auto split: option.splits if_splits intro: consumes_Cons to_digit_ip_chars)

lemma read_number_consumes:
  "read_number radix maxd z limit s = Some (v, rest) \<Longrightarrow> radix \<le> 16 \<Longrightarrow> consumes s rest"
  by (auto simp: read_number_def split: option.splits if_splits dest: read_digits_consumes)

lemma read_given_char_consumes:
  "read_given_char c s = Some t \<Longrightarrow> c \<in> ip_chars \<Longrightarrow> consumes s t"
  by (auto simp: read_given_char_def split: list.splits if_splits intro: consumes_Cons)

lemma read_separator_consumes:
  "read_separator c i s = Some t \<Longrightarrow> c \<in> ip_chars \<Longrightarrow> consumes s t"
  by (auto simp: read_separator_def split: if_splits dest: read_given_char_consumes)

lemma sep_ip_chars [simp]: "CHR ''.'' \<in> ip_chars" "CHR '':'' \<in> ip_chars"
  by (simp_all add: ip_chars_def)

lemma read_octet_consumes: "read_octet i s = Some (v, t) \<Longrightarrow> consumes s t"
  by (auto simp: read_octet_def split: option.splits
      dest!: read_separator_consumes read_number_consumes intro: consumes_trans)

lemma read_octets_consumes: "read_octets n i s = Some (vs, t) \<Longrightarrow> consumes s t"
proof (induction n arbitrary: i s vs t)
  case 0
  then show ?case by simp
next
  case (Suc n)
  then obtain v u ws where "read_octet i s = Some (v, u)" and "read_octets n (Suc i) u = Some (ws, t)"
    by (auto split: option.splits)
  then show ?case by (metis Suc.IH read_octet_consumes consumes_trans)
qed

lemma read_v4_consumes: "read_v4 s = Some (os, t) \<Longrightarrow> consumes s t"
  by (auto simp: read_v4_def dest: read_octets_consumes)

lemma read_groups_consumes: "read_groups n i s = (gs, v4, t) \<Longrightarrow> consumes s t"
proof (induction n i s arbitrary: gs v4 t rule: read_groups.induct)
  case (1 i s)
  then show ?case by simp
next
  case (2 n i s)
  then show ?case
    by (auto split: option.splits if_splits prod.splits
        dest!: read_separator_consumes read_v4_consumes read_number_consumes
        intro: consumes_trans)
qed

lemma read_v6_consumes: "read_v6 s = Some (gs, t) \<Longrightarrow> consumes s t"
  by (auto simp: read_v6_def Let_def split: prod.splits if_splits option.splits
      dest!: read_groups_consumes read_given_char_consumes intro: consumes_trans)

lemma parse_ip_chars: "parse_ip s = Some a \<Longrightarrow> set s \<subseteq> ip_chars"
  by (auto simp: parse_ip_def read_ip_def consumes_def split: option.splits list.splits
      dest!: read_v4_consumes read_v6_consumes)

section \<open>Printed V4 addresses\<close>

fun show_v4 :: "ip_addr \<Rightarrow> string" where
  "show_v4 (V4 a b c d) =
     join ''.'' [show_dec (unat a), show_dec (unat b), show_dec (unat c), show_dec (unat d)]"
| "show_v4 (V6 gs) = []"

lemma show_dec_small:
  "n < 10 \<Longrightarrow> show_dec n = [digit_char n]"
  "10 \<le> n \<Longrightarrow> n < 100 \<Longrightarrow> show_dec n = [digit_char (n div 10), digit_char (n mod 10)]"
  "100 \<le> n \<Longrightarrow> n < 1000 \<Longrightarrow>
     show_dec n = [digit_char (n div 100), digit_char (n div 10 mod 10), digit_char (n mod 10)]"
proof -
  show one: "show_dec n = [digit_char n]" if "n < 10" for n
    using that by (subst show_dec.simps) simp
  show two: "show_dec n = [digit_char (n div 10), digit_char (n mod 10)]" if "10 \<le> n" "n < 100" for n
  proof -
    from that have "n div 10 < 10" by simp
    with that show ?thesis by (subst show_dec.simps) (simp add: one)
  qed
  show "show_dec n = [digit_char (n div 100), digit_char (n div 10 mod 10), digit_char (n mod 10)]"
    if "100 \<le> n" "n < 1000" for n
  proof -
    from that have "10 \<le> n div 10" and "n div 10 < 100" by simp_all
    with that show ?thesis by (subst show_dec.simps) (simp add: two div_mult2_eq [symmetric])
  qed
qed

lemma digit_char_not_zero: "0 < d \<Longrightarrow> d < 10 \<Longrightarrow> digit_char d \<noteq> CHR ''0''"
proof
  assume d: "0 < d" "d < 10" and "digit_char d = CHR ''0''"
  then have "to_digit 10 (digit_char d) = to_digit 10 CHR ''0''" by simp
  with d show False by (simp add: to_digit_def [of _ "CHR ''0''"])
qed

definition ends_number :: "string \<Rightarrow> bool" where
  "ends_number rest \<longleftrightarrow> (case rest of [] \<Rightarrow> True | c # cs \<Rightarrow> to_digit 10 c = None)"

lemma read_digits_stop [simp]:
  "ends_number rest \<Longrightarrow> read_digits 10 3 acc n rest = Some (acc, n, rest)"
  by (auto simp: ends_number_def split: list.splits)

lemma read_number_digits:
  assumes "x < 10" "y < 10" "z < 10" and rest: "ends_number rest"
  shows "read_number 10 3 False 256 (digit_char x # rest) = Some (x, rest)"
    and "0 < x \<Longrightarrow> read_number 10 3 False 256 (digit_char x # digit_char y # rest)
           = Some (10 * x + y, rest)"
    and "0 < x \<Longrightarrow> 100 * x + 10 * y + z < 256 \<Longrightarrow>
         read_number 10 3 False 256 (digit_char x # digit_char y # digit_char z # rest)
           = Some (100 * x + 10 * y + z, rest)"
  using assms by (simp_all add: read_number_def digit_char_not_zero algebra_simps)

lemma read_number_show_dec:
  assumes "n < 256" and rest: "ends_number rest"
  shows "read_number 10 3 False 256 (show_dec n @ rest) = Some (n, rest)"
proof -
  consider "n < 10" | "10 \<le> n" "n < 100" | "100 \<le> n" "n < 1000" using assms by linarith
  then show ?thesis
  proof cases
    case 1
    with rest show ?thesis by (simp add: show_dec_small read_number_digits(1))
  next
    case 2
    then have "0 < n div 10" "n div 10 < 10" by simp_all
    with 2 rest read_number_digits(2) [of "n div 10" "n mod 10" 0 rest] show ?thesis
      by (simp add: show_dec_small)
  next
    case 3
    let ?x = "n div 100" and ?y = "n div 10 mod 10" and ?z = "n mod 10"
    from 3 have d: "0 < ?x" "?x < 10" "?y < 10" "?z < 10" by simp_all
    have "n div 100 = n div 10 div 10" by (simp add: div_mult2_eq [symmetric])
    then have sum: "100 * ?x + 10 * ?y + ?z = n"
      using div_mult_mod_eq [of n 10] div_mult_mod_eq [of "n div 10" 10] by linarith
    with assms(1) have "100 * ?x + 10 * ?y + ?z < 256" by (simp only:)
    from read_number_digits(3) [OF d(2-4) rest d(1) this]
    show ?thesis unfolding sum show_dec_small(3) [OF 3] by (simp only: append.simps)
  qed
qed

lemma ends_number_simps [simp]: "ends_number []" "ends_number (CHR ''.'' # s)"
  by (simp_all add: ends_number_def to_digit_def)

lemma read_octet_show_dec:
  assumes "n < 256" and "ends_number rest"
  shows "read_octet 0 (show_dec n @ rest) = Some (n, rest)"
    and "read_octet (Suc i) (CHR ''.'' # show_dec n @ rest) = Some (n, rest)"
  using read_number_show_dec [OF assms]
  by (simp_all add: read_octet_def read_separator_def read_given_char_def)

lemma parse_ip_show_v4: "parse_ip (show_v4 (V4 a b c d)) = Some (V4 a b c d)"
proof -
  have small: "unat (w :: u8) < 256" for w using unsigned_less [of w] by simp
  have four: "read_octets 4 = read_octets (Suc (Suc (Suc (Suc 0))))" by (simp add: eval_nat_numeral)
  have "read_v4 (show_v4 (V4 a b c d)) = Some ([unat a, unat b, unat c, unat d], [])"
    using read_octet_show_dec(2) [OF small [of d] ends_number_simps(1)]
    by (simp add: read_v4_def four read_octet_show_dec small)
  then show ?thesis by (simp add: parse_ip_def read_ip_def)
qed

end
