(* ===== verification/Ladder.thy ===== *)
theory Ladder
  imports IpParse
begin

text \<open>
  \<open>src/src/ladder.rs\<close>: which hosts may be trusted as a local node, how a base URL is classified
  and how the ordered plan of tiers is built.  Host names are those of the URL parser the
  transport dials with, a parameter; the lookup of \<open>dig.local\<close> asks the operating system, which
  is a parameter too.  A resolver asks at most once, because it keeps its plan.
\<close>

section \<open>Endpoints\<close>

definition DIG_NODE_PORT :: u16 where
  "DIG_NODE_PORT = 9778"

definition DIG_LOCAL_BASE :: string where
  "DIG_LOCAL_BASE = ''http://dig.local:9778''"

definition LOCALHOST_BASE :: string where
  "LOCALHOST_BASE = ''http://localhost:9778''"

definition RPC_DEFAULT_BASE :: string where
  "RPC_DEFAULT_BASE = ''https://rpc.dig.net''"

text \<open>Both local bases are at the port of the node.\<close>

lemma local_bases_port:
  "DIG_LOCAL_BASE = ''http://dig.local:'' @ show_dec (unat DIG_NODE_PORT)"
  "LOCALHOST_BASE = ''http://localhost:'' @ show_dec (unat DIG_NODE_PORT)"
  using digit_chars
  by (simp_all add: DIG_LOCAL_BASE_def LOCALHOST_BASE_def DIG_NODE_PORT_def show_dec.simps)

datatype endpoint_kind = NodeKind | RpcKind

record endpoint =
  ep_base :: string
  ep_kind :: endpoint_kind

definition endpoint_node :: "string \<Rightarrow> endpoint" where
  "endpoint_node b = \<lparr>ep_base = b, ep_kind = NodeKind\<rparr>"

definition endpoint_rpc :: "string \<Rightarrow> endpoint" where
  "endpoint_rpc b = \<lparr>ep_base = b, ep_kind = RpcKind\<rparr>"

lemmas endpoint_defs = endpoint_node_def endpoint_rpc_def

text \<open>The order of the ladder: node tiers come before gateways.\<close>

instantiation endpoint_kind :: linorder
begin

definition less_eq_endpoint_kind :: "endpoint_kind \<Rightarrow> endpoint_kind \<Rightarrow> bool" where
  "a \<le> b \<longleftrightarrow> a = NodeKind \<or> b = RpcKind"

definition less_endpoint_kind :: "endpoint_kind \<Rightarrow> endpoint_kind \<Rightarrow> bool" where
  "a < b \<longleftrightarrow> a = NodeKind \<and> b = RpcKind"

instance
proof
  fix x y z :: endpoint_kind
  show "x < y \<longleftrightarrow> x \<le> y \<and> \<not> y \<le> x"
    by (cases x; cases y) (simp_all add: less_eq_endpoint_kind_def less_endpoint_kind_def)
  show "x \<le> x" by (cases x) (simp_all add: less_eq_endpoint_kind_def)
  show "x \<le> y \<Longrightarrow> y \<le> z \<Longrightarrow> x \<le> z"
    by (cases x; cases y; cases z) (simp_all add: less_eq_endpoint_kind_def)
  show "x \<le> y \<Longrightarrow> y \<le> x \<Longrightarrow> x = y"
    by (cases x; cases y) (simp_all add: less_eq_endpoint_kind_def)
  show "x \<le> y \<or> y \<le> x"
    by (cases x; cases y) (simp_all add: less_eq_endpoint_kind_def)
qed

end

section \<open>Loopback hosts\<close>

definition parsed_host :: "('u, 'm) crates \<Rightarrow> host \<Rightarrow> string \<Rightarrow> string option" where
  "parsed_host K H base =
     (if feature_native H then
        (case url_parse K base of
           None \<Rightarrow> None
         | Some (scheme, host_str) \<Rightarrow>
             if scheme = ''http'' \<or> scheme = ''https'' then host_str else None)
      else if feature_wasm H then
        (case web_url_new K base of
           None \<Rightarrow> None
         | Some (protocol, hostname) \<Rightarrow>
             if protocol = ''http:'' \<or> protocol = ''https:'' then Some hostname else None)
      else None)"

definition resolves_to_loopback :: "host \<Rightarrow> string \<Rightarrow> bool" where
  "resolves_to_loopback H name =
     (if feature_native H then
        (case lookup_host H name of
           Some addrs \<Rightarrow> addrs \<noteq> [] \<and> list_all ip_is_loopback addrs
         | None \<Rightarrow> False)
      else False)"

definition normal_host :: "string \<Rightarrow> string" where
  "normal_host hst =
     to_ascii_lowercase (trim_end_matches CHR '']'' (trim_start_matches CHR ''['' (trim hst)))"

definition is_loopback_host :: "host \<Rightarrow> string \<Rightarrow> bool" where
  "is_loopback_host H hst =
     (let h = normal_host hst
      in if h = ''localhost'' then True
         else (case parse_ip h of
                 Some ip \<Rightarrow> ip_is_loopback ip
               | None \<Rightarrow> if h = ''dig.local'' then resolves_to_loopback H ''dig.local'' else False))"

definition is_loopback_base :: "('u, 'm) crates \<Rightarrow> host \<Rightarrow> string \<Rightarrow> bool" where
  "is_loopback_base K H base =
     (case parsed_host K H base of Some hst \<Rightarrow> is_loopback_host H hst | None \<Rightarrow> False)"

section \<open>Classification and the plan\<close>

definition classify :: "('u, 'm) crates \<Rightarrow> host \<Rightarrow> string \<Rightarrow> endpoint" where
  "classify K H base =
     (let trimmed = trim_end_matches CHR ''/'' base
      in if is_loopback_base K H trimmed then endpoint_node trimmed else endpoint_rpc trimmed)"

definition health_url :: "string \<Rightarrow> string" where
  "health_url base = base @ ''/health''"

definition health_ok :: "host \<Rightarrow> string \<Rightarrow> history \<Rightarrow> bool \<times> history" where
  "health_ok H base h =
     (case http_get (transport H) (health_url base) h of
        (Inr resp, h') \<Rightarrow> (is_success resp, h')
      | (Inl _, h') \<Rightarrow> (False, h'))"

fun probe_tiers :: "('u, 'm) crates \<Rightarrow> host \<Rightarrow> string list \<Rightarrow> history \<Rightarrow> endpoint list \<times> history" where
  "probe_tiers K H [] h = ([endpoint_rpc RPC_DEFAULT_BASE], h)"
| "probe_tiers K H (tier # tiers) h =
     (if is_loopback_base K H tier then
        (case health_ok H tier h of
           (True, h') \<Rightarrow> ([endpoint_node tier, endpoint_rpc RPC_DEFAULT_BASE], h')
         | (False, h') \<Rightarrow> probe_tiers K H tiers h')
      else probe_tiers K H tiers h)"

definition build_plan ::
    "('u, 'm) crates \<Rightarrow> host \<Rightarrow> string option \<Rightarrow> history \<Rightarrow> endpoint list \<times> history" where
  "build_plan K H override_endpoint h =
     (case override_endpoint of
        Some base \<Rightarrow> ([classify K H base], h)
      | None \<Rightarrow> probe_tiers K H [DIG_LOCAL_BASE, LOCALHOST_BASE] h)"

section \<open>Facts on hosts\<close>

lemma is_loopback_hostD:
  assumes "is_loopback_host H hst"
  shows "normal_host hst = ''localhost''
    \<or> (normal_host hst = ''dig.local'' \<and> resolves_to_loopback H ''dig.local'')
    \<or> (\<exists>ip. parse_ip (normal_host hst) = Some ip \<and> ip_is_loopback ip)"
  using assms by (auto simp: is_loopback_host_def Let_def split: option.splits if_splits)

lemma loopback_V4: "ip_is_loopback (V4 a b c d) \<longleftrightarrow> a = 127"
  by simp

text \<open>A host of plain lower-case bytes without blanks and brackets is its own normal form.\<close>

definition plain_char :: "char \<Rightarrow> bool" where
  "plain_char c \<longleftrightarrow> (let n = (of_char c :: nat) in (45 \<le> n \<and> n \<le> 58) \<or> (97 \<le> n \<and> n \<le> 122))"

definition plain_host :: "string \<Rightarrow> bool" where
  "plain_host s \<longleftrightarrow> list_all plain_char s"

lemma white_space_not_plain:
  "list_all (\<lambda>w. w \<noteq> [] \<and> \<not> plain_char (hd w)) white_space"
  "list_all (\<lambda>w. w \<noteq> [] \<and> \<not> plain_char (hd w)) (map rev white_space)"
  by (simp_all add: white_space_def plain_char_def)

lemma strip_one_plain:
  "list_all (\<lambda>w. w \<noteq> [] \<and> \<not> plain_char (hd w)) ws \<Longrightarrow> s = [] \<or> plain_char (hd s) \<Longrightarrow> strip_one ws s = None"
proof (induction ws)
  case Nil
  then show ?case by simp
next
  case (Cons w ws)
  then have "take (length w) s \<noteq> w" by (cases w; cases s) auto
  with Cons show ?case by simp
qed

text \<open>Trimming leaves alone what starts and ends with a plain character.\<close>

lemma trim_plain_ends:
  "s = [] \<or> (plain_char (hd s) \<and> plain_char (last s)) \<Longrightarrow> trim s = s"
  by (auto simp: trim_def trim_start_def trim_end_def hd_rev
      strip_one_plain [OF white_space_not_plain(1)] strip_one_plain [OF white_space_not_plain(2)])

lemma plain_host_ends: "plain_host s \<Longrightarrow> s = [] \<or> (plain_char (hd s) \<and> plain_char (last s))"
  by (cases s) (auto simp: plain_host_def list_all_iff)

lemma trim_plain: "plain_host s \<Longrightarrow> trim s = s"
  using plain_host_ends trim_plain_ends by blast

lemma plain_lower: "plain_host s \<Longrightarrow> to_ascii_lowercase s = s"
  by (auto simp: to_ascii_lowercase_def plain_host_def list_all_iff plain_char_def ascii_lower_def Let_def
      intro!: map_idI)

lemma plain_rev [simp]: "plain_host (rev s) \<longleftrightarrow> plain_host s"
  by (simp add: plain_host_def)

lemma plain_strip_bracket:
  "plain_host s \<Longrightarrow> dropWhile (\<lambda>x. x = CHR ''['') s = s"
  "plain_host s \<Longrightarrow> dropWhile (\<lambda>x. x = CHR '']'') s = s"
  by (cases s; auto simp: plain_host_def plain_char_def)+

lemma normal_host_plain: "plain_host s \<Longrightarrow> normal_host s = s"
  by (simp add: normal_host_def trim_plain plain_lower trim_start_matches_def trim_end_matches_def
      plain_strip_bracket)

lemma plain_show_dec: "plain_host (show_dec n)"
proof -
  have "list_all plain_char ''0123456789''" by (simp add: plain_char_def)
  then show ?thesis using set_show_dec [of n] by (auto simp: plain_host_def list_all_iff)
qed

lemma plain_show_v4: "plain_host (show_v4 (V4 a b c d))"
  using plain_show_dec by (simp add: plain_host_def) (simp add: plain_char_def)

section \<open>Facts on plans\<close>

lemma health_ok_history: "health_ok H base h = (b, h') \<Longrightarrow> h' = h @ [HttpGet (health_url base)]"
  by (auto simp: health_ok_def http_get_def split: sum.splits)

lemma classify_kind: "ep_kind (classify K H base) = NodeKind \<longleftrightarrow>
    is_loopback_base K H (trim_end_matches CHR ''/'' base)"
  by (simp add: classify_def Let_def endpoint_defs)

lemma classify_base: "ep_base (classify K H base) = trim_end_matches CHR ''/'' base"
  by (simp add: classify_def Let_def endpoint_defs)

definition is_health_probe :: "event \<Rightarrow> bool" where
  "is_health_probe e \<longleftrightarrow> (\<exists>b \<in> {DIG_LOCAL_BASE, LOCALHOST_BASE}. e = HttpGet (health_url b))"

lemma probe_tiers_cases:
  assumes "probe_tiers K H tiers h = (plan, h')"
  shows "plan = [endpoint_rpc RPC_DEFAULT_BASE] \<or>
    (\<exists>t \<in> set tiers. is_loopback_base K H t \<and> plan = [endpoint_node t, endpoint_rpc RPC_DEFAULT_BASE])"
  using assms by (induction tiers arbitrary: h)
    (auto split: if_splits prod.splits bool.splits)

lemma probe_tiers_grows:
  assumes "probe_tiers K H tiers h = (plan, h')"
  shows "grows (\<lambda>e. \<exists>b \<in> set tiers. e = HttpGet (health_url b)) h h'"
  using assms
proof (induction tiers arbitrary: h)
  case Nil
  then show ?case by simp
next
  case (Cons t ts)
  let ?Q = "\<lambda>e. \<exists>b \<in> set (t # ts). e = HttpGet (health_url b)"
  show ?case
  proof (cases "is_loopback_base K H t")
    case False
    with Cons have "grows (\<lambda>e. \<exists>b \<in> set ts. e = HttpGet (health_url b)) h h'" by simp
    then show ?thesis by (rule grows_mono) auto
  next
    case True
    obtain b h1 where ok: "health_ok H t h = (b, h1)" by fastforce
    then have "h1 = h @ [HttpGet (health_url t)]" by (rule health_ok_history)
    then have step: "grows ?Q h h1" by simp
    show ?thesis
    proof (cases b)
      case True
      with Cons.prems ok \<open>is_loopback_base K H t\<close> step show ?thesis by simp
    next
      case False
      with Cons.prems ok True have "probe_tiers K H ts h1 = (plan, h')" by simp
      then have "grows (\<lambda>e. \<exists>b \<in> set ts. e = HttpGet (health_url b)) h1 h'" by (rule Cons.IH)
      then have "grows ?Q h1 h'" by (rule grows_mono) auto
      with step show ?thesis by (rule grows_trans)
    qed
  qed
qed

declare probe_tiers.simps [simp del]

lemma build_plan_grows: "build_plan K H ov h = (plan, h') \<Longrightarrow> grows is_health_probe h h'"
proof (cases ov)
  case None
  assume "build_plan K H ov h = (plan, h')"
  with None have "probe_tiers K H [DIG_LOCAL_BASE, LOCALHOST_BASE] h = (plan, h')"
    by (simp add: build_plan_def)
  then have "grows (\<lambda>e. \<exists>b \<in> set [DIG_LOCAL_BASE, LOCALHOST_BASE]. e = HttpGet (health_url b)) h h'"
    by (rule probe_tiers_grows)
  then show ?thesis by (rule grows_mono) (simp add: is_health_probe_def)
qed (simp add: build_plan_def)

lemma build_plan_override [simp]: "build_plan K H (Some base) h = ([classify K H base], h)"
  by (simp add: build_plan_def)

text \<open>The three shapes a plan can have.\<close>

lemma build_plan_cases:
  assumes "build_plan K H ov h = (plan, h')"
  obtains (override) base where "ov = Some base" and "plan = [classify K H base]" and "h' = h"
  | (gateway) "ov = None" and "plan = [endpoint_rpc RPC_DEFAULT_BASE]"
  | (node) t where "ov = None" and "t \<in> {DIG_LOCAL_BASE, LOCALHOST_BASE}"
      and "is_loopback_base K H t" and "plan = [endpoint_node t, endpoint_rpc RPC_DEFAULT_BASE]"
proof (cases ov)
  case None
  with assms have "probe_tiers K H [DIG_LOCAL_BASE, LOCALHOST_BASE] h = (plan, h')"
    by (simp add: build_plan_def)
  from probe_tiers_cases [OF this] None gateway node show ?thesis by auto
next
  case (Some base)
  with assms override show ?thesis by simp
qed

lemma build_plan_nonempty: "build_plan K H ov h = (plan, h') \<Longrightarrow> plan \<noteq> []"
  by (erule build_plan_cases) simp_all

lemma build_plan_node_loopback:
  assumes "build_plan K H ov h = (plan, h')" and "e \<in> set plan" and "ep_kind e = NodeKind"
  shows "is_loopback_base K H (ep_base e)"
  using assms(1)
proof (cases rule: build_plan_cases)
  case (override base)
  with assms(2,3) show ?thesis by (simp add: classify_kind classify_base)
qed (use assms(2,3) in \<open>auto simp: endpoint_defs\<close>)

end
