(* ===== verification/NodeTier.thy ===== *)
theory NodeTier
  imports Tier Ladder Demo
begin

text \<open>
  \<open>src/src/node.rs\<close>: one \<open>GET\<close> to a local node, whose answer is either plaintext the node attests
  or ciphertext the client verifies and decrypts itself.
\<close>

section \<open>Operations\<close>

definition serve_url :: "('u, 'm) crates \<Rightarrow> string \<Rightarrow> 'u parsed_urn \<Rightarrow> string" where
  "serve_url K base p =
     (let store = (case root_hex K p of
                     Some root \<Rightarrow> store_id_hex K p @ '':'' @ root
                   | None \<Rightarrow> store_id_hex K p)
      in base @ ''/s/'' @ store @ ''/'' @ resource_key K p)"

definition header_content_type :: "http_response \<Rightarrow> string option" where
  "header_content_type resp =
     (case header resp ''content-type'' of
        None \<Rightarrow> None
      | Some c \<Rightarrow> (let t = trim (hd (split_on CHR '';'' c)) in if t = [] then None else Some t))"

definition parse_chunk_lens :: "string option \<Rightarrow> resolve_error + u32 list" where
  "parse_chunk_lens hdr =
     (case map_option trim hdr of
        None \<Rightarrow> Inr []
      | Some raw \<Rightarrow>
          if raw = [] then Inr []
          else (case those (map (\<lambda>n. parse_u32 (trim n)) (split_on CHR '','' raw)) of
                  Some lens \<Rightarrow> Inr lens
                | None \<Rightarrow> Inl (VerifyFailed ''invalid X-Dig-Chunk-Lens header'')))"

definition header_true :: "http_response \<Rightarrow> string \<Rightarrow> bool" where
  "header_true resp name =
     (case header resp name of Some v \<Rightarrow> eq_ignore_ascii_case (trim v) ''true'' | None \<Rightarrow> False)"

definition node_root :: "('u, 'm) crates \<Rightarrow> 'u parsed_urn \<Rightarrow> http_response \<Rightarrow> string option" where
  "node_root K p resp =
     (case root_hex K p of
        Some root \<Rightarrow> Some root
      | None \<Rightarrow> (case map_option trim (header resp ''x-dig-root'') of
                   Some r \<Rightarrow> if r = [] then None else Some r
                 | None \<Rightarrow> None))"

definition node_ciphertext :: "('u, 'm) crates \<Rightarrow> 'u parsed_urn \<Rightarrow> http_response \<Rightarrow> resolve_error + fetched" where
  "node_ciphertext K p resp =
     (case header resp ''x-dig-inclusion-proof'' of
        None \<Rightarrow> Inl (VerifyFailed ''ciphertext node response missing X-Dig-Inclusion-Proof'')
      | Some proof_b64 \<Rightarrow>
     (case node_root K p resp of
        None \<Rightarrow> Inl (VerifyFailed ''ciphertext node response missing a root'')
      | Some root \<Rightarrow>
     (case parse_chunk_lens (header resp ''x-dig-chunk-lens'') of
        Inl e \<Rightarrow> Inl e
      | Inr chunk_lens \<Rightarrow>
     (case verify_and_decrypt K p (body resp) proof_b64 root chunk_lens of
        Inl e \<Rightarrow> Inl e
      | Inr b \<Rightarrow>
          Inr \<lparr>f_data = resolved_data_new b (derive (resource_key K p) b),
               f_root = Some root,
               f_artifacts = Some \<lparr>da_ciphertext = body resp, da_proof_b64 = proof_b64,
                                   da_chunk_lens = chunk_lens\<rparr>\<rparr>))))"

definition node_answer :: "('u, 'm) crates \<Rightarrow> 'u parsed_urn \<Rightarrow> http_response \<Rightarrow> resolve_error + fetched" where
  "node_answer K p resp =
     (if status resp = 404 then Inl NotFound
      else if \<not> is_success resp then
        Inl (Transport (''node returned HTTP '' @ show_dec (unat (status resp))))
      else if header_true resp ''x-dig-verified'' then
        Inr \<lparr>f_data = resolved_data_new (body resp)
               (case header_content_type resp of
                  Some ct \<Rightarrow> ct
                | None \<Rightarrow> derive (resource_key K p) (body resp)),
             f_root = node_root K p resp,
             f_artifacts = None\<rparr>
      else if header_true resp ''x-dig-encrypted'' \<or> header resp ''x-dig-inclusion-proof'' \<noteq> None then
        node_ciphertext K p resp
      else Inl (VerifyFailed
        ''node response was neither X-Dig-Verified plaintext nor decryptable ciphertext''))"

definition node_fetch ::
    "('u, 'm) crates \<Rightarrow> host \<Rightarrow> string \<Rightarrow> 'u parsed_urn \<Rightarrow> history
      \<Rightarrow> (resolve_error + fetched) \<times> history" where
  "node_fetch K H base p h =
     (case http_get (transport H) (serve_url K base p) h of
        (Inl (TransportError m), h') \<Rightarrow> (Inl (Transport m), h')
      | (Inr resp, h') \<Rightarrow> (node_answer K p resp, h'))"

section \<open>The contract\<close>

text \<open>The node's answer to the one request, when it vouched for the plaintext it sent.\<close>

definition node_attested ::
    "('u, 'm) crates \<Rightarrow> host \<Rightarrow> string \<Rightarrow> 'u parsed_urn \<Rightarrow> history \<Rightarrow> fetched \<Rightarrow> bool" where
  "node_attested K H base p h f \<longleftrightarrow>
     (\<exists>resp. transport H h (HttpGet (serve_url K base p)) = Inr resp \<and> is_success resp \<and>
        header_true resp ''x-dig-verified'' \<and> rd_bytes (f_data f) = body resp)"

definition node_request :: "('u, 'm) crates \<Rightarrow> string \<Rightarrow> 'u parsed_urn \<Rightarrow> event \<Rightarrow> bool" where
  "node_request K base p e \<longleftrightarrow> e = HttpGet (serve_url K base p)"

lemma node_fetch_eq:
  "node_fetch K H base p h =
     (case transport H h (HttpGet (serve_url K base p)) of
        Inl (TransportError m) \<Rightarrow> Inl (Transport m)
      | Inr resp \<Rightarrow> node_answer K p resp, h @ [HttpGet (serve_url K base p)])"
  by (auto simp: node_fetch_def http_get_def split: sum.splits transport_error.splits)

lemma node_ciphertext_Inr:
  assumes "node_ciphertext K p resp = Inr f"
  shows "verified_fetch K p f" and "root_hex K p = Some root \<Longrightarrow> f_root f = Some root"
  using assms
  by (auto simp: node_ciphertext_def verified_fetch_def verified_as_def node_root_def
      split: option.splits sum.splits)

lemma node_answer_Inr:
  assumes "node_answer K p resp = Inr f"
  shows "verified_fetch K p f \<or> (is_success resp \<and> header_true resp ''x-dig-verified'' \<and>
           rd_bytes (f_data f) = body resp \<and> f_artifacts f = None)"
    and "root_hex K p = Some root \<Longrightarrow> f_root f = Some root"
proof -
  show "verified_fetch K p f \<or> (is_success resp \<and> header_true resp ''x-dig-verified'' \<and>
           rd_bytes (f_data f) = body resp \<and> f_artifacts f = None)"
    using assms node_ciphertext_Inr(1) by (auto simp: node_answer_def split: if_splits)
  show "root_hex K p = Some root \<Longrightarrow> f_root f = Some root"
    using assms node_ciphertext_Inr(2) [of K p resp f root]
    by (auto simp: node_answer_def node_root_def split: if_splits)
qed

interpretation node: tier_fetch node_fetch node_request node_attested
proof unfold_locales
  fix K :: "('a, 'b) crates" and H b p h f h' r e root
  show "node_request K b p e \<Longrightarrow> is_http e" by (simp add: node_request_def)
  show "node_fetch K H b p h = (r, h') \<Longrightarrow> grows (node_request K b p) h h'"
    by (auto simp: node_fetch_eq node_request_def)
  assume ok: "node_fetch K H b p h = (Inr f, h')"
  then obtain resp where resp: "transport H h (HttpGet (serve_url K b p)) = Inr resp"
      "node_answer K p resp = Inr f"
    by (auto simp: node_fetch_eq split: sum.splits transport_error.splits)
  show "verified_fetch K p f \<or> (node_attested K H b p h f \<and> f_artifacts f = None)"
    using node_answer_Inr(1) [OF resp(2)] resp(1) by (auto simp: node_attested_def)
  show "root_hex K p = Some root \<Longrightarrow> f_root f = Some root"
    using node_answer_Inr(2) [OF resp(2)] .
qed

section \<open>Header names\<close>

definition recase :: "(string \<Rightarrow> string) \<Rightarrow> http_response \<Rightarrow> http_response" where
  "recase f resp = resp\<lparr>headers := map (\<lambda>(k, v). (f k, v)) (headers resp)\<rparr>"

lemma find_map_fst:
  "(\<And>k. P (f k) \<longleftrightarrow> P k) \<Longrightarrow>
   map_option snd (find (\<lambda>(k, v). P k) (map (\<lambda>(k, v). (f k, v)) xs)) = map_option snd (find (\<lambda>(k, v). P k) xs)"
  by (induction xs) auto

lemma header_recase:
  "(\<And>k. to_ascii_lowercase (f k) = to_ascii_lowercase k) \<Longrightarrow> header (recase f resp) name = header resp name"
  unfolding header_def recase_def Let_def
  by (simp add: find_map_fst eq_ignore_ascii_case_def)

lemma recase_sel [simp]:
  "status (recase f resp) = status resp" "body (recase f resp) = body resp"
  "is_success (recase f resp) = is_success resp"
  by (simp_all add: recase_def is_success_def)

section \<open>Chunk lengths\<close>

definition show_chunk_lens :: "u32 list \<Rightarrow> string" where
  "show_chunk_lens lens = join '','' (map (\<lambda>l. show_dec (unat l)) lens)"

lemma plain_show_dec_ends: "plain_char (hd (show_dec n))" "plain_char (last (show_dec n))"
  using plain_host_ends [OF plain_show_dec [of n]] by simp_all

lemma hd_join: "x \<noteq> [] \<Longrightarrow> hd (join c (x # xs)) = hd x"
  by (cases xs) simp_all

lemma last_join: "(\<And>x. x \<in> set xs \<Longrightarrow> x \<noteq> []) \<Longrightarrow> xs \<noteq> [] \<Longrightarrow> last (join c xs) = last (last xs)"
proof (induction c xs rule: join.induct)
  case (3 c x y ys)
  then have "join c (y # ys) \<noteq> []" by (cases ys) auto
  with 3 show ?case by simp
qed simp_all

lemma trim_show_chunk_lens: "trim (show_chunk_lens lens) = show_chunk_lens lens"
proof (cases lens)
  case Nil
  then show ?thesis by (simp add: show_chunk_lens_def trim_plain_ends)
next
  case (Cons l ls)
  have "plain_char (hd (show_chunk_lens lens))"
    unfolding show_chunk_lens_def Cons list.map by (subst hd_join) (simp_all add: plain_show_dec_ends)
  moreover have "plain_char (last (show_chunk_lens lens))"
    unfolding show_chunk_lens_def
    by (subst last_join) (auto simp: Cons plain_show_dec_ends last_map show_dec_nonempty [THEN not_sym])
  ultimately show ?thesis by (intro trim_plain_ends) simp
qed

lemma no_comma_show_dec: "CHR '','' \<notin> set (show_dec n)"
proof -
  have "CHR '','' \<notin> set ''0123456789''" by simp
  with set_show_dec [of n] show ?thesis by blast
qed

lemma those_map_Some: "(\<And>x. x \<in> set xs \<Longrightarrow> f x = Some (g x)) \<Longrightarrow> those (map f xs) = Some (map g xs)"
  by (induction xs) auto

lemma those_None_iff: "those (map f xs) = None \<longleftrightarrow> (\<exists>x \<in> set xs. f x = None)"
  by (induction xs) (auto split: option.splits)

lemma parse_show_chunk_lens: "parse_chunk_lens (Some (show_chunk_lens lens)) = Inr lens"
proof (cases lens)
  case Nil
  then show ?thesis
    using trim_show_chunk_lens [of lens] by (simp add: parse_chunk_lens_def show_chunk_lens_def)
next
  case (Cons l ls)
  let ?xs = "map (\<lambda>l. show_dec (unat l)) lens"
  have "join '','' ?xs \<noteq> []" using Cons by (cases ls) simp_all
  moreover have "split_on CHR '','' (join '','' ?xs) = ?xs"
    using Cons by (intro split_on_join) (auto simp: no_comma_show_dec)
  moreover have "those (map (\<lambda>n. parse_u32 (trim n)) ?xs) = Some lens"
    using those_map_Some [of lens "\<lambda>l. parse_u32 (trim (show_dec (unat l)))" "\<lambda>l. l"]
    by (simp add: comp_def trim_plain [OF plain_show_dec] parse_u32_show_dec)
  ultimately show ?thesis
    using trim_show_chunk_lens [of lens] by (simp add: parse_chunk_lens_def show_chunk_lens_def)
qed

section \<open>The properties of the node tier\<close>

text \<open>
  C16. A node fetch fails closed.  One that returns bytes made the one request for the URN's serve
  URL, and it returns them only if the node answered with a success status and either attested the
  plaintext it sent with \<open>X-Dig-Verified: true\<close>, or sent a ciphertext with an inclusion proof
  under the root (the pinned one whenever the URN pins one) that opens to the bytes under the
  URN's key; a response with neither mark is a verification failure.
\<close>

theorem node_fetch_fails_closed:
  assumes "gate_contract K" and "decrypt_contract K"
    and "node_fetch K H base p h = (Inr f, h')"
  shows "h' = h @ [HttpGet (serve_url K base p)] \<and>
    (\<forall>root. root_hex K p = Some root \<longrightarrow> f_root f = Some root) \<and>
    (\<exists>resp. transport H h (HttpGet (serve_url K base p)) = Inr resp \<and> is_success resp \<and>
       (if header_true resp ''x-dig-verified'' then rd_bytes (f_data f) = body resp \<and> f_artifacts f = None
        else \<exists>wire root. header resp ''x-dig-inclusion-proof'' = Some wire \<and> f_root f = Some root \<and>
               included_under K (body resp) wire root \<and> opens_as K p (body resp) (rd_bytes (f_data f))))"
proof -
  from assms(3) obtain resp where resp: "transport H h (HttpGet (serve_url K base p)) = Inr resp"
      and ans: "node_answer K p resp = Inr f" and h': "h' = h @ [HttpGet (serve_url K base p)]"
    by (auto simp: node_fetch_eq split: sum.splits transport_error.splits)
  have "is_success resp" using ans by (auto simp: node_answer_def split: if_splits)
  moreover have "\<exists>wire root. header resp ''x-dig-inclusion-proof'' = Some wire \<and> f_root f = Some root \<and>
      included_under K (body resp) wire root \<and> opens_as K p (body resp) (rd_bytes (f_data f))"
    if "\<not> header_true resp ''x-dig-verified''"
  proof -
    from ans that have "node_ciphertext K p resp = Inr f"
      by (auto simp: node_answer_def split: if_splits)
    then obtain wire root lens where "header resp ''x-dig-inclusion-proof'' = Some wire"
        and "f_root f = Some root"
        and "verify_and_decrypt K p (body resp) wire root lens = Inr (rd_bytes (f_data f))"
      by (auto simp: node_ciphertext_def split: option.splits sum.splits)
    then show ?thesis
      using verify_and_decrypt_included [OF assms(1)] verify_and_decrypt_opens [OF assms(2)] by blast
  qed
  moreover have "header_true resp ''x-dig-verified'' \<Longrightarrow>
      rd_bytes (f_data f) = body resp \<and> f_artifacts f = None"
    using ans by (auto simp: node_answer_def split: if_splits)
  ultimately show ?thesis
    using h' resp node_answer_Inr(2) [OF ans] by auto
qed

definition demo_urn_of :: "string \<Rightarrow> demo_urn parsed_urn" where
  "demo_urn_of s = (case parse_urn demo_crates s of Inr p \<Rightarrow> p
     | Inl _ \<Rightarrow> \<lparr>urn = \<lparr>d_chain = [], d_store = [], d_root = None, d_key = []\<rparr>, salt = None\<rparr>)"

text \<open>A ciphertext answer: key byte 0, plaintext \<open>1, 2\<close>, proof under root \<open>bb\<close>.\<close>

definition demo_node_ciphertext :: http_response where
  "demo_node_ciphertext =
     \<lparr>status = 200,
      headers = [(''X-Dig-Encrypted'', ''true''),
                 (''X-Dig-Inclusion-Proof'', demo_b64_encode [0xBB, 0, 1, 2])],
      body = [0, 1, 2]\<rparr>"

lemma demo_node_answer:
  "map_option (rd_bytes \<circ> f_data) (case node_answer demo_crates (demo_urn_of ''r:x'') demo_node_ciphertext of
      Inr f \<Rightarrow> Some f | Inl _ \<Rightarrow> None) = Some [1, 2]"
  by code_simp

lemma node_fetch_fails_closed_witness:
  "\<exists>f. node_fetch demo_crates (demo_host (net_node demo_node_ciphertext demo_node_ciphertext))
      ''http://localhost:9778'' (demo_urn_of ''r:x'') []
      = (Inr f, [HttpGet (serve_url demo_crates ''http://localhost:9778'' (demo_urn_of ''r:x''))])
    \<and> f_root f = Some ''bb''"
proof -
  let ?H = "demo_host (net_node demo_node_ciphertext demo_node_ciphertext)"
  let ?u = "serve_url demo_crates ''http://localhost:9778'' (demo_urn_of ''r:x'')"
  have root: "root_hex demo_crates (demo_urn_of ''r:x'') = Some ''bb''" by code_simp
  have "drop (length ?u - 7) ?u \<noteq> ''/health''" by code_simp
  then have "transport ?H [] (HttpGet ?u) = Inr demo_node_ciphertext"
    by (simp add: demo_host_def)
  moreover obtain f where "node_answer demo_crates (demo_urn_of ''r:x'') demo_node_ciphertext = Inr f"
    using demo_node_answer by (auto split: sum.splits)
  ultimately have ok: "node_fetch demo_crates ?H ''http://localhost:9778'' (demo_urn_of ''r:x'') []
      = (Inr f, [HttpGet ?u])"
    by (simp add: node_fetch_eq)
  from node_fetch_fails_closed [OF demo_gate demo_decrypt ok] root ok show ?thesis by blast
qed

text \<open>
  HTTP header names are case-insensitive: no re-casing of the names in a response, by the
  server, a proxy or a transport, changes what the node tier makes of it.
\<close>

theorem node_answer_header_case:
  assumes "\<And>k. to_ascii_lowercase (f k) = to_ascii_lowercase k"
  shows "node_answer K p (recase f resp) = node_answer K p resp"
proof -
  have hdr: "header (recase f resp) name = header resp name" for name
    by (rule header_recase) (rule assms)
  show ?thesis
    unfolding node_answer_def node_ciphertext_def node_root_def header_true_def
      header_content_type_def recase_sel hdr ..
qed

lemma node_answer_header_case_witness:
  "node_answer demo_crates (demo_urn_of ''r:x'') (recase to_ascii_lowercase demo_node_ciphertext)
     = node_answer demo_crates (demo_urn_of ''r:x'') demo_node_ciphertext"
  by (rule node_answer_header_case) simp

text \<open>
  The chunk-length header reads back: the decimal lengths a node writes, separated by commas,
  parse to those lengths, no header to the single-chunk form, and a header fails closed exactly
  when it has an entry that is not a \<open>u32\<close>.
\<close>

theorem chunk_lens_roundtrip:
  "parse_chunk_lens (Some (show_chunk_lens lens)) = Inr lens \<and> parse_chunk_lens None = Inr []
   \<and> ((\<exists>m. parse_chunk_lens (Some raw) = Inl (VerifyFailed m)) \<longleftrightarrow>
        trim raw \<noteq> [] \<and> (\<exists>n \<in> set (split_on CHR '','' (trim raw)). parse_u32 (trim n) = None))"
proof (intro conjI)
  show "parse_chunk_lens (Some (show_chunk_lens lens)) = Inr lens" by (rule parse_show_chunk_lens)
  show "parse_chunk_lens None = Inr []" by (simp add: parse_chunk_lens_def)
  show "(\<exists>m. parse_chunk_lens (Some raw) = Inl (VerifyFailed m)) \<longleftrightarrow>
        trim raw \<noteq> [] \<and> (\<exists>n \<in> set (split_on CHR '','' (trim raw)). parse_u32 (trim n) = None)"
    using those_None_iff [of "\<lambda>n. parse_u32 (trim n)" "split_on CHR '','' (trim raw)"]
    by (auto simp: parse_chunk_lens_def split: option.splits)
qed

end
