(* ===== verification/RpcTier.thy ===== *)
theory RpcTier
  imports Tier Demo
begin

text \<open>
  \<open>src/src/rpc.rs\<close>: the blind fetch over the untrusted gateway.  A fetch asks for windows of the
  ciphertext until the gateway says it is complete, under bounds on the number of windows and on
  the bytes, and then verifies and decrypts under the root the URN pins.  The \<open>loop\<close> is a
  recursive function whose measure is the number of windows left; a \<open>usize\<close> count or length is a
  natural number, which the bounds keep far below \<open>2 ^ 31\<close>.
\<close>

section \<open>Constants\<close>

definition RPC_WINDOW_BYTES :: u64 where
  "RPC_WINDOW_BYTES = 3 * 1024 * 1024"

definition MAX_RESOURCE_BYTES :: u64 where
  "MAX_RESOURCE_BYTES = 64 * 1024 * 1024"

definition MAX_WINDOWS :: nat where
  "MAX_WINDOWS = unat (MAX_RESOURCE_BYTES div RPC_WINDOW_BYTES) + 16"

lemma MAX_RESOURCE_BYTES_nat [simp]: "unat MAX_RESOURCE_BYTES = 67108864"
  by (simp add: MAX_RESOURCE_BYTES_def)

lemma RPC_WINDOW_BYTES_nat [simp]: "unat RPC_WINDOW_BYTES = 3145728"
  by (simp add: RPC_WINDOW_BYTES_def)

lemma MAX_WINDOWS_nat: "MAX_WINDOWS = 37"
  by (simp add: MAX_WINDOWS_def unat_div)

section \<open>One call\<close>

text \<open>\<open>Value::get\<close> with a string index and \<open>Value::as_str\<close>.\<close>

fun json_get :: "string \<Rightarrow> json \<Rightarrow> json option" where
  "json_get k (JObject kvs) = map_of kvs k"
| "json_get k _ = None"

fun json_as_str :: "json \<Rightarrow> string option" where
  "json_as_str (JString s) = Some s"
| "json_as_str _ = None"

definition rpc_body :: "('u, 'm) crates \<Rightarrow> string \<Rightarrow> json \<Rightarrow> string" where
  "rpc_body K method params =
     sj_to_string K (JObject [(''jsonrpc'', JString ''2.0''), (''id'', JNumber (PosInt 1)),
       (''method'', JString method), (''params'', params)])"

definition rpc_result ::
    "('u, 'm) crates \<Rightarrow> (json \<Rightarrow> string + 'r) \<Rightarrow> string \<Rightarrow> http_response \<Rightarrow> resolve_error + 'r" where
  "rpc_result K from_value method resp =
     (if \<not> is_success resp then
        Inl (Transport (''rpc '' @ method @ '' returned HTTP '' @ show_dec (unat (status resp))))
      else case sj_value_from_slice K (body resp) of
        Inl e \<Rightarrow> Inl (Rpc (''rpc '' @ method @ '': malformed JSON ('' @ e @ '')''))
      | Inr envelope \<Rightarrow>
         (case Option.bind (json_get ''error'' envelope) (\<lambda>e. if e = JNull then None else Some e) of
            Some err \<Rightarrow>
              (let msg = (case Option.bind (json_get ''message'' err) json_as_str of
                            Some m \<Rightarrow> m | None \<Rightarrow> ''error'')
               in Inl (Rpc (''rpc '' @ method @ '': '' @ msg)))
          | None \<Rightarrow>
             (case json_get ''result'' envelope of
                None \<Rightarrow> Inl (Rpc (''rpc '' @ method @ '': no result''))
              | Some result \<Rightarrow>
                 (case from_value result of
                    Inl e \<Rightarrow> Inl (Rpc (''rpc '' @ method @ '': unexpected result shape ('' @ e @ '')''))
                  | Inr r \<Rightarrow> Inr r))))"

definition rpc_call ::
    "('u, 'm) crates \<Rightarrow> host \<Rightarrow> (json \<Rightarrow> string + 'r) \<Rightarrow> string \<Rightarrow> string \<Rightarrow> json \<Rightarrow> history
      \<Rightarrow> (resolve_error + 'r) \<times> history" where
  "rpc_call K H from_value base method params h =
     (case post_json (transport H) base (rpc_body K method params) h of
        (Inl (TransportError m), h') \<Rightarrow> (Inl (Transport m), h')
      | (Inr resp, h') \<Rightarrow> (rpc_result K from_value method resp, h'))"

definition trusted_root :: "('u, 'm) crates \<Rightarrow> 'u parsed_urn \<Rightarrow> resolve_error + string" where
  "trusted_root K p = (case root_hex K p of Some root \<Rightarrow> Inr root | None \<Rightarrow> Inl RootRequired)"

section \<open>The window loop\<close>

record window_state =
  w_buf :: bytes
  w_total :: "u64 option"
  w_proof :: string
  w_chunk_lens :: "u32 list"
  w_offset :: u64
  w_windows :: nat

definition window_start :: window_state where
  "window_start = \<lparr>w_buf = [], w_total = None, w_proof = [], w_chunk_lens = [], w_offset = 0, w_windows = 0\<rparr>"

definition window_params :: "('u, 'm) crates \<Rightarrow> 'u parsed_urn \<Rightarrow> string \<Rightarrow> u64 \<Rightarrow> json" where
  "window_params K p root off =
     JObject [(''store_id'', JString (store_id_hex K p)), (''root'', JString root),
       (''retrieval_key'', JString (retrieval_key_hex K p)), (''offset'', JNumber (PosInt off)),
       (''length'', JNumber (PosInt RPC_WINDOW_BYTES))]"

text \<open>The body of the loop from the answer to the end of the window: total, lengths, bytes, proof.\<close>

definition window_total :: "get_content \<Rightarrow> window_state \<Rightarrow> resolve_error + u64" where
  "window_total r st =
     (case w_total st of
        Some t \<Rightarrow> Inr t
      | None \<Rightarrow>
          if gc_total_length r = 0 then Inl NotFound
          else if MAX_RESOURCE_BYTES < gc_total_length r then Inl (Rpc ''resource exceeds maximum size'')
          else Inr (gc_total_length r))"

definition window_chunk ::
    "('u, 'm) crates \<Rightarrow> get_content \<Rightarrow> u64 \<Rightarrow> bytes \<Rightarrow> resolve_error + bytes" where
  "window_chunk K r total_len buf =
     (case gc_ciphertext r of
        None \<Rightarrow> Inr buf
      | Some ct_b64 \<Rightarrow>
         (case b64_decode K (str_bytes (trim ct_b64)) of
            None \<Rightarrow> Inl (Rpc ''ciphertext is not valid base64'')
          | Some chunk \<Rightarrow>
              if unat total_len < length buf + length chunk
              then Inl (Rpc ''gateway returned more bytes than declared'')
              else Inr (buf @ chunk)))"

definition absorb_window ::
    "('u, 'm) crates \<Rightarrow> get_content \<Rightarrow> window_state \<Rightarrow> resolve_error + window_state" where
  "absorb_window K r st =
     (case window_total r st of
        Inl e \<Rightarrow> Inl e
      | Inr total_len \<Rightarrow>
         (case window_chunk K r total_len (w_buf st) of
            Inl e \<Rightarrow> Inl e
          | Inr buf \<Rightarrow>
              Inr (st\<lparr>w_total := Some total_len,
                      w_chunk_lens := (if w_chunk_lens st = []
                        then (case gc_chunk_lens r of Some lens \<Rightarrow> lens | None \<Rightarrow> []) else w_chunk_lens st),
                      w_buf := buf,
                      w_proof := (case gc_inclusion_proof r of
                        Some pf \<Rightarrow> if pf = [] then w_proof st else pf | None \<Rightarrow> w_proof st)\<rparr>)))"

text \<open>The \<open>match\<close> that ends the loop (\<open>None\<close>) or moves the cursor.\<close>

definition advance :: "get_content \<Rightarrow> window_state \<Rightarrow> resolve_error + window_state option" where
  "advance r st =
     (case (gc_complete r, gc_next_offset r) of
        (Some True, _) \<Rightarrow> Inr None
      | (_, None) \<Rightarrow> Inr None
      | (_, Some nxt) \<Rightarrow>
          if nxt \<le> w_offset st then Inl (Rpc ''content offset did not advance'')
          else Inr (Some (st\<lparr>w_offset := nxt\<rparr>)))"

definition one_window ::
    "('u, 'm) crates \<Rightarrow> host \<Rightarrow> string \<Rightarrow> 'u parsed_urn \<Rightarrow> string \<Rightarrow> window_state \<Rightarrow> history
      \<Rightarrow> (resolve_error + window_state \<times> window_state option) \<times> history" where
  "one_window K H base p root st h =
     (case rpc_call K H (sj_get_content K) base ''dig.getContent'' (window_params K p root (w_offset st)) h of
        (Inl e, h') \<Rightarrow> (Inl e, h')
      | (Inr r, h') \<Rightarrow>
         (case absorb_window K r st of
            Inl e \<Rightarrow> (Inl e, h')
          | Inr st' \<Rightarrow>
             (case advance r st' of
                Inl e \<Rightarrow> (Inl e, h')
              | Inr nxt \<Rightarrow> (Inr (st', nxt), h'))))"

lemma absorb_window_InrD:
  assumes "absorb_window K r st = Inr st'"
  shows "w_windows st' = w_windows st" and "w_offset st' = w_offset st"
  using assms by (auto simp: absorb_window_def split: sum.splits)

lemma advance_SomeD:
  assumes "advance r st = Inr (Some st')"
  shows "w_offset st < w_offset st'" and "w_windows st' = w_windows st" and "w_buf st' = w_buf st"
    and "w_total st' = w_total st" and "w_proof st' = w_proof st" and "w_chunk_lens st' = w_chunk_lens st"
  using assms by (auto simp: advance_def split: option.splits bool.splits if_splits)

lemma one_window_SomeD:
  assumes "one_window K H base p root st h = (Inr (st', Some st''), h')"
  shows "w_windows st'' = w_windows st"
proof -
  from assms obtain r where "absorb_window K r st = Inr st'" and "advance r st' = Inr (Some st'')"
    by (auto simp: one_window_def split: prod.splits sum.splits)
  then show ?thesis using absorb_window_InrD(1) advance_SomeD(2) by metis
qed

function window_loop ::
    "('u, 'm) crates \<Rightarrow> host \<Rightarrow> string \<Rightarrow> 'u parsed_urn \<Rightarrow> string \<Rightarrow> window_state \<Rightarrow> history
      \<Rightarrow> (resolve_error + window_state) \<times> history" where
  "window_loop K H base p root st h =
     (let st1 = st\<lparr>w_windows := w_windows st + 1\<rparr>
      in if MAX_WINDOWS < w_windows st1 then (Inl (Rpc ''too many content windows''), h)
         else case one_window K H base p root st1 h of
           (Inl e, h') \<Rightarrow> (Inl e, h')
         | (Inr (st', None), h') \<Rightarrow> (Inr st', h')
         | (Inr (st', Some st''), h') \<Rightarrow> window_loop K H base p root st'' h')"
  by pat_completeness auto
termination
  by (relation "measure (\<lambda>(K, H, base, p, root, st, h). MAX_WINDOWS - w_windows st)")
    (auto dest!: one_window_SomeD [OF sym])

declare window_loop.simps [simp del]

section \<open>The fetch\<close>

definition rpc_fetch ::
    "('u, 'm) crates \<Rightarrow> host \<Rightarrow> string \<Rightarrow> 'u parsed_urn \<Rightarrow> history
      \<Rightarrow> (resolve_error + fetched) \<times> history" where
  "rpc_fetch K H base p h =
     (case trusted_root K p of
        Inl e \<Rightarrow> (Inl e, h)
      | Inr root \<Rightarrow>
         (case window_loop K H (trim_end_matches CHR ''/'' base) p root window_start h of
            (Inl e, h') \<Rightarrow> (Inl e, h')
          | (Inr st, h') \<Rightarrow>
             (case verify_and_decrypt K p (w_buf st) (w_proof st) root (w_chunk_lens st) of
                Inl e \<Rightarrow> (Inl e, h')
              | Inr b \<Rightarrow>
                  (Inr \<lparr>f_data = resolved_data_new b (derive (resource_key K p) b),
                        f_root = Some root,
                        f_artifacts = Some \<lparr>da_ciphertext = w_buf st, da_proof_b64 = w_proof st,
                                            da_chunk_lens = w_chunk_lens st\<rparr>\<rparr>, h'))))"

section \<open>Induction over the windows\<close>

lemma window_loop_induct [consumes 1, case_names exhausted failed complete more]:
  assumes "window_loop K H base p root st h = (r, h')"
    and exhausted: "\<And>st h. MAX_WINDOWS \<le> w_windows st \<Longrightarrow> P st h (Inl (Rpc ''too many content windows'')) h"
    and failed: "\<And>st h e h1. w_windows st < MAX_WINDOWS \<Longrightarrow>
      one_window K H base p root (st\<lparr>w_windows := Suc (w_windows st)\<rparr>) h = (Inl e, h1) \<Longrightarrow> P st h (Inl e) h1"
    and complete: "\<And>st h st' h1. w_windows st < MAX_WINDOWS \<Longrightarrow>
      one_window K H base p root (st\<lparr>w_windows := Suc (w_windows st)\<rparr>) h = (Inr (st', None), h1) \<Longrightarrow>
      P st h (Inr st') h1"
    and more: "\<And>st h st' st'' h1 r h'. w_windows st < MAX_WINDOWS \<Longrightarrow>
      one_window K H base p root (st\<lparr>w_windows := Suc (w_windows st)\<rparr>) h = (Inr (st', Some st''), h1) \<Longrightarrow>
      P st'' h1 r h' \<Longrightarrow> P st h r h'"
  shows "P st h r h'"
  using assms(1)
proof (induction "MAX_WINDOWS - w_windows st" arbitrary: st h r h' rule: less_induct)
  case less
  let ?st1 = "st\<lparr>w_windows := Suc (w_windows st)\<rparr>"
  obtain res h1 where one: "one_window K H base p root ?st1 h = (res, h1)" by fastforce
  note step = window_loop.simps [of K H base p root st h, unfolded Let_def]
  show ?case
  proof (cases "w_windows st < MAX_WINDOWS")
    case False
    with less.prems step exhausted [of st h] show ?thesis by simp
  next
    case True
    show ?thesis
    proof (cases res)
      case (Inl e)
      with less.prems step one True failed [of st h e h1] show ?thesis by simp
    next
      case (Inr q)
      obtain st' nxt where q: "q = (st', nxt)" by fastforce
      show ?thesis
      proof (cases nxt)
        case None
        with less.prems step one True q Inr complete [of st h st' h1] show ?thesis by simp
      next
        case (Some st'')
        with one q Inr have one': "one_window K H base p root ?st1 h = (Inr (st', Some st''), h1)"
          by simp
        have loop: "window_loop K H base p root st'' h1 = (r, h')"
          using less.prems step one' True by simp
        have "MAX_WINDOWS - w_windows st'' < MAX_WINDOWS - w_windows st"
          using one_window_SomeD [OF one'] True by simp
        from less.hyps [OF this loop] show ?thesis by (rule more [OF True one'])
      qed
    qed
  qed
qed

section \<open>Requests\<close>

definition window_request :: "('u, 'm) crates \<Rightarrow> string \<Rightarrow> 'u parsed_urn \<Rightarrow> string \<Rightarrow> u64 \<Rightarrow> event" where
  "window_request K base p root off =
     HttpPost base (rpc_body K ''dig.getContent'' (window_params K p root off))"

definition rpc_request :: "('u, 'm) crates \<Rightarrow> string \<Rightarrow> 'u parsed_urn \<Rightarrow> event \<Rightarrow> bool" where
  "rpc_request K base p e \<longleftrightarrow>
     (\<exists>root off. root_hex K p = Some root \<and> e = window_request K (trim_end_matches CHR ''/'' base) p root off)"

lemma rpc_call_eq:
  "rpc_call K H fv base method params h =
     (case transport H h (HttpPost base (rpc_body K method params)) of
        Inl (TransportError m) \<Rightarrow> Inl (Transport m)
      | Inr resp \<Rightarrow> rpc_result K fv method resp, h @ [HttpPost base (rpc_body K method params)])"
  by (auto simp: rpc_call_def post_json_def split: sum.splits transport_error.splits)

lemma one_window_history:
  "one_window K H base p root st h = (r, h') \<Longrightarrow> h' = h @ [window_request K base p root (w_offset st)]"
  by (auto simp: one_window_def rpc_call_eq window_request_def split: sum.splits transport_error.splits)

lemma one_window_MoreD:
  assumes "one_window K H base p root st h = (Inr (st', Some st''), h')"
  shows "w_offset st < w_offset st''"
proof -
  from assms obtain r where "absorb_window K r st = Inr st'" and "advance r st' = Inr (Some st'')"
    by (auto simp: one_window_def split: prod.splits sum.splits)
  then show ?thesis using absorb_window_InrD(2) advance_SomeD(1) by metis
qed

text \<open>The offsets asked for start at the cursor, strictly increase and are at most the windows left.\<close>

definition offsets_ok :: "window_state \<Rightarrow> u64 list \<Rightarrow> bool" where
  "offsets_ok st offs \<longleftrightarrow> sorted_wrt (<) offs \<and> length offs \<le> MAX_WINDOWS - w_windows st \<and>
     (offs = [] \<or> hd offs = w_offset st)"

lemma window_loop_requests:
  assumes "window_loop K H base p root st h = (r, h')"
  shows "\<exists>offs. h' = h @ map (window_request K base p root) offs \<and> offsets_ok st offs"
  using assms
proof (induction rule: window_loop_induct)
  case (exhausted st h)
  show ?case by (intro exI [of _ "[]"]) (simp add: offsets_ok_def)
next
  case (failed st h e h1)
  then show ?case
    by (intro exI [of _ "[w_offset st]"]) (auto simp: offsets_ok_def dest: one_window_history)
next
  case (complete st h st' h1)
  then show ?case
    by (intro exI [of _ "[w_offset st]"]) (auto simp: offsets_ok_def dest: one_window_history)
next
  case (more st h st' st'' h1 r h')
  then obtain offs where offs: "h' = h1 @ map (window_request K base p root) offs" "offsets_ok st'' offs"
    by blast
  have lt: "w_offset st < w_offset st''" using one_window_MoreD [OF more(2)] by simp
  have "sorted_wrt (<) (w_offset st # offs)"
    using offs(2) lt by (cases offs) (auto simp: offsets_ok_def intro: less_trans)
  moreover have "length offs \<le> MAX_WINDOWS - Suc (w_windows st)"
    using offs(2) one_window_SomeD [OF more(2)] by (simp add: offsets_ok_def)
  then have "length (w_offset st # offs) \<le> MAX_WINDOWS - w_windows st"
    using more(1) by simp
  moreover have "h' = h @ map (window_request K base p root) (w_offset st # offs)"
    using offs(1) one_window_history [OF more(2)] by simp
  ultimately show ?case by (intro exI [of _ "w_offset st # offs"]) (simp add: offsets_ok_def)
qed

section \<open>Bytes\<close>

definition window_bounded :: "window_state \<Rightarrow> bool" where
  "window_bounded st \<longleftrightarrow>
     (case w_total st of
        None \<Rightarrow> w_buf st = []
      | Some t \<Rightarrow> 0 < t \<and> t \<le> MAX_RESOURCE_BYTES \<and> length (w_buf st) \<le> unat t)"

lemma window_bounded_cong:
  "w_buf st' = w_buf st \<Longrightarrow> w_total st' = w_total st \<Longrightarrow> window_bounded st' = window_bounded st"
  by (cases "w_total st") (simp_all add: window_bounded_def)

lemma window_bounded_windows [simp]: "window_bounded (st\<lparr>w_windows := n\<rparr>) = window_bounded st"
  by (rule window_bounded_cong) simp_all

lemma window_total_bounded:
  "window_bounded st \<Longrightarrow> window_total r st = Inr t \<Longrightarrow>
     0 < t \<and> t \<le> MAX_RESOURCE_BYTES \<and> length (w_buf st) \<le> unat t"
  by (auto simp: window_total_def window_bounded_def word_neq_0_conv split: option.splits if_splits)

lemma absorb_window_bounded:
  assumes "window_bounded st" and "absorb_window K r st = Inr st'"
  shows "window_bounded st' \<and> w_total st' \<noteq> None"
  using assms(2) window_total_bounded [OF assms(1)]
  by (auto simp: absorb_window_def window_bounded_def window_chunk_def
      split: sum.splits option.splits if_splits)

lemma one_window_bounded:
  assumes "window_bounded st" and "one_window K H base p root st h = (Inr (st', nxt), h')"
  shows "window_bounded st' \<and> w_total st' \<noteq> None"
    and "nxt = Some st'' \<Longrightarrow> window_bounded st''"
proof -
  from assms(2) obtain r where r: "absorb_window K r st = Inr st'" "advance r st' = Inr nxt"
    by (auto simp: one_window_def split: prod.splits sum.splits)
  show b: "window_bounded st' \<and> w_total st' \<noteq> None" using absorb_window_bounded [OF assms(1) r(1)] .
  show "nxt = Some st'' \<Longrightarrow> window_bounded st''"
    using b r(2) advance_SomeD(3,4) [of r st' st''] window_bounded_cong [of st'' st'] by simp
qed

lemma window_loop_bounded:
  assumes "window_loop K H base p root st h = (r, h')"
  shows "window_bounded st \<Longrightarrow> r = Inr st' \<Longrightarrow> window_bounded st' \<and> w_total st' \<noteq> None"
  using assms
proof (induction arbitrary: st' rule: window_loop_induct)
  case (complete st h st2 h1)
  then show ?case
    using one_window_bounded(1) [OF _ complete(2)] by simp
next
  case (more st h st2 st'' h1 r h')
  then have "window_bounded st''"
    using one_window_bounded(2) [OF _ more(2)] by simp
  with more show ?case by blast
qed simp_all

section \<open>The contract\<close>

lemma rpc_fetch_InrD:
  assumes "rpc_fetch K H base p h = (Inr f, h')"
  obtains root st where "root_hex K p = Some root"
    and "window_loop K H (trim_end_matches CHR ''/'' base) p root window_start h = (Inr st, h')"
    and "verify_and_decrypt K p (w_buf st) (w_proof st) root (w_chunk_lens st) = Inr (rd_bytes (f_data f))"
    and "rd_content_type (f_data f) = derive (resource_key K p) (rd_bytes (f_data f))"
    and "f_root f = Some root"
    and "f_artifacts f = Some \<lparr>da_ciphertext = w_buf st, da_proof_b64 = w_proof st,
                              da_chunk_lens = w_chunk_lens st\<rparr>"
  using assms
  by (auto simp: rpc_fetch_def trusted_root_def split: option.splits sum.splits prod.splits)

lemma rpc_fetch_events:
  assumes "rpc_fetch K H base p h = (r, h')"
  shows "grows (rpc_request K base p) h h'"
proof (cases "root_hex K p")
  case None
  with assms show ?thesis by (simp add: rpc_fetch_def trusted_root_def)
next
  case (Some root)
  let ?b = "trim_end_matches CHR ''/'' base"
  obtain r' h1 where loop: "window_loop K H ?b p root window_start h = (r', h1)" by fastforce
  with assms Some have "h' = h1"
    by (auto simp: rpc_fetch_def trusted_root_def split: sum.splits)
  with window_loop_requests [OF loop] obtain offs
    where "h' = h @ map (window_request K ?b p root) offs" by blast
  with Some show ?thesis
    by (auto simp: grows_def list_all_iff rpc_request_def)
qed

definition rpc_attested ::
    "('u, 'm) crates \<Rightarrow> host \<Rightarrow> string \<Rightarrow> 'u parsed_urn \<Rightarrow> history \<Rightarrow> fetched \<Rightarrow> bool" where
  "rpc_attested K H base p h f \<longleftrightarrow> False"

interpretation rpc: tier_fetch rpc_fetch rpc_request rpc_attested
proof unfold_locales
  fix K :: "('a, 'b) crates" and H b p h f h' r e root
  show "rpc_request K b p e \<Longrightarrow> is_http e" by (auto simp: rpc_request_def window_request_def)
  show "rpc_fetch K H b p h = (r, h') \<Longrightarrow> grows (rpc_request K b p) h h'" by (rule rpc_fetch_events)
  assume ok: "rpc_fetch K H b p h = (Inr f, h')"
  show "verified_fetch K p f \<or> (rpc_attested K H b p h f \<and> f_artifacts f = None)"
    using ok by (rule rpc_fetch_InrD) (auto simp: verified_fetch_def verified_as_def)
  show "root_hex K p = Some root \<Longrightarrow> f_root f = Some root"
    using ok by (rule rpc_fetch_InrD) simp
qed

section \<open>An honest gateway\<close>

text \<open>
  An honest answer to the window at \<open>off\<close> of a ciphertext \<open>ct\<close>: the declared total, the next
  \<open>RPC_WINDOW_BYTES\<close> bytes, the proof, the chunk lengths (or none for a single chunk), and a next
  offset exactly as long as something is left.
\<close>

definition honest_window ::
    "('u, 'm) crates \<Rightarrow> bytes \<Rightarrow> string \<Rightarrow> u32 list \<Rightarrow> nat \<Rightarrow> get_content \<Rightarrow> bool" where
  "honest_window K ct wire lens off r \<longleftrightarrow>
     gc_total_length r = word_of_nat (length ct) \<and>
     gc_ciphertext r = Some (b64_encode K (take (unat RPC_WINDOW_BYTES) (drop off ct))) \<and>
     gc_inclusion_proof r = Some wire \<and>
     (gc_chunk_lens r = Some lens \<or> (lens = [] \<and> gc_chunk_lens r = None)) \<and>
     (if off + unat RPC_WINDOW_BYTES < length ct
      then gc_complete r \<noteq> Some True \<and> gc_next_offset r = Some (word_of_nat (off + unat RPC_WINDOW_BYTES))
      else gc_complete r = Some True \<or> gc_next_offset r = None)"

definition honest_gateway ::
    "('u, 'm) crates \<Rightarrow> host \<Rightarrow> string \<Rightarrow> 'u parsed_urn \<Rightarrow> string \<Rightarrow> bytes \<Rightarrow> string \<Rightarrow> u32 list \<Rightarrow> bool" where
  "honest_gateway K H base p root ct wire lens \<longleftrightarrow>
     (\<forall>h i. i * unat RPC_WINDOW_BYTES < length ct \<longrightarrow>
        (\<exists>r. fst (rpc_call K H (sj_get_content K) base ''dig.getContent''
                   (window_params K p root (word_of_nat (i * unat RPC_WINDOW_BYTES))) h) = Inr r \<and>
             honest_window K ct wire lens (i * unat RPC_WINDOW_BYTES) r))"

definition window_state_at :: "bytes \<Rightarrow> string \<Rightarrow> u32 list \<Rightarrow> nat \<Rightarrow> window_state" where
  "window_state_at ct wire lens i =
     \<lparr>w_buf = take (i * unat RPC_WINDOW_BYTES) ct,
      w_total = (if i = 0 then None else Some (word_of_nat (length ct))),
      w_proof = (if i = 0 then [] else wire),
      w_chunk_lens = (if i = 0 then [] else lens),
      w_offset = word_of_nat (i * unat RPC_WINDOW_BYTES),
      w_windows = i\<rparr>"

lemma window_state_at_0: "window_state_at ct wire lens 0 = window_start"
  by (simp add: window_state_at_def window_start_def)

lemma unat_small: "n \<le> 67108864 \<Longrightarrow> unat (word_of_nat n :: u64) = n"
  by (simp add: unat_of_nat take_bit_eq_mod)

lemma absorb_honest:
  assumes b64: "b64_roundtrip K" and size: "0 < length ct" "length ct \<le> 67108864"
    and i: "i * unat RPC_WINDOW_BYTES < length ct"
    and r: "honest_window K ct wire lens (i * unat RPC_WINDOW_BYTES) r"
  shows "absorb_window K r ((window_state_at ct wire lens i)\<lparr>w_windows := n\<rparr>)
    = Inr \<lparr>w_buf = take (Suc i * unat RPC_WINDOW_BYTES) ct, w_total = Some (word_of_nat (length ct)),
           w_proof = wire, w_chunk_lens = lens,
           w_offset = word_of_nat (i * unat RPC_WINDOW_BYTES), w_windows = n\<rparr>"
proof -
  let ?W = "unat RPC_WINDOW_BYTES"
  have len: "unat (word_of_nat (length ct) :: u64) = length ct" using size by (simp add: unat_small)
  have nz: "(word_of_nat (length ct) :: u64) \<noteq> 0" using len size by auto
  have le: "\<not> MAX_RESOURCE_BYTES < (word_of_nat (length ct) :: u64)"
    using len size by (simp add: word_less_nat_alt)
  have total: "window_total r ((window_state_at ct wire lens i)\<lparr>w_windows := n\<rparr>) = Inr (word_of_nat (length ct))"
    using r nz le by (simp add: window_total_def window_state_at_def honest_window_def)
  have dec: "b64_decode K (str_bytes (trim (b64_encode K x))) = Some x" for x
    using b64 by (simp add: b64_roundtrip_def)
  have app: "take (i * ?W) ct @ take ?W (drop (i * ?W) ct) = take (Suc i * ?W) ct"
    by (simp add: take_add [symmetric] add.commute)
  have room: "\<not> unat (word_of_nat (length ct) :: u64)
      < length (take (i * ?W) ct) + length (take ?W (drop (i * ?W) ct))"
    by (simp add: len)
  have chunk: "window_chunk K r (word_of_nat (length ct)) (take (i * ?W) ct) = Inr (take (Suc i * ?W) ct)"
    using r room app dec unfolding window_chunk_def honest_window_def by simp
  have "w_buf ((window_state_at ct wire lens i)\<lparr>w_windows := n\<rparr>) = take (i * ?W) ct"
    by (simp add: window_state_at_def)
  with total chunk r show ?thesis
    by (auto simp: absorb_window_def honest_window_def window_state_at_def)
qed

text \<open>One window of an honest gateway: on to the next one, or the end with everything assembled.\<close>

lemma one_window_honest:
  assumes b64: "b64_roundtrip K" and size: "0 < length ct" "length ct \<le> 67108864"
    and gw: "honest_gateway K H base p root ct wire lens"
    and i: "i * unat RPC_WINDOW_BYTES < length ct"
  shows "\<exists>st' h1. one_window K H base p root ((window_state_at ct wire lens i)\<lparr>w_windows := Suc i\<rparr>) h =
      (Inr (st', if Suc i * unat RPC_WINDOW_BYTES < length ct
                 then Some (window_state_at ct wire lens (Suc i)) else None), h1) \<and>
    (\<not> Suc i * unat RPC_WINDOW_BYTES < length ct \<longrightarrow>
       w_buf st' = ct \<and> w_proof st' = wire \<and> w_chunk_lens st' = lens)"
proof -
  let ?W = "unat RPC_WINDOW_BYTES"
  let ?st1 = "(window_state_at ct wire lens i)\<lparr>w_windows := Suc i\<rparr>"
  have off: "w_offset ?st1 = word_of_nat (i * ?W)" by (simp add: window_state_at_def)
  obtain r h1 where call: "rpc_call K H (sj_get_content K) base ''dig.getContent''
        (window_params K p root (word_of_nat (i * ?W))) h = (Inr r, h1)"
      and r: "honest_window K ct wire lens (i * ?W) r"
    using gw i unfolding honest_gateway_def by (metis prod.collapse)
  let ?st' = "\<lparr>w_buf = take (Suc i * ?W) ct, w_total = Some (word_of_nat (length ct)), w_proof = wire,
      w_chunk_lens = lens, w_offset = word_of_nat (i * ?W), w_windows = Suc i\<rparr>"
  have absorb: "absorb_window K r ?st1 = Inr ?st'"
    by (rule absorb_honest [OF b64 size i r])
  have "advance r ?st' = Inr (if Suc i * ?W < length ct then Some (window_state_at ct wire lens (Suc i)) else None)"
  proof (cases "Suc i * ?W < length ct")
    case False
    then show ?thesis
      using r by (auto simp: advance_def honest_window_def split: option.splits bool.splits)
  next
    case True
    have nxt: "gc_complete r \<noteq> Some True" "gc_next_offset r = Some (word_of_nat (Suc i * ?W))"
      using r True by (auto simp: honest_window_def add.commute)
    have "unat (word_of_nat (i * ?W) :: u64) = i * ?W" "unat (word_of_nat (Suc i * ?W) :: u64) = Suc i * ?W"
      using True size(2) by (intro unat_small; simp)+
    then have "\<not> (word_of_nat (Suc i * ?W) :: u64) \<le> word_of_nat (i * ?W)"
      by (simp add: word_le_nat_alt)
    then show ?thesis
      using nxt True by (auto simp: advance_def window_state_at_def split: option.splits bool.splits)
  qed
  with call absorb have "one_window K H base p root ?st1 h =
      (Inr (?st', if Suc i * ?W < length ct then Some (window_state_at ct wire lens (Suc i)) else None), h1)"
    by (simp add: one_window_def off del: RPC_WINDOW_BYTES_nat)
  then show ?thesis by (intro exI [of _ ?st'] exI [of _ h1]) auto
qed

lemma window_loop_honest:
  assumes b64: "b64_roundtrip K" and size: "0 < length ct" "length ct \<le> 67108864"
    and gw: "honest_gateway K H base p root ct wire lens"
    and i: "i * unat RPC_WINDOW_BYTES < length ct"
  shows "\<exists>st h'. window_loop K H base p root (window_state_at ct wire lens i) h = (Inr st, h') \<and>
      w_buf st = ct \<and> w_proof st = wire \<and> w_chunk_lens st = lens"
  using i
proof (induction "length ct - i" arbitrary: i h rule: less_induct)
  case less
  let ?W = "unat RPC_WINDOW_BYTES" and ?st = "window_state_at ct wire lens i"
  have win: "w_windows ?st = i" by (simp add: window_state_at_def)
  have "i < 37" using less.prems size(2) by simp
  then have enough: "\<not> MAX_WINDOWS < Suc i" by (simp add: MAX_WINDOWS_nat)
  note step = window_loop.simps [of K H base p root ?st h, unfolded Let_def win]
  obtain st' h1 where one: "one_window K H base p root (?st\<lparr>w_windows := Suc i\<rparr>) h =
      (Inr (st', if Suc i * ?W < length ct then Some (window_state_at ct wire lens (Suc i)) else None), h1)"
    and fin: "\<not> Suc i * ?W < length ct \<longrightarrow> w_buf st' = ct \<and> w_proof st' = wire \<and> w_chunk_lens st' = lens"
    using one_window_honest [OF b64 size gw less.prems] by blast
  show ?case
  proof (cases "Suc i * ?W < length ct")
    case False
    with step enough one have "window_loop K H base p root ?st h = (Inr st', h1)" by simp
    with fin False show ?thesis by blast
  next
    case True
    with step enough one have "window_loop K H base p root ?st h
        = window_loop K H base p root (window_state_at ct wire lens (Suc i)) h1" by simp
    moreover have "length ct - Suc i < length ct - i" using less.prems by simp
    ultimately show ?thesis using less.hyps [OF _ True, of h1] by simp
  qed
qed

section \<open>The properties of the gateway tier\<close>

lemma demo_gateway_call:
  "rpc_call K (demo_host (net_gateway r)) fv base method params h
     = (rpc_result K fv method r, h @ [HttpPost base (rpc_body K method params)])"
  by (simp add: rpc_call_eq demo_host_def)

text \<open>The gateway of the witnesses: it holds \<open>0, 1, 2\<close>, which opens to \<open>1, 2\<close>, proved under root \<open>bb\<close>.\<close>

definition demo_gateway :: http_response where
  "demo_gateway = demo_response 200 [] (CHR ''c'' # bytes_str [0, 1, 2])"

definition demo_urn_r :: "demo_urn parsed_urn" where
  "demo_urn_r = \<lparr>urn = \<lparr>d_chain = ''chia'', d_store = ''aa'', d_root = Some ''bb'', d_key = ''x''\<rparr>, salt = None\<rparr>"

definition demo_window :: get_content where
  "demo_window = \<lparr>gc_total_length = 3, gc_offset = 0, gc_next_offset = None, gc_complete = Some True,
     gc_ciphertext = Some (demo_b64_encode [0, 1, 2]),
     gc_inclusion_proof = Some (demo_b64_encode [0xBB, 0, 1, 2]), gc_chunk_lens = None\<rparr>"

lemma demo_gateway_result:
  "rpc_result demo_crates (sj_get_content demo_crates) ''dig.getContent'' demo_gateway = Inr demo_window"
  by code_simp

lemma demo_root_r: "root_hex demo_crates demo_urn_r = Some ''bb''"
  by code_simp

lemma demo_honest_gateway_any:
  "honest_gateway demo_crates (demo_host (net_gateway demo_gateway)) base p root
     [0, 1, 2] (demo_b64_encode [0xBB, 0, 1, 2]) []"
proof -
  have "honest_window demo_crates [0, 1, 2] (demo_b64_encode [0xBB, 0, 1, 2]) [] 0 demo_window"
    by (simp add: honest_window_def demo_window_def) (simp add: demo_crates_def)
  moreover have "i * unat RPC_WINDOW_BYTES < length ([0, 1, 2] :: bytes) \<longleftrightarrow> i = 0" for i
    by auto
  ultimately show ?thesis
    unfolding honest_gateway_def demo_gateway_call demo_gateway_result by simp
qed

lemmas demo_honest_gateway = demo_honest_gateway_any [of _ demo_urn_r "''bb''"]

lemma window_loop_grows:
  assumes "window_loop K H base p root st h = (r, h')"
  shows "length h \<le> length h' \<and> (w_windows st < MAX_WINDOWS \<longrightarrow> length h < length h')"
  using assms by (induction rule: window_loop_induct) (auto dest!: one_window_history)

lemma window_loop_asks:
  "window_loop K H base p root st h = (r, h') \<Longrightarrow> w_windows st < MAX_WINDOWS \<Longrightarrow> h' \<noteq> h"
  using window_loop_grows by fastforce

lemma demo_verified:
  "verify_and_decrypt demo_crates demo_urn_r [0, 1, 2] (demo_b64_encode [0xBB, 0, 1, 2]) ''bb'' [] = Inr [1, 2]"
  by code_simp

text \<open>
  C9. From an honest gateway the fetch reassembles the resource: for any ciphertext of 1 byte to
  64 MiB, however many windows it takes, the buffer handed to the gate is exactly that
  ciphertext, with the gateway's proof and lengths, so that what the gate releases for it is
  returned.
\<close>

theorem rpc_fetch_reassembles:
  assumes "b64_roundtrip K" and "root_hex K p = Some root" and "0 < length ct" and "length ct \<le> 64 * 1024 * 1024"
    and "honest_gateway K H (trim_end_matches CHR ''/'' base) p root ct wire lens"
    and "verify_and_decrypt K p ct wire root lens = Inr b"
  shows "fst (rpc_fetch K H base p h) =
    Inr \<lparr>f_data = resolved_data_new b (derive (resource_key K p) b), f_root = Some root,
         f_artifacts = Some \<lparr>da_ciphertext = ct, da_proof_b64 = wire, da_chunk_lens = lens\<rparr>\<rparr>"
proof -
  have "length ct \<le> 67108864" using assms(4) by simp
  from window_loop_honest [OF assms(1,3) this assms(5), of 0 h] assms(3)
  obtain st h' where "window_loop K H (trim_end_matches CHR ''/'' base) p root window_start h = (Inr st, h')"
    and "w_buf st = ct" "w_proof st = wire" "w_chunk_lens st = lens"
    by (auto simp: window_state_at_0)
  with assms(2,6) show ?thesis by (simp add: rpc_fetch_def trusted_root_def)
qed

lemma rpc_fetch_reassembles_witness:
  "\<exists>f. fst (rpc_fetch demo_crates (demo_host (net_gateway demo_gateway)) ''https://rpc.dig.net'' demo_urn_r [])
      = Inr f \<and> rd_bytes (f_data f) = [1, 2]"
  using rpc_fetch_reassembles [OF demo_b64 demo_root_r _ _ demo_honest_gateway demo_verified,
      of "''https://rpc.dig.net''" "[]"] by simp

lemma demo_fetch_ok:
  "\<exists>f h'. rpc_fetch demo_crates (demo_host (net_gateway demo_gateway)) ''https://rpc.dig.net'' demo_urn_r h
     = (Inr f, h') \<and> rd_bytes (f_data f) = [1, 2] \<and> f_root f = Some ''bb'' \<and>
     f_artifacts f = Some \<lparr>da_ciphertext = [0, 1, 2], da_proof_b64 = demo_b64_encode [0xBB, 0, 1, 2],
                           da_chunk_lens = []\<rparr>"
proof -
  have b: "trim_end_matches CHR ''/'' ''https://rpc.dig.net'' = ''https://rpc.dig.net''"
    by (rule trim_end_matches_id) simp
  from window_loop_honest [OF demo_b64 _ _ demo_honest_gateway, of 0 "''https://rpc.dig.net''" h]
  obtain st h' where "window_loop demo_crates (demo_host (net_gateway demo_gateway)) ''https://rpc.dig.net''
      demo_urn_r ''bb'' window_start h = (Inr st, h')"
    and "w_buf st = [0, 1, 2]" "w_proof st = demo_b64_encode [0xBB, 0, 1, 2]" "w_chunk_lens st = []"
    by (auto simp: window_state_at_0)
  then show ?thesis by (simp add: rpc_fetch_def trusted_root_def demo_root_r b demo_verified)
qed

text \<open>
  C7. The gateway tier trusts no one: whatever the gateway answers, a successful fetch means that
  the URN pins a root, that the proof folds to that root over exactly the ciphertext received,
  and that the bytes are what the ciphertext opens to under the URN's key.
\<close>

theorem rpc_fetch_authentic:
  assumes "gate_contract K" and "decrypt_contract K" and "rpc_fetch K H base p h = (Inr f, h')"
  shows "\<exists>root a. root_hex K p = Some root \<and> f_root f = Some root \<and> f_artifacts f = Some a \<and>
    included_under K (da_ciphertext a) (da_proof_b64 a) root \<and>
    opens_as K p (da_ciphertext a) (rd_bytes (f_data f))"
  using assms(3)
proof (rule rpc_fetch_InrD)
  fix root st
  assume "root_hex K p = Some root" and "f_root f = Some root"
    and gate: "verify_and_decrypt K p (w_buf st) (w_proof st) root (w_chunk_lens st) = Inr (rd_bytes (f_data f))"
    and "f_artifacts f = Some \<lparr>da_ciphertext = w_buf st, da_proof_b64 = w_proof st,
                              da_chunk_lens = w_chunk_lens st\<rparr>"
  then show ?thesis
    using verify_and_decrypt_included [OF assms(1) gate] verify_and_decrypt_opens [OF assms(2) gate] by simp
qed

lemma rpc_fetch_authentic_witness:
  "\<exists>f a. fst (rpc_fetch demo_crates (demo_host (net_gateway demo_gateway)) ''https://rpc.dig.net'' demo_urn_r [])
      = Inr f \<and> f_artifacts f = Some a \<and> included_under demo_crates (da_ciphertext a) (da_proof_b64 a) ''bb''"
proof -
  obtain f h' where ok: "rpc_fetch demo_crates (demo_host (net_gateway demo_gateway))
      ''https://rpc.dig.net'' demo_urn_r [] = (Inr f, h')"
    using demo_fetch_ok by blast
  from rpc_fetch_authentic [OF demo_gate demo_decrypt ok] demo_root_r ok show ?thesis by auto
qed

text \<open>
  C10. A gateway cannot keep a client busy: whatever it answers, one fetch makes at most 37
  requests, all of them the window request for the pinned root, the first at offset 0 and every
  next one at a strictly larger offset; a rootless URN makes none and is refused.
\<close>

theorem rpc_fetch_requests_bounded:
  "case root_hex K p of
     None \<Rightarrow> rpc_fetch K H base p h = (Inl RootRequired, h)
   | Some root \<Rightarrow>
      (\<exists>offs. snd (rpc_fetch K H base p h)
            = h @ map (window_request K (trim_end_matches CHR ''/'' base) p root) offs
          \<and> length offs \<le> 37 \<and> sorted_wrt (<) offs \<and> hd offs = 0 \<and> offs \<noteq> [])"
proof (cases "root_hex K p")
  case None
  then show ?thesis by (simp add: rpc_fetch_def trusted_root_def)
next
  case (Some root)
  let ?b = "trim_end_matches CHR ''/'' base"
  obtain r h1 where loop: "window_loop K H ?b p root window_start h = (r, h1)" by fastforce
  from window_loop_requests [OF loop] obtain offs
    where offs: "h1 = h @ map (window_request K ?b p root) offs" "offsets_ok window_start offs" by blast
  have "h1 \<noteq> h" using window_loop_asks [OF loop] by (simp add: window_start_def MAX_WINDOWS_nat)
  then have "offs \<noteq> []" using offs(1) by auto
  moreover have "snd (rpc_fetch K H base p h) = h1"
    using loop Some by (auto simp: rpc_fetch_def trusted_root_def split: sum.splits)
  ultimately show ?thesis
    using Some offs by (auto simp: offsets_ok_def window_start_def MAX_WINDOWS_nat)
qed

lemma absorb_window_keeps_total:
  "absorb_window K r st = Inr st' \<Longrightarrow> w_total st = Some t \<Longrightarrow> w_total st' = Some t"
  by (auto simp: absorb_window_def window_total_def split: sum.splits)

lemma one_window_keeps_total:
  assumes "one_window K H base p root st h = (Inr (st', nxt), h')" and "w_total st = Some t"
  shows "w_total st' = Some t" and "nxt = Some st'' \<Longrightarrow> w_total st'' = Some t"
proof -
  from assms(1) obtain r where r: "absorb_window K r st = Inr st'" "advance r st' = Inr nxt"
    by (auto simp: one_window_def split: prod.splits sum.splits)
  show total: "w_total st' = Some t" by (rule absorb_window_keeps_total [OF r(1) assms(2)])
  show "nxt = Some st'' \<Longrightarrow> w_total st'' = Some t"
    using total r(2) advance_SomeD(4) [of r st' st''] by simp
qed

lemma window_loop_keeps_total:
  assumes "window_loop K H base p root st h = (r, h')"
  shows "w_total st = Some t \<Longrightarrow> r = Inr st' \<Longrightarrow> w_total st' = Some t"
  using assms
proof (induction arbitrary: st' rule: window_loop_induct)
  case (complete st h st2 h1)
  have "w_total st2 = Some t" by (rule one_window_keeps_total(1) [OF complete(2)]) (simp add: complete(3))
  with complete(4) show ?case by simp
next
  case (more st h st2 st'' h1 r h')
  have "w_total st'' = Some t" by (rule one_window_keeps_total(2) [OF more(2) _ refl]) (simp add: more(4))
  from more(3) [OF this more(5)] show ?case .
qed simp_all

text \<open>The total the loop ends with is the one the gateway declared in its first answer.\<close>

lemma window_loop_first_total:
  assumes "window_loop K H base p root window_start h = (Inr st, h')"
  shows "\<exists>r. fst (rpc_call K H (sj_get_content K) base ''dig.getContent'' (window_params K p root 0) h) = Inr r \<and>
    w_total st = Some (gc_total_length r)"
proof -
  let ?st = "window_start\<lparr>w_windows := Suc 0\<rparr>"
  have fresh: "w_total ?st = None" "w_offset ?st = 0" by (simp_all add: window_start_def)
  have step: "window_loop K H base p root window_start h =
      (case one_window K H base p root ?st h of
         (Inl e, h') \<Rightarrow> (Inl e, h')
       | (Inr (st', None), h') \<Rightarrow> (Inr st', h')
       | (Inr (st', Some st''), h') \<Rightarrow> window_loop K H base p root st'' h')"
    by (subst window_loop.simps) (simp add: window_start_def MAX_WINDOWS_nat)
  from assms obtain st1 nxt h1 where one: "one_window K H base p root ?st h = (Inr (st1, nxt), h1)"
    unfolding step by (auto split: prod.splits sum.splits)
  then obtain r where call: "fst (rpc_call K H (sj_get_content K) base ''dig.getContent'' (window_params K p root 0) h) = Inr r"
      and absorb: "absorb_window K r ?st = Inr st1" and adv: "advance r st1 = Inr nxt"
    by (auto simp: one_window_def fresh split: prod.splits sum.splits)
  have first: "w_total st1 = Some (gc_total_length r)"
    using absorb fresh(1) by (auto simp: absorb_window_def window_total_def split: sum.splits if_splits)
  have "w_total st = Some (gc_total_length r)"
  proof (cases nxt)
    case None
    with assms one first show ?thesis unfolding step by simp
  next
    case (Some st2)
    with assms one have loop: "window_loop K H base p root st2 h1 = (Inr st, h')" unfolding step by simp
    from adv first Some have "w_total st2 = Some (gc_total_length r)" using advance_SomeD(4) by fastforce
    from window_loop_keeps_total [OF loop this refl] show ?thesis .
  qed
  with call show ?thesis by blast
qed

text \<open>
  C15. A gateway cannot make a client hold more than it declared: the total length in its first answer,
  to the window request at offset 0, is at least 1 byte and at most 64 MiB, and the ciphertext
  assembled from all windows is no longer than that total, whatever later answers declare.
\<close>

theorem rpc_fetch_size_bounded:
  assumes "rpc_fetch K H base p h = (Inr f, h')"
  shows "\<exists>root r a. root_hex K p = Some root \<and> f_artifacts f = Some a \<and>
    fst (rpc_call K H (sj_get_content K) (trim_end_matches CHR ''/'' base) ''dig.getContent''
      (window_params K p root 0) h) = Inr r \<and>
    0 < unat (gc_total_length r) \<and> unat (gc_total_length r) \<le> 64 * 1024 * 1024 \<and>
    length (da_ciphertext a) \<le> unat (gc_total_length r)"
  using assms
proof (rule rpc_fetch_InrD)
  fix root st
  assume root: "root_hex K p = Some root"
    and loop: "window_loop K H (trim_end_matches CHR ''/'' base) p root window_start h = (Inr st, h')"
    and art: "f_artifacts f = Some \<lparr>da_ciphertext = w_buf st, da_proof_b64 = w_proof st,
                                    da_chunk_lens = w_chunk_lens st\<rparr>"
  have "window_bounded window_start" by (simp add: window_bounded_def window_start_def)
  from window_loop_bounded [OF loop this refl] obtain t where t: "w_total st = Some t"
    "0 < t" "t \<le> MAX_RESOURCE_BYTES" "length (w_buf st) \<le> unat t"
    by (auto simp: window_bounded_def)
  from t(2,3) have "0 < unat t" "unat t \<le> 67108864" by (simp_all add: word_le_nat_alt word_less_nat_alt)
  with t art root window_loop_first_total [OF loop] show ?thesis by auto
qed

lemma rpc_fetch_size_bounded_witness:
  "\<exists>f a (r :: get_content). fst (rpc_fetch demo_crates (demo_host (net_gateway demo_gateway)) ''https://rpc.dig.net'' demo_urn_r [])
      = Inr f \<and> f_artifacts f = Some a \<and> length (da_ciphertext a) \<le> unat (gc_total_length r) \<and>
      unat (gc_total_length r) \<le> 64 * 1024 * 1024"
proof -
  obtain f h' where ok: "rpc_fetch demo_crates (demo_host (net_gateway demo_gateway))
      ''https://rpc.dig.net'' demo_urn_r [] = (Inr f, h')"
    using demo_fetch_ok by blast
  have "fst (rpc_fetch demo_crates (demo_host (net_gateway demo_gateway)) ''https://rpc.dig.net'' demo_urn_r []) = Inr f"
    using ok by simp
  with rpc_fetch_size_bounded [OF ok] show ?thesis by blast
qed

text \<open>
  Unreachable and refused are kept apart: a call reports a transport failure exactly when the
  request failed or came back with a status that is not a success; every other failure of a call,
  from malformed JSON and error objects to a missing or misshapen result, is an rpc error.
\<close>

theorem rpc_call_error_kinds:
  "((\<exists>m. fst (rpc_call K H fv base method params h) = Inl (Transport m)) \<longleftrightarrow>
      (case transport H h (HttpPost base (rpc_body K method params)) of
         Inl e \<Rightarrow> True | Inr resp \<Rightarrow> \<not> is_success resp))
   \<and> (case fst (rpc_call K H fv base method params h) of
        Inr r \<Rightarrow> True | Inl e \<Rightarrow> (\<exists>m. e = Transport m \<or> e = Rpc m))"
  by (auto simp: rpc_call_eq rpc_result_def Let_def
      split: sum.splits option.splits transport_error.splits)

end
