(* ===== verification/DiskCache.thy ===== *)
theory DiskCache
  imports Demo
begin

text \<open>
  The disk half of \<open>src/src/cache.rs\<close> and the seam \<open>src/src/node_fs.rs\<close> under its wasm backend.
  The files live in the history: an operation reads or writes by an event, and what a read
  returns is the host's business.  \<open>artifact_store\<close> is the contract both backends share, under the
  documented behaviour of the file system and of the envelope; it is interpreted on the native
  backend, on the Node backend and on the backend the build features select.
\<close>

section \<open>Injecting Node's \<open>fs\<close>\<close>

text \<open>What \<open>Reflect::get\<close> finds under a name: it throws, or finds a function, or something else.\<close>

datatype js_property = JsThrows | JsFunction js_function | JsNotFunction

fun js_method :: "js_property \<Rightarrow> js_function option" where
  "js_method (JsFunction f) = Some f"
| "js_method _ = None"

definition set_node_fs :: "(string \<Rightarrow> js_property) \<Rightarrow> node_fs option \<Rightarrow> node_fs option" where
  "set_node_fs fs slot =
     (case (js_method (fs ''readFileSync''), js_method (fs ''writeFileSync''),
            js_method (fs ''mkdirSync''), js_method (fs ''unlinkSync'')) of
        (Some r, Some w, Some m, Some u) \<Rightarrow>
          Some \<lparr>read_file_sync = r, write_file_sync = w, mkdir_sync = m, unlink_sync = u\<rparr>
      | _ \<Rightarrow> slot)"

definition is_available :: "node_fs option \<Rightarrow> bool" where
  "is_available slot \<longleftrightarrow> slot \<noteq> None"

definition mkdir_all :: "node_fs option \<Rightarrow> string \<Rightarrow> history \<Rightarrow> history" where
  "mkdir_all slot dir h = (case slot of Some fs \<Rightarrow> h @ [FsMkdir dir] | None \<Rightarrow> h)"

definition read_file :: "node_fs option \<Rightarrow> string \<Rightarrow> history \<Rightarrow> bytes option \<times> history" where
  "read_file slot path h =
     (case slot of
        None \<Rightarrow> (None, h)
      | Some fs \<Rightarrow>
          (case read_file_sync fs h path of
             Some (JsUint8Array b) \<Rightarrow> Some b
           | Some JsOther \<Rightarrow> None
           | None \<Rightarrow> None, h @ [FsRead path]))"

definition write_file :: "node_fs option \<Rightarrow> string \<Rightarrow> bytes \<Rightarrow> history \<Rightarrow> history" where
  "write_file slot path b h = (case slot of Some fs \<Rightarrow> h @ [FsWrite path b] | None \<Rightarrow> h)"

definition remove_file :: "node_fs option \<Rightarrow> string \<Rightarrow> history \<Rightarrow> history" where
  "remove_file slot path h = (case slot of Some fs \<Rightarrow> h @ [FsRemove path] | None \<Rightarrow> h)"

lemmas node_fs_defs = mkdir_all_def read_file_def write_file_def remove_file_def

section \<open>The native backend\<close>

text \<open>\<open>PathBuf::join\<close> on a Unix path.\<close>

definition path_join :: "string \<Rightarrow> string \<Rightarrow> string" where
  "path_join dir name =
     (if take 1 name = ''/'' then name
      else if dir = [] \<or> last dir = CHR ''/'' then dir @ name
      else dir @ ''/'' @ name)"

definition cache_file_name :: "('u, 'm) crates \<Rightarrow> string \<Rightarrow> string" where
  "cache_file_name K i = dc_sha256_hex K (str_bytes i) @ ''.json''"

definition native_new :: "string \<Rightarrow> history \<Rightarrow> string \<times> history" where
  "native_new dir h = (dir, h @ [FsMkdir dir])"

definition native_path :: "('u, 'm) crates \<Rightarrow> string \<Rightarrow> string \<Rightarrow> string" where
  "native_path K dir i = path_join dir (cache_file_name K i)"

definition native_get ::
    "('u, 'm) crates \<Rightarrow> host \<Rightarrow> string \<Rightarrow> string \<Rightarrow> history \<Rightarrow> disk_artifacts option \<times> history" where
  "native_get K H dir i h =
     (case fs_read H h (native_path K dir i) of
        None \<Rightarrow> None
      | Some raw \<Rightarrow> sj_artifacts_from_slice K raw, h @ [FsRead (native_path K dir i)])"

definition native_put ::
    "('u, 'm) crates \<Rightarrow> host \<Rightarrow> string \<Rightarrow> string \<Rightarrow> disk_artifacts \<Rightarrow> history \<Rightarrow> history" where
  "native_put K H dir i a h =
     (case sj_artifacts_to_vec K a of
        Some b \<Rightarrow> h @ [FsWrite (native_path K dir i) b]
      | None \<Rightarrow> h)"

definition native_remove :: "('u, 'm) crates \<Rightarrow> host \<Rightarrow> string \<Rightarrow> string \<Rightarrow> history \<Rightarrow> history" where
  "native_remove K H dir i h = h @ [FsRemove (native_path K dir i)]"

section \<open>The Node backend\<close>

definition wasm_new :: "host \<Rightarrow> string \<Rightarrow> history \<Rightarrow> string \<times> history" where
  "wasm_new H dir h =
     (let d = trim_end_matches CHR ''/'' dir in (d, mkdir_all (injected_fs H) d h))"

definition wasm_path :: "('u, 'm) crates \<Rightarrow> string \<Rightarrow> string \<Rightarrow> string" where
  "wasm_path K dir i = dir @ ''/'' @ dc_sha256_hex K (str_bytes i) @ ''.json''"

definition wasm_get ::
    "('u, 'm) crates \<Rightarrow> host \<Rightarrow> string \<Rightarrow> string \<Rightarrow> history \<Rightarrow> disk_artifacts option \<times> history" where
  "wasm_get K H dir i h =
     (case read_file (injected_fs H) (wasm_path K dir i) h of
        (None, h') \<Rightarrow> (None, h')
      | (Some raw, h') \<Rightarrow> (sj_artifacts_from_slice K raw, h'))"

definition wasm_put ::
    "('u, 'm) crates \<Rightarrow> host \<Rightarrow> string \<Rightarrow> string \<Rightarrow> disk_artifacts \<Rightarrow> history \<Rightarrow> history" where
  "wasm_put K H dir i a h =
     (case sj_artifacts_to_vec K a of
        Some b \<Rightarrow> write_file (injected_fs H) (wasm_path K dir i) b h
      | None \<Rightarrow> h)"

definition wasm_remove :: "('u, 'm) crates \<Rightarrow> host \<Rightarrow> string \<Rightarrow> string \<Rightarrow> history \<Rightarrow> history" where
  "wasm_remove K H dir i h = remove_file (injected_fs H) (wasm_path K dir i) h"

section \<open>The backend of a build\<close>

text \<open>\<open>cache::DiskCache\<close> is re-exported by feature; without either feature there is none.\<close>

definition has_disk :: "host \<Rightarrow> bool" where
  "has_disk H \<longleftrightarrow> feature_native H \<or> feature_wasm H"

definition disk_new :: "host \<Rightarrow> string \<Rightarrow> history \<Rightarrow> string \<times> history" where
  "disk_new H dir h = (if feature_native H then native_new dir h else wasm_new H dir h)"

definition disk_path :: "('u, 'm) crates \<Rightarrow> host \<Rightarrow> string \<Rightarrow> string \<Rightarrow> string" where
  "disk_path K H dir i = (if feature_native H then native_path K dir i else wasm_path K dir i)"

definition disk_get ::
    "('u, 'm) crates \<Rightarrow> host \<Rightarrow> string \<Rightarrow> string \<Rightarrow> history \<Rightarrow> disk_artifacts option \<times> history" where
  "disk_get K H dir i h = (if feature_native H then native_get K H dir i h else wasm_get K H dir i h)"

definition disk_put ::
    "('u, 'm) crates \<Rightarrow> host \<Rightarrow> string \<Rightarrow> string \<Rightarrow> disk_artifacts \<Rightarrow> history \<Rightarrow> history" where
  "disk_put K H dir i a h = (if feature_native H then native_put K H dir i a h else wasm_put K H dir i a h)"

definition disk_remove :: "('u, 'm) crates \<Rightarrow> host \<Rightarrow> string \<Rightarrow> string \<Rightarrow> history \<Rightarrow> history" where
  "disk_remove K H dir i h = (if feature_native H then native_remove K H dir i h else wasm_remove K H dir i h)"

lemmas native_defs = native_new_def native_get_def native_put_def native_remove_def
lemmas wasm_defs = wasm_new_def wasm_get_def wasm_put_def wasm_remove_def
lemmas disk_defs = disk_new_def disk_path_def disk_get_def disk_put_def disk_remove_def

section \<open>The contract\<close>

definition touches :: "string \<Rightarrow> event \<Rightarrow> bool" where
  "touches p e \<longleftrightarrow> (\<exists>b. e = FsWrite p b) \<or> e = FsRemove p"

text \<open>
  \<open>ok K H\<close> is the documented behaviour of the outside world the laws on values need; the laws on
  events need none.
\<close>

locale artifact_store =
  fixes path :: "('u, 'm) crates \<Rightarrow> host \<Rightarrow> string \<Rightarrow> string \<Rightarrow> string"
    and get :: "('u, 'm) crates \<Rightarrow> host \<Rightarrow> string \<Rightarrow> string \<Rightarrow> history \<Rightarrow> disk_artifacts option \<times> history"
    and put :: "('u, 'm) crates \<Rightarrow> host \<Rightarrow> string \<Rightarrow> string \<Rightarrow> disk_artifacts \<Rightarrow> history \<Rightarrow> history"
    and remove :: "('u, 'm) crates \<Rightarrow> host \<Rightarrow> string \<Rightarrow> string \<Rightarrow> history \<Rightarrow> history"
    and ok :: "('u, 'm) crates \<Rightarrow> host \<Rightarrow> bool"
  assumes get_events: "grows (\<lambda>e. e = FsRead (path K H d i)) h (snd (get K H d i h))"
    and put_events: "grows (\<lambda>e. \<exists>b. e = FsWrite (path K H d i) b) h (put K H d i a h)"
    and remove_events: "grows (\<lambda>e. e = FsRemove (path K H d i)) h (remove K H d i h)"
    and get_value: "ok K H \<Longrightarrow> fst (get K H d i h) =
          Option.bind (files_after h (path K H d i)) (sj_artifacts_from_slice K)"
    and put_value: "ok K H \<Longrightarrow> \<exists>b. sj_artifacts_from_slice K b = Some a \<and>
          put K H d i a h = h @ [FsWrite (path K H d i) b]"
    and remove_value: "ok K H \<Longrightarrow> remove K H d i h = h @ [FsRemove (path K H d i)]"
begin

text \<open>What was put is got back, whatever happens in between to other paths.\<close>

lemma get_after_put:
  assumes "ok K H" and "grows (\<lambda>e. \<not> touches (path K H d i) e) (put K H d i a h) h'"
  shows "fst (get K H d i h') = Some a"
proof -
  obtain b where b: "sj_artifacts_from_slice K b = Some a"
    and put: "put K H d i a h = h @ [FsWrite (path K H d i) b]"
    using put_value [OF assms(1)] by blast
  have "files_after h' (path K H d i) = files_after (h @ [FsWrite (path K H d i) b]) (path K H d i)"
    using assms(2) unfolding put by (rule files_after_grows) (auto simp: touches_def)
  with b show ?thesis by (simp add: get_value [OF assms(1)])
qed

lemma get_after_remove:
  assumes "ok K H" and "grows (\<lambda>e. \<not> touches (path K H d i) e) (remove K H d i h) h'"
  shows "fst (get K H d i h') = None"
proof -
  have "files_after h' (path K H d i) = files_after (h @ [FsRemove (path K H d i)]) (path K H d i)"
    using assms(2) unfolding remove_value [OF assms(1)]
    by (rule files_after_grows) (auto simp: touches_def)
  then show ?thesis by (simp add: get_value [OF assms(1)])
qed

text \<open>No operation of the store is a request, and looking changes no file.\<close>

lemma no_http:
  "grows (\<lambda>e. \<not> is_http e) h (snd (get K H d i h))"
  "grows (\<lambda>e. \<not> is_http e) h (put K H d i a h)"
  "grows (\<lambda>e. \<not> is_http e) h (remove K H d i h)"
  by (rule grows_mono [OF get_events], force) (rule grows_mono [OF put_events], force,
      rule grows_mono [OF remove_events], force)

lemma get_no_write: "grows (\<lambda>e. \<not> is_write e) h (snd (get K H d i h))"
  by (rule grows_mono [OF get_events]) auto

lemma remove_no_write: "grows (\<lambda>e. \<not> is_write e) h (remove K H d i h)"
  by (rule grows_mono [OF remove_events]) auto

end

section \<open>The three providers\<close>

definition native_ok :: "('u, 'm) crates \<Rightarrow> host \<Rightarrow> bool" where
  "native_ok K H \<longleftrightarrow> honest_fs H \<and> envelope_roundtrip K"

definition node_ok :: "('u, 'm) crates \<Rightarrow> host \<Rightarrow> bool" where
  "node_ok K H \<longleftrightarrow> (case injected_fs H of Some f \<Rightarrow> honest_node_fs f | None \<Rightarrow> False) \<and> envelope_roundtrip K"

definition disk_ok :: "('u, 'm) crates \<Rightarrow> host \<Rightarrow> bool" where
  "disk_ok K H \<longleftrightarrow> (if feature_native H then native_ok K H else node_ok K H)"

interpretation native_store: artifact_store "\<lambda>K H. native_path K" native_get native_put native_remove native_ok
proof unfold_locales
  fix K :: "('a, 'b) crates" and H :: host and d i h a
  show "native_ok K H \<Longrightarrow> \<exists>b. sj_artifacts_from_slice K b = Some a \<and>
      native_put K H d i a h = h @ [FsWrite (native_path K d i) b]"
    unfolding native_ok_def envelope_roundtrip_def native_put_def
    by (metis option.simps(5))
qed (auto simp: native_defs native_ok_def honest_fs_def split: option.splits)

interpretation node_store: artifact_store "\<lambda>K H. wasm_path K" wasm_get wasm_put wasm_remove node_ok
proof unfold_locales
  fix K :: "('a, 'b) crates" and H :: host and d i h a
  show "node_ok K H \<Longrightarrow> \<exists>b. sj_artifacts_from_slice K b = Some a \<and>
      wasm_put K H d i a h = h @ [FsWrite (wasm_path K d i) b]"
    by (auto simp: node_ok_def envelope_roundtrip_def wasm_put_def write_file_def split: option.splits)
      (metis option.inject option.simps(3))
  show "node_ok K H \<Longrightarrow> fst (wasm_get K H d i h) =
      Option.bind (files_after h (wasm_path K d i)) (sj_artifacts_from_slice K)"
    by (auto simp: node_ok_def wasm_get_def read_file_def honest_node_fs_def
        split: option.splits prod.splits)
  show "node_ok K H \<Longrightarrow> wasm_remove K H d i h = h @ [FsRemove (wasm_path K d i)]"
    by (auto simp: node_ok_def wasm_defs node_fs_defs split: option.splits)
qed (auto simp: wasm_defs node_fs_defs split: option.splits prod.splits)

interpretation disk: artifact_store disk_path disk_get disk_put disk_remove disk_ok
proof unfold_locales
  fix K :: "('a, 'b) crates" and H :: host and d i h a
  show "grows (\<lambda>e. e = FsRead (disk_path K H d i)) h (snd (disk_get K H d i h))"
    by (simp add: disk_defs native_store.get_events node_store.get_events)
  show "grows (\<lambda>e. \<exists>b. e = FsWrite (disk_path K H d i) b) h (disk_put K H d i a h)"
    by (simp add: disk_defs native_store.put_events node_store.put_events)
  show "grows (\<lambda>e. e = FsRemove (disk_path K H d i)) h (disk_remove K H d i h)"
    by (simp add: disk_defs native_store.remove_events node_store.remove_events)
  show "disk_ok K H \<Longrightarrow> fst (disk_get K H d i h) =
      Option.bind (files_after h (disk_path K H d i)) (sj_artifacts_from_slice K)"
    by (simp add: disk_defs disk_ok_def native_store.get_value node_store.get_value)
  show "disk_ok K H \<Longrightarrow> \<exists>b. sj_artifacts_from_slice K b = Some a \<and>
      disk_put K H d i a h = h @ [FsWrite (disk_path K H d i) b]"
    by (simp add: disk_defs disk_ok_def native_store.put_value node_store.put_value)
  show "disk_ok K H \<Longrightarrow> disk_remove K H d i h = h @ [FsRemove (disk_path K H d i)]"
    by (simp add: disk_defs disk_ok_def native_store.remove_value node_store.remove_value)
qed

section \<open>File names\<close>

definition name_char :: "char \<Rightarrow> bool" where
  "name_char c \<longleftrightarrow> is_hex_digit c \<or> c \<in> set ''.json''"

lemma cache_file_name_chars:
  assumes "sha256_hex_format K"
  shows "length (cache_file_name K i) = 69" and "list_all name_char (cache_file_name K i)"
proof -
  let ?d = "dc_sha256_hex K (str_bytes i)"
  have len: "length ?d = 64" and hex: "list_all is_hex_digit ?d"
    using assms unfolding sha256_hex_format_def by blast+
  show "length (cache_file_name K i) = 69" using len by (simp add: cache_file_name_def)
  have "list_all name_char ?d" using hex by (rule list.pred_mono_strong) (simp add: name_char_def)
  then show "list_all name_char (cache_file_name K i)"
    by (simp add: cache_file_name_def) (simp add: name_char_def)
qed

lemma cache_file_name_no_slash:
  assumes "sha256_hex_format K"
  shows "CHR ''/'' \<notin> set (cache_file_name K i)" and "take 1 (cache_file_name K i) \<noteq> ''/''"
proof -
  have "\<not> name_char (CHR ''/'')" by (simp add: name_char_def is_hex_digit_def)
  then show "CHR ''/'' \<notin> set (cache_file_name K i)"
    using cache_file_name_chars(2) [OF assms, of i] unfolding list_all_iff by blast
  then show "take 1 (cache_file_name K i) \<noteq> ''/''"
    by (cases "cache_file_name K i") auto
qed

definition dir_prefix :: "host \<Rightarrow> string \<Rightarrow> string" where
  "dir_prefix H dir =
     (if feature_native H \<and> (dir = [] \<or> last dir = CHR ''/'') then dir else dir @ ''/'')"

lemma disk_path_prefix:
  assumes "sha256_hex_format K"
  shows "disk_path K H dir i = dir_prefix H dir @ cache_file_name K i"
  using cache_file_name_no_slash(2) [OF assms]
  by (simp add: disk_defs native_path_def path_join_def wasm_path_def dir_prefix_def cache_file_name_def)

lemma wasm_new_dir: "fst (wasm_new H dir h) = trim_end_matches CHR ''/'' dir"
  by (simp add: wasm_new_def Let_def)

lemma backends_same_path:
  assumes "sha256_hex_format K" and "dir \<noteq> []" and "\<not> suffix ''//'' dir"
  shows "native_path K dir i = wasm_path K (fst (wasm_new H dir h)) i"
proof (cases "last dir = CHR ''/''")
  case False
  with assms cache_file_name_no_slash(2) [OF assms(1)] show ?thesis
    by (simp add: native_path_def path_join_def wasm_path_def cache_file_name_def wasm_new_dir
        trim_end_matches_id)
next
  case True
  with assms(2) obtain d where d: "dir = d @ ''/''" by (metis append_butlast_last_id)
  have "d = [] \<or> last d \<noteq> CHR ''/''"
  proof (rule ccontr)
    assume "\<not> (d = [] \<or> last d \<noteq> CHR ''/'')"
    then obtain e where "d = e @ ''/''" by (metis append_butlast_last_id)
    with d assms(3) show False by (simp add: suffix_def)
  qed
  then have "trim_end_matches CHR ''/'' dir = d"
    using trim_end_matches_id [of d "CHR ''/''"] by (simp add: d trim_end_matches_def)
  with cache_file_name_no_slash(2) [OF assms(1)] show ?thesis
    by (simp add: native_path_def path_join_def wasm_path_def cache_file_name_def wasm_new_dir d)
qed

section \<open>The properties of the disk cache\<close>

text \<open>
  C27. The disk cache is a store: with an honest file system and an envelope that reads back what
  it wrote, an identity's artifacts are found again, by this run or a later one, whatever happens
  in between to other files, and after a removal they are gone.
\<close>

theorem disk_cache_roundtrip:
  assumes "disk_ok K H"
  shows "(grows (\<lambda>e. \<not> touches (disk_path K H dir i) e) (disk_put K H dir i a h) h' \<longrightarrow>
            fst (disk_get K H dir i h') = Some a)
       \<and> (grows (\<lambda>e. \<not> touches (disk_path K H dir i) e) (disk_remove K H dir i h) h' \<longrightarrow>
            fst (disk_get K H dir i h') = None)"
  using disk.get_after_put [OF assms] disk.get_after_remove [OF assms] by blast

lemma disk_cache_roundtrip_witness:
  "fst (disk_get demo_crates (demo_host net_down) ''/tmp'' ''aa:bb:x:''
     (disk_put demo_crates (demo_host net_down) ''/tmp'' ''aa:bb:x:''
        \<lparr>da_ciphertext = [0, 1], da_proof_b64 = ''pp'', da_chunk_lens = [2]\<rparr> [HttpGet ''u''])) \<noteq> None"
proof -
  have "disk_ok demo_crates (demo_host net_down)"
    by (simp add: disk_ok_def native_ok_def demo_honest demo_envelope) (simp add: demo_host_def)
  from disk_cache_roundtrip [OF this] show ?thesis by (metis grows_refl option.distinct(1))
qed

text \<open>
  C28. No URN reaches a file outside the cache directory: with SHA-256 digests in hex, every path
  the cache uses is the directory, fixed when the cache was opened, followed by one file name of
  69 characters without a slash.  Every event of the three operations is on that path.
\<close>

theorem disk_cache_no_traversal:
  assumes "sha256_hex_format K"
  shows "\<exists>name. disk_path K H dir i = dir_prefix H dir @ name \<and> length name = 69
            \<and> CHR ''/'' \<notin> set name
       \<and> grows (\<lambda>e. e = FsRead (dir_prefix H dir @ name)) h (snd (disk_get K H dir i h))
       \<and> grows (\<lambda>e. \<exists>b. e = FsWrite (dir_prefix H dir @ name) b) h (disk_put K H dir i a h)
       \<and> grows (\<lambda>e. e = FsRemove (dir_prefix H dir @ name)) h (disk_remove K H dir i h)"
  using cache_file_name_chars(1) [OF assms, of i] cache_file_name_no_slash(1) [OF assms, of i]
    disk.get_events [of K H dir i h]
    disk.put_events [of K H dir i h a] disk.remove_events [of K H dir i h]
  unfolding disk_path_prefix [OF assms] by blast

lemma disk_cache_no_traversal_witness:
  "\<exists>name. disk_path demo_crates (demo_host net_down) ''/tmp'' ''../../etc/passwd''
     = ''/tmp/'' @ name \<and> length name = 69"
proof -
  from disk_cache_no_traversal [OF demo_sha, of "demo_host net_down" "''/tmp''" "''../../etc/passwd''"]
  obtain name where "disk_path demo_crates (demo_host net_down) ''/tmp'' ''../../etc/passwd''
      = dir_prefix (demo_host net_down) ''/tmp'' @ name" and "length name = 69"
    by blast
  then show ?thesis by (auto simp: dir_prefix_def)
qed

text \<open>
  C29. The two backends are interchangeable: for every directory but the empty string, the root and one
  trailing slash included, that does not end in two slashes, the native and the Node backend write the
  same bytes to the same path, and each reads what the other wrote.
\<close>

theorem disk_backends_interchangeable:
  assumes "sha256_hex_format K" and "dir \<noteq> []" and "\<not> suffix ''//'' dir"
    and "native_ok K H" and "node_ok K H'"
  shows "native_put K H dir i a h = wasm_put K H' (fst (wasm_new H' dir h0)) i a h
    \<and> native_get K H dir i h = wasm_get K H' (fst (wasm_new H' dir h0)) i h
    \<and> native_remove K H dir i h = wasm_remove K H' (fst (wasm_new H' dir h0)) i h"
proof -
  let ?d = "fst (wasm_new H' dir h0)"
  have p: "wasm_path K ?d i = native_path K dir i"
    using backends_same_path [OF assms(1-3), of i H' h0] by simp
  have "native_get K H dir i h = wasm_get K H' ?d i h"
  proof (rule prod_eqI)
    show "fst (native_get K H dir i h) = fst (wasm_get K H' ?d i h)"
      using native_store.get_value [OF assms(4), of dir i h] node_store.get_value [OF assms(5), of ?d i h]
      by (simp add: p)
    show "snd (native_get K H dir i h) = snd (wasm_get K H' ?d i h)"
      using assms(5) by (auto simp: native_get_def wasm_get_def read_file_def p node_ok_def
          split: option.splits prod.splits)
  qed
  moreover have "native_put K H dir i a h = wasm_put K H' ?d i a h"
    using assms(5) by (auto simp: native_put_def wasm_put_def write_file_def p node_ok_def
        split: option.splits)
  moreover have "native_remove K H dir i h = wasm_remove K H' ?d i h"
    using native_store.remove_value [OF assms(4), of dir i h] node_store.remove_value [OF assms(5), of ?d i h]
    by (simp add: p)
  ultimately show ?thesis by simp
qed

definition demo_node_fs :: node_fs where
  "demo_node_fs =
     \<lparr>read_file_sync = (\<lambda>h p. map_option JsUint8Array (files_after h p)),
      write_file_sync = (\<lambda>h p. Some JsOther), mkdir_sync = (\<lambda>h p. Some JsOther),
      unlink_sync = (\<lambda>h p. Some JsOther)\<rparr>"

definition demo_node_host :: "transport \<Rightarrow> host" where
  "demo_node_host T = (demo_host T)\<lparr>feature_native := False, feature_wasm := True,
     injected_fs := Some demo_node_fs\<rparr>"

lemma demo_node_ok: "node_ok demo_crates (demo_node_host T)"
  by (simp add: node_ok_def demo_node_host_def demo_envelope honest_node_fs_def demo_node_fs_def)

lemma demo_native_ok: "native_ok demo_crates (demo_host T)"
  by (simp add: native_ok_def demo_honest demo_envelope)

lemma disk_backends_interchangeable_witness:
  "native_remove demo_crates (demo_host net_down) ''/tmp/'' ''i'' []
     = wasm_remove demo_crates (demo_node_host net_down) (fst (wasm_new (demo_node_host net_down) ''/tmp/'' [])) ''i'' []"
proof -
  have "\<not> suffix ''//'' ''/tmp/''" by (simp add: suffix_def append_eq_Cons_conv)
  from disk_backends_interchangeable [OF demo_sha _ this demo_native_ok demo_node_ok] show ?thesis by simp
qed

text \<open>
  In a browser the disk cache is inert: an injected object that lacks one of the four
  functions leaves the slot as it was, and with an empty slot every lookup misses and no
  operation causes an event.
\<close>

theorem disk_cache_inert_in_browser:
  "(set_node_fs fs None = None \<longleftrightarrow>
      js_method (fs ''readFileSync'') = None \<or> js_method (fs ''writeFileSync'') = None \<or>
      js_method (fs ''mkdirSync'') = None \<or> js_method (fs ''unlinkSync'') = None)
   \<and> wasm_get K (H\<lparr>injected_fs := None\<rparr>) dir i h = (None, h)
   \<and> wasm_put K (H\<lparr>injected_fs := None\<rparr>) dir i a h = h
   \<and> wasm_remove K (H\<lparr>injected_fs := None\<rparr>) dir i h = h
   \<and> snd (wasm_new (H\<lparr>injected_fs := None\<rparr>) dir h) = h"
proof (intro conjI)
  show "set_node_fs fs None = None \<longleftrightarrow>
      js_method (fs ''readFileSync'') = None \<or> js_method (fs ''writeFileSync'') = None \<or>
      js_method (fs ''mkdirSync'') = None \<or> js_method (fs ''unlinkSync'') = None"
    by (simp add: set_node_fs_def split: option.splits)
qed (simp_all add: wasm_defs node_fs_defs Let_def split: option.splits)

end
