(* ===== verification/Pages.thy ===== *)
theory Pages
  imports RustStd
begin

text \<open>
  \<open>src/src/pages.rs\<close>: the two branded documents and the escaping of the one string an application
  supplies.  The templates are the source's, line by line; \<open>em_dash\<close> and \<open>middot\<close> are the UTF-8
  bytes of the two characters outside ASCII.
\<close>

definition DEFAULT_CONNECT_URL :: string where
  "DEFAULT_CONNECT_URL = ''https://dig.net''"

definition HTML_CONTENT_TYPE :: string where
  "HTML_CONTENT_TYPE = ''text/html''"

definition escape :: "string \<Rightarrow> string" where
  "escape s =
     replace_char (CHR 0x27) ''&#39;''
       (replace_char (CHR 0x22) ''&quot;''
         (replace_char CHR ''>'' ''&gt;''
           (replace_char CHR ''<'' ''&lt;''
             (replace_char CHR ''&'' ''&amp;'' s))))"

definition em_dash :: string where
  "em_dash = [CHR 0xE2, CHR 0x80, CHR 0x94]"

definition middot :: string where
  "middot = [CHR 0xC2, CHR 0xB7]"

definition unlines :: "string list \<Rightarrow> string" where
  "unlines ls = concat (map (\<lambda>l. l @ [CHR 0x0A]) ls)"

text \<open>The template up to \<open>body\<close>, and the document around a body.\<close>

definition page_head :: "string \<Rightarrow> string \<Rightarrow> string \<Rightarrow> string list" where
  \<open>page_head accent glow heading =
       [''<!doctype html>'',
        ''<html lang="en">'',
        ''<head>'',
        ''<meta charset="utf-8">'',
        ''<meta name="viewport" content="width=device-width, initial-scale=1">'',
        ''<title>'' @ heading @ ''</title>'',
        ''<style>'',
        ''  :root { color-scheme: dark; }'',
        ''  * { box-sizing: border-box; }'',
        ''  html, body { height: 100%; margin: 0; }'',
        ''  body {'',
        ''    display: flex; align-items: center; justify-content: center;'',
        ''    min-height: 100%; padding: 24px;'',
        ''    background: radial-gradient(1200px 600px at 50% -10%, '' @ glow @ '' 0%, #0a0f1e 60%, #070a14 100%);'',
        ''    color: #e8ecf6;'',
        ''    font-family: -apple-system, BlinkMacSystemFont, "Segoe UI", Roboto, Helvetica, Arial, sans-serif;'',
        ''    -webkit-font-smoothing: antialiased; text-rendering: optimizeLegibility;'',
        ''  }'',
        ''  main { width: 100%; max-width: 30rem; text-align: center; }'',
        ''  .brand {'',
        ''    font-size: 0.8125rem; letter-spacing: 0.18em; text-transform: uppercase;'',
        ''    color: '' @ accent @ ''; margin: 0 0 1.25rem;'',
        ''  }'',
        ''  .brand b { color: #cdd6f0; font-weight: 700; }'',
        ''  h1 { font-size: 1.5rem; line-height: 1.25; margin: 0 0 0.75rem; color: #ffffff; }'',
        ''  p { font-size: 1rem; line-height: 1.6; margin: 0 0 1.75rem; color: #aeb7d4; }'',
        ''  a.cta {'',
        ''    display: inline-block; padding: 0.75rem 1.5rem; border-radius: 0.625rem;'',
        ''    background: '' @ accent @ ''; color: #ffffff; font-weight: 600; font-size: 1rem;'',
        ''    text-decoration: none; transition: background 120ms ease;'',
        ''  }'',
        ''  a.cta:focus-visible { outline: 3px solid #9fb8ff; outline-offset: 3px; }'',
        ''  @media (prefers-reduced-motion: reduce) { a.cta { transition: none; } }'',
        ''</style>'',
        ''</head>'']\<close>

definition page :: "string \<Rightarrow> string \<Rightarrow> string \<Rightarrow> string \<Rightarrow> string \<Rightarrow> string" where
  \<open>page accent glow brand_tag heading body_html =
     unlines (page_head accent glow heading @
       [''<body>'',
        ''<main role="main">'',
        ''  <p class="brand">'' @ brand_tag @ ''</p>'',
        ''  <h1>'' @ heading @ ''</h1>'',
        ''  '' @ body_html,
        ''</main>'',
        ''</body>'',
        ''</html>''])\<close>

definition unreachable_html :: "string \<Rightarrow> string" where
  \<open>unreachable_html connect_url =
     (let href = escape connect_url
      in page ''#3b6cf6'' ''#14213a'' ''<b>DIG</b> Network'' ''DIG Network unreachable''
           (''<p>We couldn't reach a DIG node or the public gateway to load this content. Connect a local DIG node to view it '' @ em_dash @ '' it's faster and fully decentralized.</p>'' @ [CHR 0x0A] @
            ''  <a class="cta" href="'' @ href @ ''" rel="noopener noreferrer">Connect to Node</a>''))\<close>

definition integrity_failure_html :: string where
  \<open>integrity_failure_html =
     page ''#e5484d'' ''#3a1416'' (''<b>DIG</b> Network '' @ middot @ '' Security'')
       ''Integrity Verification Failed''
       (''<p role="alert">The content served for this address did not match its on-chain fingerprint. It may have been tampered with or served by an impostor, so it was <strong>not displayed</strong>. This is a security protection '' @ em_dash @ '' the verified content could not be produced.</p>'')\<close>

section \<open>Escaping\<close>

fun escape_char :: "char \<Rightarrow> string" where
  "escape_char c =
     (if c = CHR ''&'' then ''&amp;'' else if c = CHR ''<'' then ''&lt;''
      else if c = CHR ''>'' then ''&gt;'' else if c = CHR 0x22 then ''&quot;''
      else if c = CHR 0x27 then ''&#39;'' else [c])"

lemma replace_char_append: "replace_char c t (a @ b) = replace_char c t a @ replace_char c t b"
  by (simp add: replace_char_def)

lemma escape_append: "escape (a @ b) = escape a @ escape b"
  by (simp add: escape_def replace_char_append)

lemma escape_single: "escape [c] = escape_char c"
  by (simp add: escape_def replace_char_def)

lemma escape_eq: "escape s = concat (map escape_char s)"
proof (induction s)
  case Nil
  then show ?case by (simp add: escape_def replace_char_def)
next
  case (Cons c s)
  then show ?case using escape_append [of "[c]" s] by (simp add: escape_single)
qed

definition markup :: "char \<Rightarrow> bool" where
  "markup c \<longleftrightarrow> c = CHR ''<'' \<or> c = CHR ''>'' \<or> c = CHR 0x22 \<or> c = CHR 0x27"

lemma escape_char_plain: "list_all (\<lambda>c. \<not> markup c) (escape_char c)"
  by (simp add: markup_def)

lemma escape_safe: "list_all (\<lambda>c. \<not> markup c) (escape s)"
  unfolding escape_eq by (induction s) (simp_all add: escape_char_plain del: escape_char.simps)

text \<open>Reading an escaped text back, as a browser does with these five references.\<close>

fun unescape :: "string \<Rightarrow> string" where
  "unescape [] = []"
| "unescape (c # s) =
     (if c = CHR ''&'' then
        (if take 4 s = ''amp;'' then CHR ''&'' # unescape (drop 4 s)
         else if take 3 s = ''lt;'' then CHR ''<'' # unescape (drop 3 s)
         else if take 3 s = ''gt;'' then CHR ''>'' # unescape (drop 3 s)
         else if take 5 s = ''quot;'' then CHR 0x22 # unescape (drop 5 s)
         else if take 4 s = ''#39;'' then CHR 0x27 # unescape (drop 4 s)
         else c # unescape s)
      else c # unescape s)"

lemma unescape_escape_char: "unescape (escape_char c @ s) = c # unescape s"
  by simp

lemma unescape_escape: "unescape (escape s) = s"
  unfolding escape_eq
proof (induction s)
  case Nil
  then show ?case by simp
next
  case (Cons c s)
  show ?case unfolding list.map concat.simps unescape_escape_char Cons.IH ..
qed

text \<open>
  C31. An application string cannot leave the attribute it is placed in: escaped text contains no
  angle bracket and no quote, and a browser that decodes the references reads the string the
  application supplied.
\<close>

theorem escape_safe_and_faithful:
  "list_all (\<lambda>c. c \<notin> {CHR ''<'', CHR ''>'', CHR 0x22, CHR 0x27}) (escape s) \<and> unescape (escape s) = s"
proof
  show "list_all (\<lambda>c. c \<notin> {CHR ''<'', CHR ''>'', CHR 0x22, CHR 0x27}) (escape s)"
    using escape_safe [of s] by (simp add: markup_def)
  show "unescape (escape s) = s" by (rule unescape_escape)
qed

section \<open>The two pages\<close>

text \<open>The tags of a document, opening and closing, in order: the names that follow an angle bracket.\<close>

definition tag_name :: "string \<Rightarrow> string" where
  "tag_name s = takeWhile (\<lambda>c. c \<noteq> CHR '' '' \<and> c \<noteq> CHR ''>'') s"

fun tags :: "string \<Rightarrow> string list" where
  "tags [] = []"
| "tags (c # s) = (if c = CHR ''<'' then tag_name s # tags s else tags s)"

fun tags_closed :: "string \<Rightarrow> bool" where
  "tags_closed [] = True"
| "tags_closed (c # s) \<longleftrightarrow>
     (if c = CHR ''<'' then list_ex (\<lambda>x. x = CHR '' '' \<or> x = CHR ''>'') s \<and> tags_closed s
      else tags_closed s)"

lemma tag_name_append:
  "list_ex (\<lambda>x. x = CHR '' '' \<or> x = CHR ''>'') s \<Longrightarrow> tag_name (s @ t) = tag_name s"
  by (auto simp: tag_name_def list_ex_iff takeWhile_append1)

lemma tags_append: "tags_closed s \<Longrightarrow> tags (s @ t) = tags s @ tags t"
  by (induction s) (auto simp: tag_name_append)

lemma tags_closed_append: "tags_closed s \<Longrightarrow> tags_closed t \<Longrightarrow> tags_closed (s @ t)"
  by (induction s) auto

lemma tags_none: "CHR ''<'' \<notin> set s \<Longrightarrow> tags s = [] \<and> tags_closed s"
  by (induction s) auto

lemma unlines_append: "unlines (a @ b) = unlines a @ unlines b"
  by (simp add: unlines_def)

lemma tags_unlines: "list_all tags_closed ls \<Longrightarrow> tags (unlines ls) = concat (map tags ls)"
  by (induction ls) (simp_all add: unlines_def tags_append)

lemma escape_no_tag: "CHR ''<'' \<notin> set (escape u)"
  using escape_safe by (auto simp: list_all_iff markup_def)

definition page_top :: "string \<Rightarrow> string \<Rightarrow> string \<Rightarrow> string \<Rightarrow> string list" where
  \<open>page_top accent glow brand_tag heading =
     page_head accent glow heading @
       [''<body>'', ''<main role="main">'', ''  <p class="brand">'' @ brand_tag @ ''</p>'',
        ''  <h1>'' @ heading @ ''</h1>'']\<close>

definition page_bottom :: "string list" where
  "page_bottom = [''</main>'', ''</body>'', ''</html>'']"

lemma page_eq:
  "page accent glow brand_tag heading b =
     unlines (page_top accent glow brand_tag heading) @ unlines [''  '' @ b] @ unlines page_bottom"
  by (simp add: page_def page_top_def page_bottom_def unlines_append [symmetric])

lemma tags_page:
  assumes "list_all tags_closed (page_top accent glow brand_tag heading)" and "tags_closed b"
  shows "tags (page accent glow brand_tag heading b)
    = concat (map tags (page_top accent glow brand_tag heading)) @ tags b @ [''/main'', ''/body'', ''/html'']"
proof -
  have "list_all tags_closed (page_top accent glow brand_tag heading @ [''  '' @ b] @ page_bottom)"
    using assms by (simp add: page_bottom_def)
  moreover have "map tags page_bottom = [[''/main''], [''/body''], [''/html'']]" by code_simp
  ultimately show ?thesis
    unfolding page_eq unlines_append [symmetric] by (simp add: tags_unlines)
qed

definition chrome_tags :: "string list" where
  "chrome_tags = [''!doctype'', ''html'', ''head'', ''meta'', ''meta'', ''title'', ''/title'', ''style'',
     ''/style'', ''/head'', ''body'', ''main'', ''p'', ''b'', ''/b'', ''/p'', ''h1'', ''/h1'']"

lemma integrity_top:
  "list_all tags_closed (page_top ''#e5484d'' ''#3a1416'' (''<b>DIG</b> Network '' @ middot @ '' Security'')
     ''Integrity Verification Failed'')"
  "concat (map tags (page_top ''#e5484d'' ''#3a1416'' (''<b>DIG</b> Network '' @ middot @ '' Security'')
     ''Integrity Verification Failed'')) = chrome_tags"
  by code_simp+

lemma unreachable_top:
  "list_all tags_closed (page_top ''#3b6cf6'' ''#14213a'' ''<b>DIG</b> Network'' ''DIG Network unreachable'')"
  "concat (map tags (page_top ''#3b6cf6'' ''#14213a'' ''<b>DIG</b> Network'' ''DIG Network unreachable''))
     = chrome_tags"
  by code_simp+

definition cta_before :: string where
  \<open>cta_before = ''<p>We couldn't reach a DIG node or the public gateway to load this content. Connect a local DIG node to view it '' @ em_dash @ '' it's faster and fully decentralized.</p>'' @ [CHR 0x0A] @ ''  <a class="cta" href="''\<close>

definition cta_after :: string where
  \<open>cta_after = ''" rel="noopener noreferrer">Connect to Node</a>''\<close>

lemma unreachable_body:
  "unreachable_html u = page ''#3b6cf6'' ''#14213a'' ''<b>DIG</b> Network'' ''DIG Network unreachable''
     (cta_before @ escape u @ cta_after)"
  by (simp only: unreachable_html_def Let_def cta_before_def cta_after_def append_assoc)

lemma cta_tags:
  "tags_closed cta_before" "tags cta_before = [''p'', ''/p'', ''a'']"
  "tags_closed cta_after" "tags cta_after = [''/a'']"
  by code_simp+

text \<open>
  C30. The unreachable page cannot be turned into another page: for every connect URL the document
  has the same tags, one paragraph and one link, and the URL appears once, escaped, as the whole
  value of the link's \<open>href\<close> attribute, between parts that do not depend on it.
\<close>

theorem unreachable_page_fixed_markup:
  \<open>tags (unreachable_html u)
     = chrome_tags @ [''p'', ''/p'', ''a'', ''/a''] @ [''/main'', ''/body'', ''/html'']
   \<and> (\<exists>pre post. \<forall>v. unreachable_html v = pre @ ''href="'' @ escape v @ ''"'' @ post)\<close>
proof
  have body: "tags_closed (cta_before @ escape u @ cta_after)"
    using tags_none [OF escape_no_tag] cta_tags by (intro tags_closed_append) simp_all
  have "tags (cta_before @ escape u @ cta_after) = [''p'', ''/p'', ''a'', ''/a'']"
    using tags_none [OF escape_no_tag] cta_tags by (simp add: tags_append)
  then show "tags (unreachable_html u)
      = chrome_tags @ [''p'', ''/p'', ''a'', ''/a''] @ [''/main'', ''/body'', ''/html'']"
    unfolding unreachable_body tags_page [OF unreachable_top(1) body] unreachable_top(2) by simp
  have before: \<open>\<exists>q. cta_before = q @ ''href="''\<close>
    by (rule exI [of _ "take (length cta_before - 6) cta_before"]) code_simp
  have after: \<open>\<exists>q. cta_after = ''"'' @ q\<close>
    by (rule exI [of _ "tl cta_after"]) code_simp
  from before after obtain q q' where q: \<open>cta_before = q @ ''href="''\<close> \<open>cta_after = ''"'' @ q'\<close>
    by blast
  let ?top = "unlines (page_top ''#3b6cf6'' ''#14213a'' ''<b>DIG</b> Network'' ''DIG Network unreachable'')"
  have \<open>unreachable_html v = (?top @ ''  '' @ q) @ ''href="'' @ escape v @ ''"'' @
      (q' @ CHR 0x0A # unlines page_bottom)\<close> for v
    unfolding unreachable_body page_eq q by (simp add: unlines_def)
  then show \<open>\<exists>pre post. \<forall>v. unreachable_html v = pre @ ''href="'' @ escape v @ ''"'' @ post\<close>
    by blast
qed

text \<open>
  The integrity page is a security page and offers nothing to follow: it is a constant, its
  tags are those of the common frame, one paragraph and an emphasis, so it has no link, no script
  and no form, and its paragraph is an alert.
\<close>

theorem integrity_page_fixed_markup:
  \<open>tags integrity_failure_html
     = chrome_tags @ [''p'', ''strong'', ''/strong'', ''/p''] @ [''/main'', ''/body'', ''/html'']
   \<and> (\<exists>pre post. integrity_failure_html = pre @ ''<p role="alert">'' @ post)\<close>
proof
  let ?body = \<open>''<p role="alert">The content served for this address did not match its on-chain fingerprint. It may have been tampered with or served by an impostor, so it was <strong>not displayed</strong>. This is a security protection '' @ em_dash @ '' the verified content could not be produced.</p>''\<close>
  have body: "tags_closed (?body)" and tags: "tags (?body) = [''p'', ''strong'', ''/strong'', ''/p'']"
    by code_simp+
  show "tags integrity_failure_html
      = chrome_tags @ [''p'', ''strong'', ''/strong'', ''/p''] @ [''/main'', ''/body'', ''/html'']"
    unfolding integrity_failure_html_def tags_page [OF integrity_top(1) body] integrity_top(2) tags by simp
  have alert: \<open>?body = ''<p role="alert">'' @ drop 16 (?body)\<close> by code_simp
  show \<open>\<exists>pre post. integrity_failure_html = pre @ ''<p role="alert">'' @ post\<close>
    unfolding integrity_failure_html_def page_eq unlines_def list.map concat.simps
    by (subst alert, subst append_assoc, subst append_assoc) (metis append_assoc)
qed

end
