(* ===== verification/Resolver.thy ===== *)
theory Resolver
  imports NodeTier RpcTier DiskCache Pages
begin

text \<open>
  \<open>src/src/resolver.rs\<close>: outcomes, options, the resolver and \<open>resolve\<close>.  The interior-mutable
  fields of a \<open>Resolver\<close> are a record that every operation returns updated; the transport and the
  machine are the \<open>host\<close> argument.  The ladder loop keeps the code's index \<open>i\<close> and its last index.
\<close>

section \<open>Outcomes\<close>

datatype resolve_outcome = Success resolved_data | IntegrityFailure | Unreachable

fun outcome_is_success :: "resolve_outcome \<Rightarrow> bool" where
  "outcome_is_success (Success _) = True"
| "outcome_is_success _ = False"

fun outcome_data :: "resolve_outcome \<Rightarrow> resolved_data option" where
  "outcome_data (Success d) = Some d"
| "outcome_data _ = None"

fun outcome_kind :: "resolve_outcome \<Rightarrow> string" where
  "outcome_kind (Success _) = ''success''"
| "outcome_kind IntegrityFailure = ''integrity_failure''"
| "outcome_kind Unreachable = ''unreachable''"

fun render :: "resolve_outcome \<Rightarrow> string \<Rightarrow> resolved_data" where
  "render (Success d) cta = d"
| "render IntegrityFailure cta = resolved_data_new (str_bytes integrity_failure_html) HTML_CONTENT_TYPE"
| "render Unreachable cta = resolved_data_new (str_bytes (unreachable_html cta)) HTML_CONTENT_TYPE"

section \<open>The resolver\<close>

record resolve_options =
  o_endpoint :: "string option"
  o_connect_url :: "string option"
  o_cache_path :: "string option"

definition default_options :: resolve_options where
  "default_options = \<lparr>o_endpoint = None, o_connect_url = None, o_cache_path = None\<rparr>"

record resolver =
  r_options :: resolve_options
  r_plan_cache :: "endpoint list option"
  r_memory :: memory_cache
  r_disk :: "string option"

definition with_options :: "host \<Rightarrow> resolve_options \<Rightarrow> history \<Rightarrow> resolver \<times> history" where
  "with_options H opts h =
     (let (disk, h') = (case o_cache_path opts of
            Some dir \<Rightarrow> if has_disk H then (case disk_new H dir h of (d, h1) \<Rightarrow> (Some d, h1)) else (None, h)
          | None \<Rightarrow> (None, h))
      in (\<lparr>r_options = opts, r_plan_cache = None,
           r_memory = mc_new DEFAULT_MEMORY_ENTRIES DEFAULT_MEMORY_BYTES, r_disk = disk\<rparr>, h'))"

definition resolver_new :: "host \<Rightarrow> history \<Rightarrow> resolver \<times> history" where
  "resolver_new H h = with_options H default_options h"

definition connect_url :: "resolver \<Rightarrow> string" where
  "connect_url R = (case o_connect_url (r_options R) of Some u \<Rightarrow> u | None \<Rightarrow> DEFAULT_CONNECT_URL)"

definition plan_of ::
    "('u, 'm) crates \<Rightarrow> host \<Rightarrow> resolver \<Rightarrow> history \<Rightarrow> endpoint list \<times> resolver \<times> history" where
  "plan_of K H R h =
     (case r_plan_cache R of
        Some plan \<Rightarrow> (plan, R, h)
      | None \<Rightarrow>
         (case build_plan K H (o_endpoint (r_options R)) h of
            (plan, h') \<Rightarrow> (plan, R\<lparr>r_plan_cache := Some plan\<rparr>, h')))"

definition fetch_from ::
    "('u, 'm) crates \<Rightarrow> host \<Rightarrow> endpoint \<Rightarrow> 'u parsed_urn \<Rightarrow> history
      \<Rightarrow> (resolve_error + fetched) \<times> history" where
  "fetch_from K H ep p h =
     (case ep_kind ep of
        NodeKind \<Rightarrow> node_fetch K H (ep_base ep) p h
      | RpcKind \<Rightarrow> rpc_fetch K H (ep_base ep) p h)"

definition cache_id :: "('u, 'm) crates \<Rightarrow> 'u parsed_urn \<Rightarrow> string \<Rightarrow> string" where
  "cache_id K p root = content_id (store_id_hex K p) root (resource_key K p) (salt p)"

definition disk_get_verified ::
    "('u, 'm) crates \<Rightarrow> host \<Rightarrow> resolver \<Rightarrow> 'u parsed_urn \<Rightarrow> string \<Rightarrow> history
      \<Rightarrow> resolve_outcome option \<times> history" where
  "disk_get_verified K H R p i h =
     (if \<not> has_disk H then (None, h)
      else case r_disk R of
        None \<Rightarrow> (None, h)
      | Some dir \<Rightarrow>
     (case root_hex K p of
        None \<Rightarrow> (None, h)
      | Some root \<Rightarrow>
     (case disk_get K H dir i h of
        (None, h1) \<Rightarrow> (None, h1)
      | (Some a, h1) \<Rightarrow>
         (case verify_and_decrypt K p (da_ciphertext a) (da_proof_b64 a) root (da_chunk_lens a) of
            Inr b \<Rightarrow> (Some (Success (resolved_data_new b (derive (resource_key K p) b))), h1)
          | Inl e \<Rightarrow>
             (case e of
                VerifyFailed m \<Rightarrow> (Some IntegrityFailure, disk_remove K H dir i h1)
              | DecryptFailed \<Rightarrow> (Some IntegrityFailure, disk_remove K H dir i h1)
              | _ \<Rightarrow> (None, disk_remove K H dir i h1))))))"

definition cache_success ::
    "('u, 'm) crates \<Rightarrow> host \<Rightarrow> resolver \<Rightarrow> 'u parsed_urn \<Rightarrow> fetched \<Rightarrow> history \<Rightarrow> resolver \<times> history" where
  "cache_success K H R p f h =
     (case f_root f of
        None \<Rightarrow> (R, h)
      | Some root \<Rightarrow>
         (let i = cache_id K p root;
              R' = R\<lparr>r_memory := mc_put (r_memory R) i (f_data f)\<rparr>
          in if has_disk H then
               (case (r_disk R, f_artifacts f) of
                  (Some dir, Some a) \<Rightarrow> (R', disk_put K H dir i a h)
                | _ \<Rightarrow> (R', h))
             else (R', h)))"

section \<open>Resolving\<close>

fun walk ::
    "('u, 'm) crates \<Rightarrow> host \<Rightarrow> 'u parsed_urn \<Rightarrow> nat \<Rightarrow> nat \<Rightarrow> endpoint list \<Rightarrow> resolver \<Rightarrow> history
      \<Rightarrow> (resolve_error + resolve_outcome) \<times> resolver \<times> history" where
  "walk K H p lst i [] R h = (Inr Unreachable, R, h)"
| "walk K H p lst i (ep # eps) R h =
     (case fetch_from K H ep p h of
        (Inr f, h1) \<Rightarrow>
          (case cache_success K H R p f h1 of (R', h2) \<Rightarrow> (Inr (Success (f_data f)), R', h2))
      | (Inl e, h1) \<Rightarrow>
         (case e of
            VerifyFailed m \<Rightarrow> (Inr IntegrityFailure, R, h1)
          | DecryptFailed \<Rightarrow> (Inr IntegrityFailure, R, h1)
          | NotFound \<Rightarrow> if i = lst then (Inl NotFound, R, h1) else walk K H p lst (i + 1) eps R h1
          | Transport m \<Rightarrow> if i = lst then (Inr Unreachable, R, h1) else walk K H p lst (i + 1) eps R h1
          | _ \<Rightarrow> (Inl e, R, h1)))"

definition resolve_ladder ::
    "('u, 'm) crates \<Rightarrow> host \<Rightarrow> 'u parsed_urn \<Rightarrow> resolver \<Rightarrow> history
      \<Rightarrow> (resolve_error + resolve_outcome) \<times> resolver \<times> history" where
  "resolve_ladder K H p R h =
     (case plan_of K H R h of
        (plan, R', h') \<Rightarrow> walk K H p (length plan - 1) 0 plan R' h')"

definition resolve ::
    "('u, 'm) crates \<Rightarrow> host \<Rightarrow> resolver \<Rightarrow> string \<Rightarrow> history
      \<Rightarrow> (resolve_error + resolve_outcome) \<times> resolver \<times> history" where
  "resolve K H R s h =
     (case parse_urn K s of
        Inl e \<Rightarrow> (Inl e, R, h)
      | Inr p \<Rightarrow>
         (case map_option (cache_id K p) (root_hex K p) of
            None \<Rightarrow> resolve_ladder K H p R h
          | Some i \<Rightarrow>
             (case mc_get (r_memory R) i of
                (Some d, m) \<Rightarrow> (Inr (Success d), R\<lparr>r_memory := m\<rparr>, h)
              | (None, m) \<Rightarrow>
                 (let R1 = R\<lparr>r_memory := m\<rparr>
                  in case disk_get_verified K H R1 p i h of
                       (Some outcome, h1) \<Rightarrow>
                         (Inr outcome,
                          (case outcome of Success d \<Rightarrow> R1\<lparr>r_memory := mc_put m i d\<rparr> | _ \<Rightarrow> R1), h1)
                     | (None, h1) \<Rightarrow> resolve_ladder K H p R1 h1))))"

definition resolve_rendered ::
    "('u, 'm) crates \<Rightarrow> host \<Rightarrow> resolver \<Rightarrow> string \<Rightarrow> history
      \<Rightarrow> (resolve_error + resolved_data) \<times> resolver \<times> history" where
  "resolve_rendered K H R s h =
     (case resolve K H R s h of
        (Inl e, R', h') \<Rightarrow> (Inl e, R', h')
      | (Inr outcome, R', h') \<Rightarrow> (Inr (render outcome (connect_url R')), R', h'))"

section \<open>The walk, tier by tier\<close>

text \<open>What a resolve makes of the answer of the tier that decides it.\<close>

fun verdict :: "resolve_error + fetched \<Rightarrow> resolve_error + resolve_outcome" where
  "verdict (Inr f) = Inr (Success (f_data f))"
| "verdict (Inl (VerifyFailed m)) = Inr IntegrityFailure"
| "verdict (Inl DecryptFailed) = Inr IntegrityFailure"
| "verdict (Inl (Transport m)) = Inr Unreachable"
| "verdict (Inl e) = Inl e"

text \<open>All tiers of a list were tried, in order, and each let the walk go on.\<close>

fun passed_over :: "('u, 'm) crates \<Rightarrow> host \<Rightarrow> 'u parsed_urn \<Rightarrow> endpoint list \<Rightarrow> history \<Rightarrow> history \<Rightarrow> bool" where
  "passed_over K H p [] h h' \<longleftrightarrow> h' = h"
| "passed_over K H p (ep # eps) h h' \<longleftrightarrow>
     (case fetch_from K H ep p h of
        (Inl e, h1) \<Rightarrow> is_fall_through e \<and> passed_over K H p eps h1 h'
      | (Inr f, h1) \<Rightarrow> False)"

definition after_fetch ::
    "('u, 'm) crates \<Rightarrow> host \<Rightarrow> resolver \<Rightarrow> 'u parsed_urn \<Rightarrow> resolve_error + fetched \<Rightarrow> history
      \<Rightarrow> resolver \<times> history" where
  "after_fetch K H R p r h = (case r of Inr f \<Rightarrow> cache_success K H R p f h | Inl e \<Rightarrow> (R, h))"

lemma walk_decided:
  assumes "plan \<noteq> []" and "lst = i + (length plan - 1)"
  shows "\<exists>pre ep post h1 r h2. plan = pre @ ep # post \<and> passed_over K H p pre h h1 \<and>
     fetch_from K H ep p h1 = (r, h2) \<and>
     (post = [] \<or> (case r of Inr f \<Rightarrow> True | Inl e \<Rightarrow> \<not> is_fall_through e)) \<and>
     walk K H p lst i plan R h = (verdict r, after_fetch K H R p r h2)"
  using assms
proof (induction plan arbitrary: i h)
  case Nil
  then show ?case by simp
next
  case (Cons ep eps)
  obtain r h2 where fetch: "fetch_from K H ep p h = (r, h2)" by fastforce
  show ?case
  proof (cases "eps = [] \<or> (case r of Inr f \<Rightarrow> True | Inl e \<Rightarrow> \<not> is_fall_through e)")
    case True
    have "walk K H p lst i (ep # eps) R h = (verdict r, after_fetch K H R p r h2)"
    proof (cases r)
      case (Inl e)
      with True Cons.prems(2) fetch show ?thesis by (cases e) (auto simp: after_fetch_def)
    next
      case (Inr f)
      with fetch show ?thesis by (simp add: after_fetch_def split: prod.splits)
    qed
    with True fetch show ?thesis
      by (intro exI [of _ "[]"] exI [of _ ep] exI [of _ eps] exI [of _ h] exI [of _ r] exI [of _ h2])
        (simp del: walk.simps)
  next
    case False
    then obtain e where r: "r = Inl e" and e: "is_fall_through e" by (auto split: sum.splits)
    from Cons.prems(2) False have lst: "lst = Suc i + (length eps - 1)" and "i \<noteq> lst"
      by (cases eps; simp)+
    then have step: "walk K H p lst i (ep # eps) R h = walk K H p lst (Suc i) eps R h2"
      using fetch r e by (cases e) simp_all
    from Cons.IH [OF _ lst, of h2] False obtain pre ep' post h1 r' h3
      where IH: "eps = pre @ ep' # post" "passed_over K H p pre h2 h1" "fetch_from K H ep' p h1 = (r', h3)"
        "post = [] \<or> (case r' of Inr f \<Rightarrow> True | Inl e \<Rightarrow> \<not> is_fall_through e)"
        "walk K H p lst (Suc i) eps R h2 = (verdict r', after_fetch K H R p r' h3)"
      by blast
    with step fetch r e show ?thesis
      by (intro exI [of _ "ep # pre"] exI [of _ ep'] exI [of _ post] exI [of _ h1] exI [of _ r'] exI [of _ h3])
        (simp del: walk.simps)
  qed
qed

declare walk.simps [simp del]

section \<open>Case analysis\<close>

lemma resolve_cases:
  assumes "resolve K H R s h = (r, R', h')"
  obtains (malformed) e where "parse_urn K s = Inl e" "r = Inl e" "R' = R" "h' = h"
  | (rootless) p where "parse_urn K s = Inr p" "root_hex K p = None" "resolve_ladder K H p R h = (r, R', h')"
  | (hit) p root d m where "parse_urn K s = Inr p" "root_hex K p = Some root"
      "mc_get (r_memory R) (cache_id K p root) = (Some d, m)"
      "r = Inr (Success d)" "R' = R\<lparr>r_memory := m\<rparr>" "h' = h"
  | (disk) p root m oc where "parse_urn K s = Inr p" "root_hex K p = Some root"
      "mc_get (r_memory R) (cache_id K p root) = (None, m)"
      "disk_get_verified K H (R\<lparr>r_memory := m\<rparr>) p (cache_id K p root) h = (Some oc, h')"
      "r = Inr oc"
      "R' = R\<lparr>r_memory := (case oc of Success d \<Rightarrow> mc_put m (cache_id K p root) d | _ \<Rightarrow> m)\<rparr>"
  | (missed) p root m h1 where "parse_urn K s = Inr p" "root_hex K p = Some root"
      "mc_get (r_memory R) (cache_id K p root) = (None, m)"
      "disk_get_verified K H (R\<lparr>r_memory := m\<rparr>) p (cache_id K p root) h = (None, h1)"
      "resolve_ladder K H p (R\<lparr>r_memory := m\<rparr>) h1 = (r, R', h')"
proof (cases "parse_urn K s")
  case (Inl e)
  with assms malformed show thesis by (simp add: resolve_def)
next
  case (Inr p)
  show thesis
  proof (cases "root_hex K p")
    case None
    with Inr assms rootless show thesis by (simp add: resolve_def)
  next
    case (Some root)
    obtain d m where get: "mc_get (r_memory R) (cache_id K p root) = (d, m)" by fastforce
    obtain oc h1 where dg: "disk_get_verified K H (R\<lparr>r_memory := m\<rparr>) p (cache_id K p root) h = (oc, h1)"
      by fastforce
    note facts = Inr Some get dg
    show thesis
    proof (cases d)
      case None
      show thesis
      proof (cases oc)
        case None
        with facts \<open>d = None\<close> assms missed show thesis by (simp add: resolve_def)
      next
        case (Some out)
        with facts \<open>d = None\<close> assms have "h' = h1" "r = Inr out"
          "R' = R\<lparr>r_memory := (case out of Success d \<Rightarrow> mc_put m (cache_id K p root) d | _ \<Rightarrow> m)\<rparr>"
          by (cases out; simp add: resolve_def Let_def; auto)+
        with facts \<open>d = None\<close> Some disk show thesis by blast
      qed
    next
      case (Some x)
      with facts assms hit show thesis by (simp add: resolve_def)
    qed
  qed
qed

lemma plan_of_cases:
  assumes "plan_of K H R h = (plan, R', h')"
  obtains (cached) "r_plan_cache R = Some plan" "R' = R" "h' = h"
  | (built) "r_plan_cache R = None" "build_plan K H (o_endpoint (r_options R)) h = (plan, h')"
      "R' = R\<lparr>r_plan_cache := Some plan\<rparr>"
  using assms by (auto simp: plan_of_def split: option.splits prod.splits)

lemma ladder_decided:
  assumes "resolve_ladder K H p R h = (r, R', h')"
    and "\<And>plan. r_plan_cache R = Some plan \<Longrightarrow> plan \<noteq> []"
  obtains plan R1 h0 pre ep post h1 a h2 where "plan_of K H R h = (plan, R1, h0)"
    and "plan = pre @ ep # post" and "passed_over K H p pre h0 h1"
    and "fetch_from K H ep p h1 = (a, h2)"
    and "post = [] \<or> (case a of Inr f \<Rightarrow> True | Inl e \<Rightarrow> \<not> is_fall_through e)"
    and "r = verdict a" and "(R', h') = after_fetch K H R1 p a h2"
proof -
  obtain plan R1 h0 where plan: "plan_of K H R h = (plan, R1, h0)" by (metis prod_cases3)
  have "plan \<noteq> []"
    using plan
  proof (cases rule: plan_of_cases)
    case cached
    from cached(1) show ?thesis by (rule assms(2))
  next
    case built
    from built(2) show ?thesis by (rule build_plan_nonempty)
  qed
  from walk_decided [OF this, of "length plan - 1" 0 K H p h0 R1] plan assms(1) that
  show thesis by (fastforce simp: resolve_ladder_def)
qed

section \<open>Provenance\<close>

text \<open>The base URLs a resolver with these options trusts as a node, and the one it uses as a gateway.\<close>

definition node_base :: "('u, 'm) crates \<Rightarrow> host \<Rightarrow> resolve_options \<Rightarrow> string \<Rightarrow> bool" where
  "node_base K H opts base \<longleftrightarrow> is_loopback_base K H base \<and>
     (case o_endpoint opts of
        Some b \<Rightarrow> base = trim_end_matches CHR ''/'' b
      | None \<Rightarrow> base = DIG_LOCAL_BASE \<or> base = LOCALHOST_BASE)"

definition rpc_base :: "resolve_options \<Rightarrow> string" where
  "rpc_base opts = (case o_endpoint opts of Some b \<Rightarrow> trim_end_matches CHR ''/'' b | None \<Rightarrow> RPC_DEFAULT_BASE)"

definition plan_ok :: "('u, 'm) crates \<Rightarrow> host \<Rightarrow> resolve_options \<Rightarrow> endpoint list \<Rightarrow> bool" where
  "plan_ok K H opts plan \<longleftrightarrow> plan \<noteq> [] \<and>
     (\<forall>e \<in> set plan. case ep_kind e of NodeKind \<Rightarrow> node_base K H opts (ep_base e)
                                     | RpcKind \<Rightarrow> ep_base e = rpc_base opts)"

definition attested_by_node ::
    "('u, 'm) crates \<Rightarrow> host \<Rightarrow> resolve_options \<Rightarrow> 'u parsed_urn \<Rightarrow> resolved_data \<Rightarrow> bool" where
  "attested_by_node K H opts p d \<longleftrightarrow>
     (\<exists>base h resp. node_base K H opts base \<and> transport H h (HttpGet (serve_url K base p)) = Inr resp \<and>
        is_success resp \<and> header_true resp ''x-dig-verified'' \<and> rd_bytes d = body resp)"

definition provenance ::
    "('u, 'm) crates \<Rightarrow> host \<Rightarrow> resolve_options \<Rightarrow> 'u parsed_urn \<Rightarrow> string \<Rightarrow> resolved_data \<Rightarrow> bool" where
  "provenance K H opts p root d \<longleftrightarrow> (\<exists>a. verified_as K p root a d) \<or> attested_by_node K H opts p d"

definition memory_ok :: "('u, 'm) crates \<Rightarrow> host \<Rightarrow> resolve_options \<Rightarrow> memory_cache \<Rightarrow> bool" where
  "memory_ok K H opts m \<longleftrightarrow>
     (\<forall>i d. mc_stored m i = Some d \<longrightarrow> (\<exists>p root. i = cache_id K p root \<and> provenance K H opts p root d))"

definition resolver_ok :: "('u, 'm) crates \<Rightarrow> host \<Rightarrow> resolve_options \<Rightarrow> resolver \<Rightarrow> bool" where
  "resolver_ok K H opts R \<longleftrightarrow> r_options R = opts \<and> mc_wf (r_memory R) \<and> memory_ok K H opts (r_memory R) \<and>
     max_entries (r_memory R) = DEFAULT_MEMORY_ENTRIES \<and> max_bytes (r_memory R) = DEFAULT_MEMORY_BYTES \<and>
     (case r_plan_cache R of None \<Rightarrow> True | Some plan \<Rightarrow> plan_ok K H opts plan)"

text \<open>Where the bytes of a success come from: from this URN, or from one with the same cache identity.\<close>

definition source_of :: "('u, 'm) crates \<Rightarrow> 'u parsed_urn \<Rightarrow> 'u parsed_urn \<Rightarrow> string \<Rightarrow> bool" where
  "source_of K p p' root \<longleftrightarrow>
     (case root_hex K p of
        Some q \<Rightarrow> cache_id K p' root = cache_id K p q
      | None \<Rightarrow> p' = p)"

lemma build_plan_ok:
  assumes "build_plan K H (o_endpoint opts) h = (plan, h')"
  shows "plan_ok K H opts plan"
  using assms
proof (cases rule: build_plan_cases)
  case (override base)
  then show ?thesis
    using classify_kind [of K H base] classify_base [of K H base]
    by (cases "ep_kind (classify K H base)") (auto simp: plan_ok_def node_base_def rpc_base_def)
next
  case gateway
  then show ?thesis by (simp add: plan_ok_def rpc_base_def endpoint_defs)
next
  case (node t)
  then show ?thesis by (auto simp: plan_ok_def rpc_base_def node_base_def endpoint_defs)
qed

lemma plan_of_ok:
  assumes "resolver_ok K H opts R" and "plan_of K H R h = (plan, R', h')"
  shows "plan_ok K H opts plan" and "resolver_ok K H opts R'"
proof -
  have "plan_ok K H opts plan \<and> resolver_ok K H opts R'"
    using assms(2)
  proof (cases rule: plan_of_cases)
    case cached
    with assms(1) show ?thesis by (simp add: resolver_ok_def)
  next
    case built
    with assms(1) have "build_plan K H (o_endpoint opts) h = (plan, h')" by (simp add: resolver_ok_def)
    then have "plan_ok K H opts plan" by (rule build_plan_ok)
    with built assms(1) show ?thesis by (simp add: resolver_ok_def)
  qed
  then show "plan_ok K H opts plan" and "resolver_ok K H opts R'" by simp_all
qed

lemma fetch_from_sound:
  assumes "fetch_from K H ep p h = (Inr f, h')"
    and "case ep_kind ep of NodeKind \<Rightarrow> node_base K H opts (ep_base ep) | RpcKind \<Rightarrow> ep_base ep = rpc_base opts"
  shows "(\<exists>root a. f_root f = Some root \<and> f_artifacts f = Some a \<and> verified_as K p root a (f_data f)) \<or>
         (attested_by_node K H opts p (f_data f) \<and> f_artifacts f = None)"
    and "root_hex K p = Some root \<Longrightarrow> f_root f = Some root"
proof -
  show "(\<exists>root a. f_root f = Some root \<and> f_artifacts f = Some a \<and> verified_as K p root a (f_data f)) \<or>
         (attested_by_node K H opts p (f_data f) \<and> f_artifacts f = None)"
  proof (cases "ep_kind ep")
    case NodeKind
    with assms node.fetch_sound [of K H "ep_base ep" p h f h'] show ?thesis
      by (auto simp: fetch_from_def verified_fetch_def node_attested_def attested_by_node_def)
  next
    case RpcKind
    with assms rpc.fetch_sound [of K H "ep_base ep" p h f h'] show ?thesis
      by (auto simp: fetch_from_def verified_fetch_def rpc_attested_def)
  qed
  show "root_hex K p = Some root \<Longrightarrow> f_root f = Some root"
    using assms(1) node.fetch_root rpc.fetch_root
    by (auto simp: fetch_from_def split: endpoint_kind.splits)
qed

lemma memory_ok_put:
  assumes "mc_wf m" and "memory_ok K H opts m" and "provenance K H opts p root d"
  shows "memory_ok K H opts (mc_put m (cache_id K p root) d)"
  unfolding memory_ok_def
proof (intro allI impI)
  fix i x
  assume "mc_stored (mc_put m (cache_id K p root) d) i = Some x"
  from mem.all_put [OF assms(1) _ _ this,
      of "\<lambda>i d. \<exists>p root. i = cache_id K p root \<and> provenance K H opts p root d"] assms(2,3)
  show "\<exists>p root. i = cache_id K p root \<and> provenance K H opts p root x"
    by (auto simp: memory_ok_def)
qed

lemma memory_ok_get:
  "mc_wf m \<Longrightarrow> memory_ok K H opts m \<Longrightarrow> mc_get m i = (x, m') \<Longrightarrow> mc_wf m' \<and> memory_ok K H opts m'"
  using mc_wf_get [of m i] mc_stored_get [of m i] by (simp add: memory_ok_def)

lemma resolver_ok_get:
  assumes "resolver_ok K H opts R" and "mc_get (r_memory R) i = (x, m)"
  shows "resolver_ok K H opts (R\<lparr>r_memory := m\<rparr>)"
proof -
  have "mc_wf (r_memory R)" "memory_ok K H opts (r_memory R)" using assms(1) by (simp_all add: resolver_ok_def)
  from memory_ok_get [OF this assms(2)] assms(1) mc_limits(1,2) [of "r_memory R" i] assms(2)
  show ?thesis by (simp add: resolver_ok_def)
qed

section \<open>The invariant of a session\<close>

lemma disk_get_verified_sound:
  assumes "disk_get_verified K H R p i h = (Some (Success d), h')"
  shows "\<exists>root a. root_hex K p = Some root \<and> verified_as K p root a d"
  using assms
  by (auto simp: disk_get_verified_def verified_as_def
      split: if_splits option.splits prod.splits sum.splits resolve_error.splits)

lemma cache_success_ok:
  assumes "resolver_ok K H opts R" and "cache_success K H R p f h = (R', h')"
    and "\<And>root. f_root f = Some root \<Longrightarrow> provenance K H opts p root (f_data f)"
  shows "resolver_ok K H opts R'"
proof (cases "f_root f")
  case None
  with assms show ?thesis by (simp add: cache_success_def)
next
  case (Some root)
  with assms(2) have "R' = R\<lparr>r_memory := mc_put (r_memory R) (cache_id K p root) (f_data f)\<rparr>"
    by (auto simp: cache_success_def Let_def split: if_splits option.splits)
  with assms(1) assms(3) [OF Some] show ?thesis
    by (simp add: resolver_ok_def mc_wf_put memory_ok_put)
qed

lemma fetch_provenance:
  assumes "fetch_from K H ep p h = (Inr f, h')"
    and "case ep_kind ep of NodeKind \<Rightarrow> node_base K H opts (ep_base ep) | RpcKind \<Rightarrow> ep_base ep = rpc_base opts"
  shows "\<exists>root. (\<forall>q. f_root f = Some q \<longrightarrow> root = q) \<and> (\<forall>q. root_hex K p = Some q \<longrightarrow> root = q) \<and>
           provenance K H opts p root (f_data f)"
    and "f_root f = Some q \<Longrightarrow> provenance K H opts p q (f_data f)"
proof -
  note sound = fetch_from_sound(1) [OF assms] and root = fetch_from_sound(2) [OF assms]
  show prov: "f_root f = Some q \<Longrightarrow> provenance K H opts p q (f_data f)" for q
    using sound by (auto simp: provenance_def)
  show "\<exists>root. (\<forall>q. f_root f = Some q \<longrightarrow> root = q) \<and> (\<forall>q. root_hex K p = Some q \<longrightarrow> root = q) \<and>
           provenance K H opts p root (f_data f)"
  proof (cases "f_root f")
    case None
    then have "attested_by_node K H opts p (f_data f)" using sound by auto
    moreover have "root_hex K p = None" by (cases "root_hex K p") (use root None in auto)
    ultimately show ?thesis using None by (auto simp: provenance_def)
  next
    case (Some q)
    then show ?thesis using prov root by (intro exI [of _ q]) auto
  qed
qed

lemma ladder_ok:
  assumes "resolver_ok K H opts R" and "resolve_ladder K H p R h = (r, R', h')"
  shows "resolver_ok K H opts R'"
    and "r = Inr (Success d) \<Longrightarrow> \<exists>root. source_of K p p root \<and> provenance K H opts p root d"
proof -
  have "\<And>plan. r_plan_cache R = Some plan \<Longrightarrow> plan \<noteq> []"
    using assms(1) by (auto simp: resolver_ok_def plan_ok_def)
  with assms(2) obtain plan R1 h0 pre ep post h1 a h2
    where plan: "plan_of K H R h = (plan, R1, h0)" and split: "plan = pre @ ep # post"
      and fetch: "fetch_from K H ep p h1 = (a, h2)"
      and r: "r = verdict a" and R': "(R', h') = after_fetch K H R1 p a h2"
    by (rule ladder_decided)
  note ok1 = plan_of_ok [OF assms(1) plan]
  have ep: "case ep_kind ep of NodeKind \<Rightarrow> node_base K H opts (ep_base ep) | RpcKind \<Rightarrow> ep_base ep = rpc_base opts"
    using ok1(1) split by (auto simp: plan_ok_def)
  show "resolver_ok K H opts R'"
  proof (cases a)
    case (Inl e)
    with R' ok1(2) show ?thesis by (simp add: after_fetch_def)
  next
    case (Inr f)
    with R' have "cache_success K H R1 p f h2 = (R', h')" by (simp add: after_fetch_def)
    with ok1(2) show ?thesis
      by (rule cache_success_ok) (use fetch Inr fetch_provenance(2) [OF _ ep] in blast)
  qed
  assume "r = Inr (Success d)"
  with r obtain f where "a = Inr f" "d = f_data f" by (cases a rule: verdict.cases) auto
  with fetch fetch_provenance(1) [OF _ ep]
  show "\<exists>root. source_of K p p root \<and> provenance K H opts p root d"
    by (fastforce simp: source_of_def split: option.splits)
qed

lemma resolve_ok:
  assumes "resolver_ok K H opts R" and "resolve K H R s h = (r, R', h')"
  shows "resolver_ok K H opts R'"
    and "r = Inr (Success d) \<Longrightarrow> \<exists>p p' root. parse_urn K s = Inr p \<and> source_of K p p' root \<and>
           provenance K H opts p' root d"
proof -
  have wf: "mc_wf (r_memory R)" and mem: "memory_ok K H opts (r_memory R)"
    using assms(1) by (simp_all add: resolver_ok_def)
  have "resolver_ok K H opts R' \<and> (r = Inr (Success d) \<longrightarrow>
    (\<exists>p p' root. parse_urn K s = Inr p \<and> source_of K p p' root \<and> provenance K H opts p' root d))" for d
    using assms(2)
  proof (cases rule: resolve_cases)
    case (malformed e)
    with assms(1) show ?thesis by simp
  next
    case (rootless p)
    with ladder_ok [OF assms(1) rootless(3)] show ?thesis by blast
  next
    case (hit p root x m)
    have "resolver_ok K H opts R'" unfolding hit(5) by (rule resolver_ok_get [OF assms(1) hit(3)])
    moreover have "mc_stored (r_memory R) (cache_id K p root) = Some x"
      using hit(3) fst_mc_get [of "r_memory R"] by (metis fst_conv)
    with mem obtain p' root' where "cache_id K p root = cache_id K p' root'" "provenance K H opts p' root' x"
      unfolding memory_ok_def by metis
    ultimately show ?thesis using hit by (auto simp: source_of_def)
  next
    case (disk p root m oc)
    note m = resolver_ok_get [OF assms(1) disk(3)]
    show ?thesis
    proof (cases oc)
      case (Success x)
      with disk(4) have "provenance K H opts p root x"
        using disk_get_verified_sound disk(2) by (fastforce simp: provenance_def)
      with m disk Success show ?thesis
        by (auto simp: resolver_ok_def mc_wf_put memory_ok_put source_of_def)
    qed (use m disk in simp_all)
  next
    case (missed p root m h1)
    from assms(1) missed(3) have "resolver_ok K H opts (R\<lparr>r_memory := m\<rparr>)" by (rule resolver_ok_get)
    from ladder_ok [OF this missed(5)] missed(1) show ?thesis by blast
  qed
  then show "resolver_ok K H opts R'"
    and "r = Inr (Success d) \<Longrightarrow> \<exists>p p' root. parse_urn K s = Inr p \<and> source_of K p p' root \<and>
           provenance K H opts p' root d" by blast+
qed

text \<open>
  A session: a resolver is built with options and resolves any number of URNs, while anything
  may happen in the world between two of its operations.
\<close>

inductive session :: "('u, 'm) crates \<Rightarrow> host \<Rightarrow> resolve_options \<Rightarrow> resolver \<Rightarrow> history \<Rightarrow> bool"
  for K H opts where
  opened: "with_options H opts h = (R, h') \<Longrightarrow> session K H opts R h'"
| resolved: "session K H opts R h \<Longrightarrow> resolve K H R s h = (r, R', h') \<Longrightarrow> session K H opts R' h'"
| world: "session K H opts R h \<Longrightarrow> session K H opts R (h @ [e])"

inductive_cases session_elim: "session K H opts R h"

lemma with_options_ok: "with_options H opts h = (R, h') \<Longrightarrow> resolver_ok K H opts R"
  by (auto simp: with_options_def resolver_ok_def memory_ok_def split: option.splits if_splits prod.splits)
    (auto simp: mc_new_def)

lemma session_ok: "session K H opts R h \<Longrightarrow> resolver_ok K H opts R"
proof (induction rule: session.induct)
  case (opened h R h')
  then show ?case by (rule with_options_ok)
next
  case (resolved R h s r R' h')
  from resolve_ok(1) [OF resolved.IH resolved.hyps(2)] show ?case .
qed

end
