(* ===== verification/ResolverProps.thy ===== *)
theory ResolverProps
  imports Resolver
begin

text \<open>
  What a resolver promises, proved over \<open>Resolver\<close>: the ladder walk and its outcomes, which
  requests are made, what is cached and what is not, and that a cached resource is served again.
\<close>

section \<open>Events of the parts\<close>

lemma after_fetch_events:
  assumes "(R', h') = after_fetch K H R p a h"
  shows "grows (\<lambda>e. \<not> is_http e) h h'" and "a = Inl e \<Longrightarrow> R' = R \<and> h' = h"
    and "r_plan_cache R' = r_plan_cache R" and "r_options R' = r_options R" and "r_disk R' = r_disk R"
  using assms disk.no_http(2) [of h K H]
  by (auto simp: after_fetch_def cache_success_def Let_def
      split: sum.splits option.splits if_splits)

lemma disk_get_verified_events:
  assumes "disk_get_verified K H R p i h = (oc, h')"
  shows "grows (\<lambda>e. \<not> is_http e) h h'" and "grows (\<lambda>e. \<not> is_write e) h h'"
proof -
  have step: "grows (\<lambda>e. \<not> is_http e) h (disk_remove K H dir i (snd (disk_get K H dir i h)))"
    "grows (\<lambda>e. \<not> is_write e) h (disk_remove K H dir i (snd (disk_get K H dir i h)))" for dir
    using grows_trans [OF disk.no_http(1) disk.no_http(3)]
      grows_trans [OF disk.get_no_write disk.remove_no_write] by blast+
  have "h' = h \<or> (\<exists>dir. h' = snd (disk_get K H dir i h) \<or> h' = disk_remove K H dir i (snd (disk_get K H dir i h)))"
    using assms
    by (auto simp: disk_get_verified_def
        split: if_splits option.splits prod.splits sum.splits resolve_error.splits)
      (metis snd_conv)+
  with step disk.no_http(1) disk.get_no_write
  show "grows (\<lambda>e. \<not> is_http e) h h'" and "grows (\<lambda>e. \<not> is_write e) h h'" by (metis grows_refl)+
qed

lemma fetch_from_http: "fetch_from K H ep p h = (a, h') \<Longrightarrow> grows is_http h h'"
  using node.fetch_http rpc.fetch_http by (auto simp: fetch_from_def split: endpoint_kind.splits)

lemma passed_over_http: "passed_over K H p eps h h' \<Longrightarrow> grows is_http h h'"
proof (induction eps arbitrary: h)
  case Nil
  then show ?case by simp
next
  case (Cons ep eps)
  then obtain e h1 where "fetch_from K H ep p h = (Inl e, h1)" "passed_over K H p eps h1 h'"
    by (auto split: prod.splits sum.splits)
  with Cons.IH fetch_from_http show ?case by (metis grows_trans)
qed

section \<open>The ladder\<close>

text \<open>
  C5. The walk returns the verdict of the tier that decides it: the tiers before it were all
  tried, in order, and each reported absence or unreachability; the deciding tier is the last one
  of the plan or the first one that reported anything else; no tier after it is asked; and its
  answer alone gives the result (content: success; a failed verification or decryption: integrity
  failure; not found; a transport failure: unreachable; any other error: that error).
\<close>

theorem walk_first_decisive_tier:
  assumes "plan \<noteq> []"
  shows "\<exists>pre ep post h1 a h2. plan = pre @ ep # post \<and> passed_over K H p pre h h1 \<and>
     fetch_from K H ep p h1 = (a, h2) \<and>
     (post = [] \<or> (case a of Inr f \<Rightarrow> True | Inl e \<Rightarrow> \<not> is_fall_through e)) \<and>
     walk K H p (length plan - 1) 0 plan R h = (verdict a, after_fetch K H R p a h2)"
  using walk_decided [OF assms, of "length plan - 1" 0 K H p h R] by simp

lemma walk_first_decisive_tier_witness:
  "\<forall>R. \<exists>ep a h2. fetch_from demo_crates (demo_host net_down) ep (demo_urn_of ''r:x'') [] = (a, h2) \<and>
     walk demo_crates (demo_host net_down) (demo_urn_of ''r:x'') 0 0 [endpoint_rpc ''u''] R []
       = (verdict a, after_fetch demo_crates (demo_host net_down) R (demo_urn_of ''r:x'') a h2)"
proof
  fix R
  let ?plan = "[endpoint_rpc ''u'']" and ?H = "demo_host net_down" and ?p = "demo_urn_of ''r:x''"
  have "?plan \<noteq> []" by simp
  from walk_first_decisive_tier [OF this, of demo_crates ?H ?p "[]" R]
  obtain pre ep post h1 a h2 where plan: "?plan = pre @ ep # post"
    and pre: "passed_over demo_crates ?H ?p pre [] h1"
    and fetch: "fetch_from demo_crates ?H ep ?p h1 = (a, h2)"
    and walk: "walk demo_crates ?H ?p (length ?plan - 1) 0 ?plan R [] = (verdict a, after_fetch demo_crates ?H R ?p a h2)"
    by blast
  from plan have "pre = []" by (cases pre) auto
  with pre have "h1 = []" by simp
  with fetch walk show "\<exists>ep a h2. fetch_from demo_crates ?H ep ?p [] = (a, h2) \<and>
      walk demo_crates ?H ?p 0 0 ?plan R [] = (verdict a, after_fetch demo_crates ?H R ?p a h2)" by auto
qed

text \<open>
  C6. An integrity failure ends the resolve at once: if some tier, after tiers that were passed
  over, answers with bytes that fail verification or decryption, the outcome is an integrity
  failure, the history ends with that tier's requests, whatever other tiers the plan has, and
  nothing is cached.
\<close>

theorem integrity_failure_aborts_ladder:
  assumes "passed_over K H p pre h h1" and "fetch_from K H ep p h1 = (Inl e, h2)" and "is_integrity e"
  shows "walk K H p (length (pre @ ep # post) - 1) 0 (pre @ ep # post) R h = (Inr IntegrityFailure, R, h2)"
proof -
  have "walk K H p (i + length pre + length post) i (pre @ ep # post) R h = (Inr IntegrityFailure, R, h2)" for i
    using assms(1)
  proof (induction pre arbitrary: i h)
    case Nil
    with assms(2,3) show ?case by (cases e) (simp_all add: walk.simps)
  next
    case (Cons x pre)
    then obtain e' h' where x: "fetch_from K H x p h = (Inl e', h')" "is_fall_through e'"
      "passed_over K H p pre h' h1" by (auto split: prod.splits sum.splits)
    have "walk K H p (i + length (x # pre) + length post) i ((x # pre) @ ep # post) R h
        = walk K H p (Suc i + length pre + length post) (Suc i) (pre @ ep # post) R h'"
      using x(1,2) by (cases e') (simp_all add: walk.simps)
    with Cons.IH [OF x(3), of "Suc i"] show ?case by simp
  qed
  from this [of 0] show ?thesis by simp
qed

text \<open>A gateway that answers with a proof under the wrong root, in front of another tier.\<close>

definition demo_tampered :: http_response where
  "demo_tampered = \<lparr>status = 200, headers = [(''x-dig-inclusion-proof'', demo_b64_encode [0xCC, 0, 1, 2])],
     body = [0, 1, 2]\<rparr>"

lemma demo_tampered_answer:
  "node_answer demo_crates (demo_urn_of ''r:x'') demo_tampered = Inl (VerifyFailed ''not included'')"
  by code_simp

lemma integrity_failure_aborts_ladder_witness:
  "\<forall>R. fst (walk demo_crates (demo_host (net_node demo_tampered demo_gateway)) (demo_urn_of ''r:x'') 1 0
      [endpoint_node LOCALHOST_BASE, endpoint_rpc RPC_DEFAULT_BASE] R []) = Inr IntegrityFailure"
proof
  fix R
  let ?H = "demo_host (net_node demo_tampered demo_gateway)" and ?p = "demo_urn_of ''r:x''"
  have "drop (length (serve_url demo_crates LOCALHOST_BASE ?p) - 7) (serve_url demo_crates LOCALHOST_BASE ?p)
      \<noteq> ''/health''" by code_simp
  then have "fetch_from demo_crates ?H (endpoint_node LOCALHOST_BASE) ?p []
      = (Inl (VerifyFailed ''not included''), [HttpGet (serve_url demo_crates LOCALHOST_BASE ?p)])"
    by (simp add: fetch_from_def endpoint_node_def node_fetch_eq demo_host_def demo_tampered_answer)
  from integrity_failure_aborts_ladder [OF _ this, of "[]" "[]" "[endpoint_rpc RPC_DEFAULT_BASE]" R]
  show "fst (walk demo_crates ?H ?p 1 0 [endpoint_node LOCALHOST_BASE, endpoint_rpc RPC_DEFAULT_BASE] R [])
      = Inr IntegrityFailure" by simp
qed

lemma walk_error: "walk K H p lst i plan R h = (Inl e, R', h') \<Longrightarrow> is_hard e \<or> e = NotFound"
  by (induction plan arbitrary: i h)
    (auto simp: walk.simps split: prod.splits sum.splits resolve_error.splits if_splits)

lemma ladder_error: "resolve_ladder K H p R h = (Inl e, R', h') \<Longrightarrow> is_hard e \<or> e = NotFound"
  by (auto simp: resolve_ladder_def split: prod.splits dest: walk_error)

lemma hard_cases: "is_hard e \<Longrightarrow> (\<exists>m. e = Parse m \<or> e = Rpc m) \<or> e = RootRequired"
  by (cases e) simp_all

lemma resolve_Inl:
  assumes "resolve K H R s h = (Inl e, R', h')"
  shows "(\<exists>m. e = Parse m \<or> e = Rpc m) \<or> e = NotFound \<or> e = RootRequired"
proof -
  have "is_hard e \<or> e = NotFound"
    using assms
  proof (cases rule: resolve_cases)
    case (malformed e')
    then show ?thesis using parse_urn_error by force
  next
    case (rootless p)
    then show ?thesis using ladder_error by blast
  next
    case (missed p root m h1)
    then show ?thesis using ladder_error by blast
  qed simp_all
  then show ?thesis using hard_cases by blast
qed

text \<open>
  A resolve fails with an error only for a malformed URN or salt, a resource every tier
  reported absent last, a rootless URN at the gateway, or a protocol error: unreachable networks
  and failed verifications are outcomes, never errors.
\<close>

theorem resolve_error_kinds:
  "case fst (resolve K H R s h) of
     Inl e \<Rightarrow> (\<exists>m. e = Parse m \<or> e = Rpc m) \<or> e = NotFound \<or> e = RootRequired
   | Inr oc \<Rightarrow> True"
  by (cases "resolve K H R s h") (auto dest: resolve_Inl split: sum.split)

section \<open>Which requests are made\<close>

definition allowed_request ::
    "('u, 'm) crates \<Rightarrow> host \<Rightarrow> resolve_options \<Rightarrow> 'u parsed_urn \<Rightarrow> bool \<Rightarrow> event \<Rightarrow> bool" where
  "allowed_request K H opts p first e \<longleftrightarrow>
     (first \<and> o_endpoint opts = None \<and> is_health_probe e) \<or>
     (\<exists>base. node_base K H opts base \<and> node_request K base p e) \<or>
     rpc_request K (rpc_base opts) p e"

lemma fetch_from_allowed:
  assumes "fetch_from K H ep p h = (a, h')"
    and "case ep_kind ep of NodeKind \<Rightarrow> node_base K H opts (ep_base ep) | RpcKind \<Rightarrow> ep_base ep = rpc_base opts"
  shows "grows (allowed_request K H opts p first) h h'"
proof (cases "ep_kind ep")
  case NodeKind
  with assms(1) have "grows (node_request K (ep_base ep) p) h h'"
    by (intro node.fetch_events [of K H "ep_base ep" p h a h']) (simp add: fetch_from_def)
  then show ?thesis by (rule grows_mono) (use assms(2) NodeKind in \<open>auto simp: allowed_request_def\<close>)
next
  case RpcKind
  with assms(1) have "grows (rpc_request K (ep_base ep) p) h h'"
    by (intro rpc.fetch_events [of K H "ep_base ep" p h a h']) (simp add: fetch_from_def)
  then show ?thesis by (rule grows_mono) (use assms(2) RpcKind in \<open>auto simp: allowed_request_def\<close>)
qed

lemma passed_over_allowed:
  assumes "passed_over K H p eps h h'"
    and "\<And>ep. ep \<in> set eps \<Longrightarrow> case ep_kind ep of NodeKind \<Rightarrow> node_base K H opts (ep_base ep)
                                           | RpcKind \<Rightarrow> ep_base ep = rpc_base opts"
  shows "grows (allowed_request K H opts p first) h h'"
  using assms
proof (induction eps arbitrary: h)
  case Nil
  then show ?case by simp
next
  case (Cons ep eps)
  then obtain e h1 where ep: "fetch_from K H ep p h = (Inl e, h1)" and rest: "passed_over K H p eps h1 h'"
    by (auto split: prod.splits sum.splits)
  have "grows (allowed_request K H opts p first) h h1"
    by (rule fetch_from_allowed [OF ep]) (use Cons.prems(2) in auto)
  moreover have "grows (allowed_request K H opts p first) h1 h'"
    by (rule Cons.IH [OF rest]) (use Cons.prems(2) in auto)
  ultimately show ?case by (rule grows_trans)
qed

lemma plan_of_requests:
  assumes "resolver_ok K H opts R" and "plan_of K H R h = (plan, R', h')"
  shows "grows (allowed_request K H opts p (r_plan_cache R = None)) h h'"
    and "r_plan_cache R' = Some plan" and "r_plan_cache R = Some pl \<Longrightarrow> plan = pl"
    and "r_memory R' = r_memory R" and "r_disk R' = r_disk R"
proof -
  have opts: "r_options R = opts" using assms(1) by (simp add: resolver_ok_def)
  have "grows (allowed_request K H opts p (r_plan_cache R = None)) h h' \<and>
    r_plan_cache R' = Some plan \<and> (r_plan_cache R = Some pl \<longrightarrow> plan = pl) \<and>
    r_memory R' = r_memory R \<and> r_disk R' = r_disk R" for pl
    using assms(2)
  proof (cases rule: plan_of_cases)
    case cached
    then show ?thesis by simp
  next
    case built
    have "grows (allowed_request K H opts p True) h h'"
    proof (cases "o_endpoint opts")
      case None
      from build_plan_grows [OF built(2)] show ?thesis
        by (rule grows_mono) (simp add: allowed_request_def None)
    next
      case (Some b)
      with built(2) opts show ?thesis by simp
    qed
    with built show ?thesis by simp
  qed
  then show "grows (allowed_request K H opts p (r_plan_cache R = None)) h h'"
    and "r_plan_cache R' = Some plan" and "r_plan_cache R = Some pl \<Longrightarrow> plan = pl"
    and "r_memory R' = r_memory R" and "r_disk R' = r_disk R" by blast+
qed

lemma allowed_or_local:
  "grows (allowed_request K H opts p b) h h' \<Longrightarrow> grows (\<lambda>e. is_http e \<longrightarrow> allowed_request K H opts p b e) h h'"
  "grows (\<lambda>e. \<not> is_http e) h h' \<Longrightarrow> grows (\<lambda>e. is_http e \<longrightarrow> allowed_request K H opts p b e) h h'"
  by (auto elim!: grows_mono)

lemma ladder_requests:
  assumes "resolver_ok K H opts R" and "resolve_ladder K H p R h = (r, R', h')"
  shows "grows (\<lambda>e. is_http e \<longrightarrow> allowed_request K H opts p (r_plan_cache R = None) e) h h'"
    and "r_plan_cache R = Some plan \<Longrightarrow> r_plan_cache R' = Some plan"
proof -
  have "\<And>plan. r_plan_cache R = Some plan \<Longrightarrow> plan \<noteq> []"
    using assms(1) by (auto simp: resolver_ok_def plan_ok_def)
  with assms(2) obtain plan' R1 h0 pre ep post h1 a h2
    where plan: "plan_of K H R h = (plan', R1, h0)" and split: "plan' = pre @ ep # post"
      and pre: "passed_over K H p pre h0 h1" and fetch: "fetch_from K H ep p h1 = (a, h2)"
      and R': "(R', h') = after_fetch K H R1 p a h2"
    by (rule ladder_decided)
  let ?Q = "allowed_request K H opts p (r_plan_cache R = None)"
  have eps: "case ep_kind x of NodeKind \<Rightarrow> node_base K H opts (ep_base x) | RpcKind \<Rightarrow> ep_base x = rpc_base opts"
    if "x \<in> set plan'" for x
    using plan_of_ok(1) [OF assms(1) plan] that by (auto simp: plan_ok_def)
  have "grows ?Q h h0" by (rule plan_of_requests(1) [OF assms(1) plan])
  moreover have "grows ?Q h0 h1" by (rule passed_over_allowed [OF pre]) (use eps split in auto)
  moreover have "grows ?Q h1 h2" by (rule fetch_from_allowed [OF fetch]) (use eps split in auto)
  ultimately have "grows ?Q h h2" by (blast intro: grows_trans)
  with after_fetch_events(1) [OF R'] show "grows (\<lambda>e. is_http e \<longrightarrow> ?Q e) h h'"
    by (blast intro: grows_trans allowed_or_local)
  show "r_plan_cache R = Some plan \<Longrightarrow> r_plan_cache R' = Some plan"
    using plan_of_requests(2,3) [OF assms(1) plan] after_fetch_events(3) [OF R'] by simp
qed

lemma resolve_requests_ok:
  assumes ok: "resolver_ok K H opts R" and "resolve K H R s h = (r, R', h')"
  shows "(case parse_urn K s of
      Inl e \<Rightarrow> h' = h
    | Inr p \<Rightarrow> grows (\<lambda>e. is_http e \<longrightarrow> allowed_request K H opts p (r_plan_cache R = None) e) h h')
    \<and> (case r_plan_cache R of None \<Rightarrow> True | Some plan \<Rightarrow> r_plan_cache R' = Some plan)"
proof -
  show ?thesis
    using assms(2)
  proof (cases rule: resolve_cases)
    case (malformed e)
    then show ?thesis by (simp split: option.splits)
  next
    case (rootless p)
    then show ?thesis using ladder_requests [OF ok rootless(3)] by (simp split: option.splits)
  next
    case (hit p root d m)
    then show ?thesis by (simp split: option.splits)
  next
    case (disk p root m oc)
    have "grows (\<lambda>e. is_http e \<longrightarrow> allowed_request K H opts p (r_plan_cache R = None) e) h h'"
      by (rule allowed_or_local(2)) (rule disk_get_verified_events(1) [OF disk(4)])
    with disk show ?thesis by (cases "r_plan_cache R") simp_all
  next
    case (missed p root m h1)
    have ok': "resolver_ok K H opts (R\<lparr>r_memory := m\<rparr>)"
      by (rule resolver_ok_get [OF ok missed(3)])
    have "grows (\<lambda>e. is_http e \<longrightarrow> allowed_request K H opts p (r_plan_cache R = None) e) h h1"
      by (rule allowed_or_local(2)) (rule disk_get_verified_events(1) [OF missed(4)])
    from grows_trans [OF this, of h'] ladder_requests [OF ok' missed(5)] missed(1)
    show ?thesis by (simp split: option.splits)
  qed
qed

lemma resolve_allowed:
  assumes "resolver_ok K H opts R" and "resolve K H R s h = (r, R', h')" and "parse_urn K s = Inr p"
  shows "grows (\<lambda>e. is_http e \<longrightarrow> allowed_request K H opts p (r_plan_cache R = None) e) h h'"
  using resolve_requests_ok [OF assms(1,2)] assms(3) by simp

text \<open>
  C18. Every request of a resolve is one it is meant to make.  In any session, a malformed URN
  causes none; otherwise each is a health probe of one of the two local tiers, made only without
  an override and only as long as no plan is known, or the node read of the URN at a loopback
  base, or a window request at the gateway; with an override both bases are the override, so
  nothing leaks to the public gateway.  A plan, once known, is kept.
\<close>

theorem resolve_requests:
  assumes "session K H opts R h" and "resolve K H R s h = (r, R', h')"
  shows "(case parse_urn K s of
      Inl e \<Rightarrow> h' = h
    | Inr p \<Rightarrow> grows (\<lambda>e. is_http e \<longrightarrow> allowed_request K H opts p (r_plan_cache R = None) e) h h')
    \<and> (case r_plan_cache R of None \<Rightarrow> True | Some plan \<Rightarrow> r_plan_cache R' = Some plan)"
  using resolve_requests_ok [OF session_ok [OF assms(1)] assms(2)] .

definition demo_resolver :: resolver where
  "demo_resolver = \<lparr>r_options = default_options, r_plan_cache = None,
     r_memory = mc_new DEFAULT_MEMORY_ENTRIES DEFAULT_MEMORY_BYTES, r_disk = None\<rparr>"

lemma demo_session: "session K H default_options demo_resolver h"
  by (rule session.opened [of H _ h]) (simp add: with_options_def default_options_def demo_resolver_def)

lemma demo_urn_parse: "parse_urn demo_crates ''r:x'' = Inr (demo_urn_of ''r:x'')"
  by code_simp

lemma resolve_requests_witness:
  "grows (\<lambda>e. is_http e \<longrightarrow> allowed_request demo_crates (demo_host net_down) default_options (demo_urn_of ''r:x'') True e)
     [] (snd (snd (resolve demo_crates (demo_host net_down) demo_resolver ''r:x'' [])))"
proof -
  obtain r R' h' where res: "resolve demo_crates (demo_host net_down) demo_resolver ''r:x'' [] = (r, R', h')"
    by (metis prod_cases3)
  from resolve_requests [OF demo_session res] res demo_urn_parse show ?thesis
    by (simp add: demo_resolver_def)
qed

section \<open>When everything is down\<close>

lemma fetch_from_down:
  assumes "\<And>h e. is_http e \<Longrightarrow> \<exists>m. transport H h e = Inl (TransportError m)" and "root_hex K p = Some root"
  shows "\<exists>m h'. fetch_from K H ep p h = (Inl (Transport m), h')"
proof (cases "ep_kind ep")
  case NodeKind
  obtain m where "transport H h (HttpGet (serve_url K (ep_base ep) p)) = Inl (TransportError m)"
    using assms(1) [of "HttpGet (serve_url K (ep_base ep) p)" h] by auto
  with NodeKind show ?thesis by (simp add: fetch_from_def node_fetch_eq)
next
  case RpcKind
  let ?b = "trim_end_matches CHR ''/'' (ep_base ep)"
  let ?body = "rpc_body K ''dig.getContent'' (window_params K p root 0)"
  obtain m where "transport H h (HttpPost ?b ?body) = Inl (TransportError m)"
    using assms(1) [of "HttpPost ?b ?body" h] by auto
  then have "window_loop K H ?b p root window_start h = (Inl (Transport m), h @ [HttpPost ?b ?body])"
    by (subst window_loop.simps)
      (simp add: window_start_def MAX_WINDOWS_nat one_window_def rpc_call_eq)
  with RpcKind assms(2) show ?thesis by (simp add: fetch_from_def rpc_fetch_def trusted_root_def)
qed

text \<open>
  The caches hold nothing for an identity: it is not in memory, and where the resolver has a disk
  cache, reading the identity's file at this moment gives no artifacts.
\<close>

definition disk_misses :: "('u, 'm) crates \<Rightarrow> host \<Rightarrow> resolver \<Rightarrow> string \<Rightarrow> history \<Rightarrow> bool" where
  "disk_misses K H R i h \<longleftrightarrow> (\<forall>dir. r_disk R = Some dir \<longrightarrow> fst (disk_get K H dir i h) = None)"

lemma disk_misses_none [simp]: "r_disk R = None \<Longrightarrow> disk_misses K H R i h"
  by (simp add: disk_misses_def)

lemma missed_on_disk:
  assumes "disk_misses K H R i h"
  shows "\<exists>h1. disk_get_verified K H (R\<lparr>r_memory := m\<rparr>) p i h = (None, h1)"
proof (cases "r_disk R")
  case None
  then show ?thesis by (simp add: disk_get_verified_def)
next
  case (Some dir)
  with assms obtain h1 where "disk_get K H dir i h = (None, h1)"
    by (metis disk_misses_def prod.collapse)
  with Some show ?thesis by (simp add: disk_get_verified_def split: option.split)
qed

text \<open>A pinned URN the caches do not hold is resolved by the ladder.\<close>

lemma resolve_uncached:
  assumes "parse_urn K s = Inr p" and "root_hex K p = Some root"
    and "mc_stored (r_memory R) (cache_id K p root) = None" and "disk_misses K H R (cache_id K p root) h"
  obtains m h1 where "mc_get (r_memory R) (cache_id K p root) = (None, m)"
    and "resolve K H R s h = resolve_ladder K H p (R\<lparr>r_memory := m\<rparr>) h1"
proof -
  obtain x m where get: "mc_get (r_memory R) (cache_id K p root) = (x, m)" by fastforce
  then have x: "x = None" using fst_mc_get [of "r_memory R" "cache_id K p root"] assms(3) by simp
  obtain h1 where "disk_get_verified K H (R\<lparr>r_memory := m\<rparr>) p (cache_id K p root) h = (None, h1)"
    using missed_on_disk [OF assms(4)] by blast
  with assms(1,2) get x show ?thesis by (intro that) (simp_all add: resolve_def)
qed

lemma all_down_unreachable_aux:
  assumes "session K H opts R h" and "\<And>h e. is_http e \<Longrightarrow> \<exists>m. transport H h e = Inl (TransportError m)"
    and "parse_urn K s = Inr p" and "root_hex K p = Some root"
    and "mc_stored (r_memory R) (cache_id K p root) = None" and "disk_misses K H R (cache_id K p root) h"
  shows "fst (resolve K H R s h) = Inr Unreachable"
proof -
  note ok = session_ok [OF assms(1)]
  obtain m h1 where res: "resolve K H R s h = resolve_ladder K H p (R\<lparr>r_memory := m\<rparr>) h1"
    by (rule resolve_uncached [OF assms(3-6)])
  let ?R = "R\<lparr>r_memory := m\<rparr>"
  obtain r R' h' where lad: "resolve_ladder K H p ?R h1 = (r, R', h')" by (metis prod_cases3)
  with res have "resolve K H R s h = (r, R', h')" by simp
  moreover have "\<And>plan. r_plan_cache ?R = Some plan \<Longrightarrow> plan \<noteq> []"
    using ok by (auto simp: resolver_ok_def plan_ok_def)
  with lad obtain plan R1 h0 pre ep post h1 a h2 where "fetch_from K H ep p h1 = (a, h2)" and "r = verdict a"
    by (rule ladder_decided)
  with fetch_from_down [OF assms(2,4), of ep h1] have "r = Inr Unreachable" by auto
  ultimately show ?thesis by simp
qed

text \<open>A new resolver with a disk cache in an empty directory.\<close>

definition demo_cached :: resolver where
  "demo_cached = \<lparr>r_options = default_options\<lparr>o_cache_path := Some ''/tmp''\<rparr>, r_plan_cache = None,
     r_memory = mc_new DEFAULT_MEMORY_ENTRIES DEFAULT_MEMORY_BYTES, r_disk = Some ''/tmp''\<rparr>"

lemma demo_cached_session:
  "session K (demo_host T) (default_options\<lparr>o_cache_path := Some ''/tmp''\<rparr>) demo_cached [FsMkdir ''/tmp'']"
proof (rule session.opened)
  show "with_options (demo_host T) (default_options\<lparr>o_cache_path := Some ''/tmp''\<rparr>) [] = (demo_cached, [FsMkdir ''/tmp''])"
    by (simp add: with_options_def demo_cached_def default_options_def has_disk_def demo_host_def disk_new_def native_new_def)
qed

lemma demo_cached_misses: "disk_misses K (demo_host T) demo_cached i [FsMkdir ''/tmp'']"
  by (simp add: disk_misses_def demo_cached_def disk_get_def native_get_def demo_host_def files_after_def)

lemma demo_down_unreachable:
  "fst (resolve demo_crates (demo_host net_down) demo_resolver ''r:x'' []) = Inr Unreachable"
proof -
  have root: "root_hex demo_crates (demo_urn_of ''r:x'') = Some ''bb''" by code_simp
  show ?thesis
    by (rule all_down_unreachable_aux) (use demo_session demo_urn_parse root in
        \<open>simp_all add: demo_host_def net_down_def demo_resolver_def\<close>)
qed

text \<open>
  C26. With every connection failing, a resolve of a pinned URN that neither the memory cache nor the
  disk cache holds ends in the retryable unreachable outcome, in any session and for any options, with
  a disk cache or without: never in an error and never in an integrity failure.
\<close>

theorem all_down_unreachable:
  assumes "session K H opts R h" and "\<And>h e. is_http e \<Longrightarrow> \<exists>m. transport H h e = Inl (TransportError m)"
    and "parse_urn K s = Inr p" and "root_hex K p = Some root"
    and "mc_stored (r_memory R) (cache_id K p root) = None" and "disk_misses K H R (cache_id K p root) h"
  shows "fst (resolve K H R s h) = Inr Unreachable"
  using assms by (rule all_down_unreachable_aux)

lemma all_down_unreachable_witness:
  "outcome_kind (projr (fst (resolve demo_crates (demo_host net_down) demo_cached ''r:x'' [FsMkdir ''/tmp'']))) = ''unreachable''"
proof -
  have root: "root_hex demo_crates (demo_urn_of ''r:x'') = Some ''bb''" by code_simp
  have "fst (resolve demo_crates (demo_host net_down) demo_cached ''r:x'' [FsMkdir ''/tmp'']) = Inr Unreachable"
    by (rule all_down_unreachable [OF demo_cached_session _ demo_urn_parse root _ demo_cached_misses])
      (simp_all add: demo_host_def net_down_def demo_cached_def)
  then show ?thesis by simp
qed

section \<open>What is cached\<close>

lemma verdict_Success: "verdict a = Inr (Success d) \<longleftrightarrow> (\<exists>f. a = Inr f \<and> d = f_data f)"
  by (cases a rule: verdict.cases) auto

lemma passed_over_no_write: "passed_over K H p eps h h' \<Longrightarrow> grows (\<lambda>e. \<not> is_write e) h h'"
  by (rule grows_mono [OF passed_over_http]) (auto elim: is_http.elims)

lemma ladder_failure:
  assumes "resolver_ok K H opts R" and "resolve_ladder K H p R h = (r, R', h')" and "\<nexists>d. r = Inr (Success d)"
  shows "r_memory R' = r_memory R" and "grows (\<lambda>e. \<not> is_write e) h h'"
proof -
  have "\<And>plan. r_plan_cache R = Some plan \<Longrightarrow> plan \<noteq> []"
    using assms(1) by (auto simp: resolver_ok_def plan_ok_def)
  with assms(2) obtain plan' R1 h0 pre ep post h1 a h2
    where plan: "plan_of K H R h = (plan', R1, h0)"
      and pre: "passed_over K H p pre h0 h1" and fetch: "fetch_from K H ep p h1 = (a, h2)"
      and r: "r = verdict a" and R': "(R', h') = after_fetch K H R1 p a h2"
    by (rule ladder_decided)
  from r assms(3) obtain e where "a = Inl e" by (cases a) auto
  with R' have eq: "R' = R1" "h' = h2" by (auto simp: after_fetch_def)
  show "r_memory R' = r_memory R" using plan_of_requests(4) [OF assms(1) plan] eq by simp
  have "grows (\<lambda>e. \<not> is_write e) h h0"
    using plan
  proof (cases rule: plan_of_cases)
    case built
    from build_plan_grows [OF built(2)] show ?thesis
      by (rule grows_mono) (auto simp: is_health_probe_def)
  qed simp
  moreover have "grows (\<lambda>e. \<not> is_write e) h1 h2"
    by (rule grows_mono [OF fetch_from_http [OF fetch]]) (auto elim: is_http.elims)
  ultimately show "grows (\<lambda>e. \<not> is_write e) h h'"
    using passed_over_no_write [OF pre] eq by (blast intro: grows_trans)
qed

text \<open>
  C23. A failure is never cached: in any session, a resolve that does not end in verified content
  leaves what the memory cache holds as it was and writes no file, so nothing can keep a later
  resolve from succeeding.
\<close>

theorem failures_never_cached:
  assumes "session K H opts R h" and "resolve K H R s h = (r, R', h')" and "\<nexists>d. r = Inr (Success d)"
  shows "mc_stored (r_memory R') = mc_stored (r_memory R) \<and> grows (\<lambda>e. \<not> is_write e) h h'"
proof -
  note ok = session_ok [OF assms(1)]
  show ?thesis
    using assms(2)
  proof (cases rule: resolve_cases)
    case (rootless p)
    then show ?thesis using ladder_failure [OF ok rootless(3) assms(3)] by simp
  next
    case (disk p root m oc)
    have "mc_stored m = mc_stored (r_memory R)"
      using mc_stored_get [of "r_memory R" "cache_id K p root"] disk(3) by simp
    moreover have "r_memory R' = m" using disk(5,6) assms(3) by (cases oc) auto
    ultimately show ?thesis using disk_get_verified_events(2) [OF disk(4)] by simp
  next
    case (missed p root m h1)
    have ok': "resolver_ok K H opts (R\<lparr>r_memory := m\<rparr>)"
      by (rule resolver_ok_get [OF ok missed(3)])
    have "mc_stored m = mc_stored (r_memory R)"
      using mc_stored_get [of "r_memory R" "cache_id K p root"] missed(3) by simp
    with ladder_failure [OF ok' missed(5) assms(3)] disk_get_verified_events(2) [OF missed(4)]
    show ?thesis by (auto intro: grows_trans)
  qed (use assms(3) in auto)
qed

lemma failures_never_cached_witness:
  "mc_stored (r_memory (fst (snd (resolve demo_crates (demo_host net_down) demo_resolver ''r:x'' [])))) = Map.empty"
proof -
  obtain r R' h' where res: "resolve demo_crates (demo_host net_down) demo_resolver ''r:x'' [] = (r, R', h')"
    by (metis prod_cases3)
  have "\<nexists>d. r = Inr (Success d)" using demo_down_unreachable res by simp
  from failures_never_cached [OF demo_session res this] res show ?thesis
    by (simp add: demo_resolver_def)
qed

text \<open>
  A memory hit is free: if the cache holds the identity of a pinned URN, a resolve returns
  that content and causes no event at all, whatever the network would say.
\<close>

theorem memory_hit_no_events:
  assumes "parse_urn K s = Inr p" and "root_hex K p = Some root"
    and "mc_stored (r_memory R) (cache_id K p root) = Some d"
  shows "\<exists>m. resolve K H R s h = (Inr (Success d), R\<lparr>r_memory := m\<rparr>, h)
           \<and> mc_stored m = mc_stored (r_memory R)"
proof -
  obtain x m where get: "mc_get (r_memory R) (cache_id K p root) = (x, m)" by fastforce
  then have "x = Some d" using fst_mc_get [of "r_memory R" "cache_id K p root"] assms(3) by simp
  moreover have "mc_stored m = mc_stored (r_memory R)"
    using mc_stored_get [of "r_memory R" "cache_id K p root"] get by simp
  ultimately show ?thesis using assms(1,2) get by (intro exI [of _ m]) (simp add: resolve_def)
qed

text \<open>A resolver that already holds the demo resource, under a network that is down.\<close>

definition demo_warm :: resolver where
  "demo_warm = demo_resolver\<lparr>r_memory :=
     mc_put (mc_new 2 100) (cache_id demo_crates (demo_urn_of ''r:x'') ''bb'') (sample_data 60)\<rparr>"

lemma demo_root: "root_hex demo_crates (demo_urn_of ''r:x'') = Some ''bb''"
  by code_simp

lemma demo_warm_stored:
  "mc_stored (r_memory demo_warm) (cache_id demo_crates (demo_urn_of ''r:x'') ''bb'') = Some (sample_data 60)"
proof -
  have "mc_live (Suc 0) (mc_new 2 100)" by (rule mc_live_new) simp
  from lru.put_stores [OF mc_wf_new this] show ?thesis
    by (simp add: demo_warm_def mc_limit_pair_def mc_new_def dsize_def sample_data_def)
qed

lemma memory_hit_no_events_witness:
  "\<exists>R'. resolve demo_crates (demo_host net_down) demo_warm ''r:x'' [] = (Inr (Success (sample_data 60)), R', [])"
  using memory_hit_no_events [OF demo_urn_parse demo_root demo_warm_stored, of "demo_host net_down" "[]"] by blast

lemma ladder_success:
  assumes "resolver_ok K H opts R" and "resolve_ladder K H p R h = (Inr (Success d), R', h')"
  shows "\<exists>ep h1 h2 f R1. fetch_from K H ep p h1 = (Inr f, h2) \<and> d = f_data f \<and>
    cache_success K H R1 p f h2 = (R', h') \<and> r_memory R1 = r_memory R \<and> r_disk R1 = r_disk R \<and>
    prefix h h1 \<and> prefix h2 h' \<and>
    (case ep_kind ep of NodeKind \<Rightarrow> node_base K H opts (ep_base ep) | RpcKind \<Rightarrow> ep_base ep = rpc_base opts)"
proof -
  have "\<And>plan. r_plan_cache R = Some plan \<Longrightarrow> plan \<noteq> []"
    using assms(1) by (auto simp: resolver_ok_def plan_ok_def)
  with assms(2) obtain plan R1 h0 pre ep post h1 a h2
    where plan: "plan_of K H R h = (plan, R1, h0)" and split: "plan = pre @ ep # post"
      and pre: "passed_over K H p pre h0 h1" and fetch: "fetch_from K H ep p h1 = (a, h2)"
      and r: "Inr (Success d) = verdict a" and R': "(R', h') = after_fetch K H R1 p a h2"
    by (rule ladder_decided)
  from r obtain f where f: "a = Inr f" "d = f_data f" using verdict_Success by metis
  have "case ep_kind ep of NodeKind \<Rightarrow> node_base K H opts (ep_base ep) | RpcKind \<Rightarrow> ep_base ep = rpc_base opts"
    using plan_of_ok(1) [OF assms(1) plan] split by (auto simp: plan_ok_def)
  moreover have "cache_success K H R1 p f h2 = (R', h')" using R' f by (simp add: after_fetch_def)
  moreover have "r_memory R1 = r_memory R" "r_disk R1 = r_disk R"
    using plan_of_requests(4,5) [OF assms(1) plan] by simp_all
  moreover have "prefix h h1"
    using grows_prefix [OF plan_of_requests(1) [OF assms(1) plan]] grows_prefix [OF passed_over_http [OF pre]]
    by (rule prefix_order.trans)
  moreover have "prefix h2 h'" using grows_prefix [OF after_fetch_events(1) [OF R']] .
  ultimately show ?thesis using fetch f by blast
qed

lemma resolve_stores:
  assumes "resolver_ok K H opts R" and "resolve K H R s h = (Inr (Success d), R', h')"
    and "parse_urn K s = Inr p" and "root_hex K p = Some root"
    and "mc_live (Suc (Suc 0)) (r_memory R)" and "length (rd_bytes d) \<le> DEFAULT_MEMORY_BYTES"
  shows "mc_stored (r_memory R') (cache_id K p root) = Some d"
proof -
  let ?i = "cache_id K p root"
  have wf: "mc_wf (r_memory R)" using assms(1) by (simp add: resolver_ok_def)
  have put: "mc_stored (mc_put m ?i d) ?i = Some d" if get: "mc_get (r_memory R) ?i = (x, m)" for x m
  proof -
    have "mc_wf m" "mc_live (Suc 0) m"
      using mc_wf_get [OF wf, of ?i] mc_live_get [OF wf assms(5), of ?i] get by simp_all
    moreover have "0 < fst (mc_limit_pair m)" "dsize d \<le> snd (mc_limit_pair m)"
      using resolver_ok_get [OF assms(1) get] assms(6)
      by (simp_all add: mc_limit_pair_def dsize_def resolver_ok_def DEFAULT_MEMORY_ENTRIES_def)
    ultimately show ?thesis by (rule lru.put_stores)
  qed
  show ?thesis
    using assms(2)
  proof (cases rule: resolve_cases)
    case (hit p' root' x m)
    then have "p' = p" "root' = root" using assms(3,4) by simp_all
    with hit fst_mc_get [of "r_memory R" ?i] mc_stored_get [of "r_memory R" ?i] show ?thesis by simp
  next
    case (disk p' root' m oc)
    then have "p' = p" "root' = root" using assms(3,4) by simp_all
    with disk put [OF disk(3) [unfolded \<open>p' = p\<close> \<open>root' = root\<close>]] show ?thesis by auto
  next
    case (missed p' root' m h1)
    then have eqs: "p' = p" "root' = root" using assms(3,4) by simp_all
    have get: "mc_get (r_memory R) ?i = (None, m)" using missed(3) eqs by simp
    from ladder_success [OF resolver_ok_get [OF assms(1) get] missed(5)] eqs
    obtain ep h2 h3 f R1 where fetch: "fetch_from K H ep p h2 = (Inr f, h3)" and d: "d = f_data f"
      and R': "cache_success K H R1 p f h3 = (R', h')" and mem: "r_memory R1 = m"
      and ep: "case ep_kind ep of NodeKind \<Rightarrow> node_base K H opts (ep_base ep) | RpcKind \<Rightarrow> ep_base ep = rpc_base opts"
      by auto
    have "f_root f = Some root" by (rule fetch_from_sound(2) [OF fetch ep assms(4)])
    with R' mem d have "r_memory R' = mc_put m ?i d"
      by (auto simp: cache_success_def Let_def split: if_splits option.splits)
    then show ?thesis using put [OF get] by simp
  qed (use assms(3,4) in simp_all)
qed

lemma stored_identity_served:
  assumes "session K H opts R h" and "resolve K H R s h = (Inr (Success d), R', h')"
    and "parse_urn K s = Inr p" and "root_hex K p = Some root"
    and "mc_live (Suc (Suc 0)) (r_memory R)" and "length (rd_bytes d) \<le> 32 * 1024 * 1024"
    and "parse_urn K t = Inr q" and "root_hex K q = Some root" and "cache_id K q root = cache_id K p root"
  shows "\<exists>R2. resolve K H' R' t later = (Inr (Success d), R2, later)"
proof -
  have "length (rd_bytes d) \<le> DEFAULT_MEMORY_BYTES" using assms(6) by (simp add: DEFAULT_MEMORY_BYTES_def)
  from resolve_stores [OF session_ok [OF assms(1)] assms(2-5) this]
  have st: "mc_stored (r_memory R') (cache_id K p root) = Some d" .
  obtain x m where get: "mc_get (r_memory R') (cache_id K p root) = (x, m)" by fastforce
  with st have "x = Some d" using fst_mc_get [of "r_memory R'" "cache_id K p root"] by simp
  with get assms(7-9) show ?thesis by (simp add: resolve_def)
qed

text \<open>
  What was resolved stays resolved: after a success for a pinned URN, of content within the
  32 MiB budget, the same resolver answers the same URN with the same content and no event,
  whatever has happened in the world since.
\<close>

theorem resolved_stays_resolved:
  assumes "session K H opts R h" and "resolve K H R s h = (Inr (Success d), R', h')"
    and "parse_urn K s = Inr p" and "root_hex K p = Some root"
    and "mc_live (Suc (Suc 0)) (r_memory R)" and "length (rd_bytes d) \<le> 32 * 1024 * 1024"
  shows "\<exists>R2. resolve K H R' s later = (Inr (Success d), R2, later)"
  by (rule stored_identity_served [OF assms assms(3,4) refl])

text \<open>A resolver that asks the gateway of the witnesses alone, with or without a disk cache.\<close>

definition demo_rpc_options :: "string option \<Rightarrow> resolve_options" where
  "demo_rpc_options dir = \<lparr>o_endpoint = Some ''https://rpc.dig.net'', o_connect_url = None, o_cache_path = dir\<rparr>"

definition demo_rpc :: "string option \<Rightarrow> resolver" where
  "demo_rpc dir = \<lparr>r_options = demo_rpc_options dir, r_plan_cache = None,
     r_memory = mc_new DEFAULT_MEMORY_ENTRIES DEFAULT_MEMORY_BYTES, r_disk = dir\<rparr>"

definition demo_net :: host where
  "demo_net = demo_host (net_gateway demo_gateway)"

lemma demo_rpc_session: "\<exists>h. session K demo_net (demo_rpc_options dir) (demo_rpc dir) h"
proof -
  obtain h where "with_options demo_net (demo_rpc_options dir) [] = (demo_rpc dir, h)"
    by (cases dir) (simp_all add: with_options_def demo_rpc_options_def demo_rpc_def demo_net_def
        demo_host_def has_disk_def disk_new_def native_new_def)
  then show ?thesis by (blast intro: session.opened)
qed

lemma demo_urn_r_eq: "demo_urn_of ''r:x'' = demo_urn_r"
  by code_simp

lemma demo_classify: "classify demo_crates demo_net ''https://rpc.dig.net'' = endpoint_rpc ''https://rpc.dig.net''"
proof -
  have plain: "normal_host ''rpc.dig.net'' = ''rpc.dig.net''"
    by (rule normal_host_plain) (simp add: plain_host_def plain_char_def)
  have "parse_ip ''rpc.dig.net'' = None"
  proof (rule ccontr)
    assume "parse_ip ''rpc.dig.net'' \<noteq> None"
    then have "set ''rpc.dig.net'' \<subseteq> ip_chars" using parse_ip_chars by blast
    then show False by (simp add: ip_chars_def)
  qed
  then have "is_loopback_host H ''rpc.dig.net'' = False" for H
    by (simp add: is_loopback_host_def plain)
  moreover have "parsed_host demo_crates demo_net ''https://rpc.dig.net'' = Some ''rpc.dig.net''"
    by (simp add: parsed_host_def demo_net_def demo_host_def demo_crates_def demo_urls_def)
  moreover have "trim_end_matches CHR ''/'' ''https://rpc.dig.net'' = ''https://rpc.dig.net''"
    by (rule trim_end_matches_id) simp
  ultimately show ?thesis by (simp add: classify_def is_loopback_base_def)
qed

lemma demo_fetched:
  "\<exists>f. fst (rpc_fetch demo_crates demo_net ''https://rpc.dig.net'' demo_urn_r h) = Inr f \<and>
     rd_bytes (f_data f) = [1, 2] \<and> f_root f = Some ''bb'' \<and>
     f_artifacts f = Some \<lparr>da_ciphertext = [0, 1, 2], da_proof_b64 = demo_b64_encode [0xBB, 0, 1, 2],
                           da_chunk_lens = []\<rparr>"
  using demo_fetch_ok [of h] unfolding demo_net_def by auto

lemma demo_resolves:
  "\<exists>d R' h'. resolve demo_crates demo_net (demo_rpc None) ''r:x'' h = (Inr (Success d), R', h') \<and> rd_bytes d = [1, 2]"
proof -
  obtain f h1 where f: "rpc_fetch demo_crates demo_net ''https://rpc.dig.net'' demo_urn_r h = (Inr f, h1)"
      "rd_bytes (f_data f) = [1, 2]"
    using demo_fetched [of h] by (metis prod.collapse)
  obtain x m where g: "mc_get (r_memory (demo_rpc None)) (cache_id demo_crates demo_urn_r ''bb'') = (x, m)"
    by fastforce
  then have "x = None"
    using fst_mc_get [of "r_memory (demo_rpc None)" "cache_id demo_crates demo_urn_r ''bb''"]
    by (simp add: demo_rpc_def)
  with g have get: "mc_get (r_memory (demo_rpc None)) (cache_id demo_crates demo_urn_r ''bb'') = (None, m)"
    by simp
  let ?R = "(demo_rpc None)\<lparr>r_memory := m\<rparr>"
  have disk: "disk_get_verified demo_crates demo_net ?R demo_urn_r i h = (None, h)" for i
    by (simp add: disk_get_verified_def demo_rpc_def)
  have plan: "plan_of demo_crates demo_net ?R h
      = ([endpoint_rpc ''https://rpc.dig.net''], ?R\<lparr>r_plan_cache := Some [endpoint_rpc ''https://rpc.dig.net'']\<rparr>, h)"
    by (simp add: plan_of_def demo_rpc_def demo_rpc_options_def demo_classify)
  have "fetch_from demo_crates demo_net (endpoint_rpc ''https://rpc.dig.net'') demo_urn_r h = (Inr f, h1)"
    using f(1) by (simp add: fetch_from_def endpoint_rpc_def)
  then have "\<exists>R' h'. resolve_ladder demo_crates demo_net demo_urn_r ?R h = (Inr (Success (f_data f)), R', h')"
    by (simp add: resolve_ladder_def plan walk.simps split: prod.splits)
  then obtain R' h' where "resolve_ladder demo_crates demo_net demo_urn_r ?R h = (Inr (Success (f_data f)), R', h')"
    by blast
  then have "resolve demo_crates demo_net (demo_rpc None) ''r:x'' h = (Inr (Success (f_data f)), R', h')"
    using demo_urn_parse demo_root_r get disk by (simp add: resolve_def demo_urn_r_eq Let_def)
  with f(2) show ?thesis by blast
qed

lemma resolved_stays_resolved_witness:
  "\<exists>h R' d R2. fst (resolve demo_crates demo_net (demo_rpc None) ''r:x'' h) = Inr (Success d) \<and> rd_bytes d = [1, 2] \<and>
     resolve demo_crates demo_net R' ''r:x'' [HttpGet ''later''] = (Inr (Success d), R2, [HttpGet ''later''])"
proof -
  obtain h where ses: "session demo_crates demo_net (demo_rpc_options None) (demo_rpc None) h"
    using demo_rpc_session by blast
  obtain d R' h' where res: "resolve demo_crates demo_net (demo_rpc None) ''r:x'' h = (Inr (Success d), R', h')"
      and d: "rd_bytes d = [1, 2]" using demo_resolves [of h] by blast
  have "mc_live (Suc (Suc 0)) (r_memory (demo_rpc None))" by (simp add: demo_rpc_def mc_live_new)
  from resolved_stays_resolved [OF ses res demo_urn_parse demo_root this, of "[HttpGet ''later'']"] d
  have "\<exists>R2. resolve demo_crates demo_net R' ''r:x'' [HttpGet ''later''] = (Inr (Success d), R2, [HttpGet ''later''])"
    by simp
  moreover have "fst (resolve demo_crates demo_net (demo_rpc None) ''r:x'' h) = Inr (Success d)"
    using res by simp
  ultimately show ?thesis using d by blast
qed

text \<open>
  C22. The cache answers for an identity, not for a URN: after a success for a pinned URN with content of
  at most 32 MiB, the byte budget of the memory cache, every other URN of the same store, root, resource
  key and salt gets the same content from memory without a request, although its chain label, and with it the key it asks for and the key it opens content
  with, may be another.  In the witness a new resolver refuses the other URN with IntegrityFailure.
\<close>

theorem cache_ignores_chain:
  assumes "session K H opts R h" and "resolve K H R s h = (Inr (Success d), R', h')"
    and "parse_urn K s = Inr p" and "root_hex K p = Some root"
    and "mc_live (Suc (Suc 0)) (r_memory R)" and "length (rd_bytes d) \<le> 32 * 1024 * 1024"
    and "parse_urn K t = Inr q" and "root_hex K q = Some root" and "store_id_hex K q = store_id_hex K p"
    and "resource_key K q = resource_key K p" and "salt q = salt p"
  shows "\<exists>R2. resolve K H R' t later = (Inr (Success d), R2, later)"
  by (rule stored_identity_served [OF assms(1-8)]) (simp add: cache_id_def assms(9-11))

text \<open>The same resource on another chain label: the gateway's ciphertext does not open under its key.\<close>

definition demo_urn_m :: "demo_urn parsed_urn" where
  "demo_urn_m = demo_urn_r\<lparr>urn := (urn demo_urn_r)\<lparr>d_chain := ''mainnet''\<rparr>\<rparr>"

lemma demo_urn_m_facts:
  "parse_urn demo_crates ''m:x'' = Inr demo_urn_m"
  "root_hex demo_crates demo_urn_m = Some ''bb''"
  "store_id_hex demo_crates demo_urn_m = store_id_hex demo_crates demo_urn_r"
  "resource_key demo_crates demo_urn_m = resource_key demo_crates demo_urn_r"
  "salt demo_urn_m = salt demo_urn_r"
  "retrieval_key_hex demo_crates demo_urn_m \<noteq> retrieval_key_hex demo_crates demo_urn_r"
  "verify_and_decrypt demo_crates demo_urn_m [0, 1, 2] (demo_b64_encode [0xBB, 0, 1, 2]) ''bb'' [] = Inl DecryptFailed"
  by code_simp+

lemma demo_urn_m_refused:
  "fst (resolve demo_crates demo_net (demo_rpc None) ''m:x'' h) = Inr IntegrityFailure"
proof -
  have base: "trim_end_matches CHR ''/'' ''https://rpc.dig.net'' = ''https://rpc.dig.net''"
    by (rule trim_end_matches_id) simp
  from window_loop_honest [OF demo_b64 _ _ demo_honest_gateway_any, of 0 "''https://rpc.dig.net''" demo_urn_m "''bb''" h]
  obtain st h1 where "window_loop demo_crates demo_net ''https://rpc.dig.net'' demo_urn_m ''bb'' window_start h = (Inr st, h1)"
    and "w_buf st = [0, 1, 2]" "w_proof st = demo_b64_encode [0xBB, 0, 1, 2]" "w_chunk_lens st = []"
    by (auto simp: window_state_at_0 demo_net_def)
  then have fetch: "fetch_from demo_crates demo_net (endpoint_rpc ''https://rpc.dig.net'') demo_urn_m h = (Inl DecryptFailed, h1)"
    by (simp add: fetch_from_def endpoint_rpc_def rpc_fetch_def trusted_root_def demo_urn_m_facts(2,7) base)
  obtain x m where get: "mc_get (r_memory (demo_rpc None)) (cache_id demo_crates demo_urn_m ''bb'') = (x, m)" by fastforce
  then have "x = None"
    using fst_mc_get [of "r_memory (demo_rpc None)" "cache_id demo_crates demo_urn_m ''bb''"] by (simp add: demo_rpc_def)
  let ?R = "(demo_rpc None)\<lparr>r_memory := m\<rparr>"
  have "plan_of demo_crates demo_net ?R h
      = ([endpoint_rpc ''https://rpc.dig.net''], ?R\<lparr>r_plan_cache := Some [endpoint_rpc ''https://rpc.dig.net'']\<rparr>, h)"
    by (simp add: plan_of_def demo_rpc_def demo_rpc_options_def demo_classify)
  with fetch have "fst (resolve_ladder demo_crates demo_net demo_urn_m ?R h) = Inr IntegrityFailure"
    by (simp add: resolve_ladder_def walk.simps)
  moreover have "disk_get_verified demo_crates demo_net ?R demo_urn_m i h = (None, h)" for i
    by (simp add: disk_get_verified_def demo_rpc_def)
  ultimately show ?thesis
    using get \<open>x = None\<close> by (simp add: resolve_def demo_urn_m_facts(1,2))
qed

lemma cache_ignores_chain_witness:
  "fst (resolve demo_crates demo_net (demo_rpc None) ''m:x'' []) = Inr IntegrityFailure \<and>
   (\<exists>d R' h' R2. resolve demo_crates demo_net (demo_rpc None) ''r:x'' [] = (Inr (Success d), R', h') \<and>
      resolve demo_crates demo_net R' ''m:x'' h' = (Inr (Success d), R2, h'))"
proof -
  have ses: "session demo_crates demo_net (demo_rpc_options None) (demo_rpc None) []"
    by (rule session.opened [of _ _ "[]"]) (simp add: with_options_def demo_rpc_options_def demo_rpc_def)
  obtain d R' h' where res: "resolve demo_crates demo_net (demo_rpc None) ''r:x'' [] = (Inr (Success d), R', h')"
      and d: "rd_bytes d = [1, 2]" using demo_resolves [of "[]"] by blast
  have live: "mc_live (Suc (Suc 0)) (r_memory (demo_rpc None))" by (simp add: demo_rpc_def mc_live_new)
  have "length (rd_bytes d) \<le> 32 * 1024 * 1024" using d by simp
  from cache_ignores_chain [OF ses res demo_urn_parse [unfolded demo_urn_r_eq] demo_root_r live this
      demo_urn_m_facts(1-5), of h']
  show ?thesis using res demo_urn_m_refused by blast
qed

section \<open>The disk tier\<close>

lemma resolve_disk:
  assumes "parse_urn K s = Inr p" and "root_hex K p = Some root"
    and "mc_stored (r_memory R) (cache_id K p root) = None"
    and "\<And>m. disk_get_verified K H (R\<lparr>r_memory := m\<rparr>) p (cache_id K p root) h = (Some oc, h')"
  shows "\<exists>R'. resolve K H R s h = (Inr oc, R', h')"
proof -
  obtain x m where get: "mc_get (r_memory R) (cache_id K p root) = (x, m)" by fastforce
  with assms(3) have "x = None" using fst_mc_get [of "r_memory R" "cache_id K p root"] by simp
  with assms get show ?thesis by (simp add: resolve_def Let_def)
qed

lemma resolved_data_eq: "rd_content_type d = ct \<Longrightarrow> resolved_data_new (rd_bytes d) ct = d"
  by (cases d) (simp add: resolved_data_new_def)

text \<open>
  C24. A verified result survives a restart: once a fetch with artifacts has been cached by a
  resolver with a disk cache, any later resolver on the same directory with an honest file
  system, whose memory does not hold the resource, serves the same content from disk, verified
  again under the pinned root and without a request, as long as nobody touched the file.
\<close>

theorem disk_cache_survives_restart:
  assumes "has_disk H" and "disk_ok K H" and "parse_urn K s = Inr p" and "root_hex K p = Some root"
    and "fetch_from K H ep p h0 = (Inr f, h1)" and "f_artifacts f = Some a"
    and "r_disk R = Some dir" and "cache_success K H R p f h1 = (R', h2)"
    and "grows (\<lambda>e. \<not> touches (disk_path K H dir (cache_id K p root)) e) h2 h3"
    and "r_disk R2 = Some dir" and "mc_stored (r_memory R2) (cache_id K p root) = None"
  shows "\<exists>R3 h4. resolve K H R2 s h3 = (Inr (Success (f_data f)), R3, h4) \<and> grows (\<lambda>e. \<not> is_http e) h3 h4"
proof -
  let ?i = "cache_id K p root"
  have root: "f_root f = Some root" and ver: "verified_as K p root a (f_data f)"
    using assms(4-6) node.artifacts_verified [of K H "ep_base ep" p h0 f h1 a]
      rpc.artifacts_verified [of K H "ep_base ep" p h0 f h1 a]
      node.fetch_root [of K H "ep_base ep" p h0 f h1 root] rpc.fetch_root [of K H "ep_base ep" p h0 f h1 root]
    by (auto simp: fetch_from_def split: endpoint_kind.splits)
  have "h2 = disk_put K H dir ?i a h1"
    using assms(1,6,7,8) root by (simp add: cache_success_def Let_def)
  with disk.get_after_put [OF assms(2)] assms(9) have "fst (disk_get K H dir ?i h3) = Some a" by blast
  then obtain h4 where get: "disk_get K H dir ?i h3 = (Some a, h4)" by (metis prod.collapse)
  have "disk_get_verified K H (R2\<lparr>r_memory := m\<rparr>) p ?i h3 = (Some (Success (f_data f)), h4)" for m
    using ver assms(1,4,10) get by (simp add: disk_get_verified_def verified_as_def resolved_data_eq)
  from resolve_disk [OF assms(3,4,11) this] obtain R3
    where "resolve K H R2 s h3 = (Inr (Success (f_data f)), R3, h4)" by blast
  moreover have "grows (\<lambda>e. \<not> is_http e) h3 h4" using disk.no_http(1) [of h3 K H dir ?i] get by simp
  ultimately show ?thesis by blast
qed

text \<open>
  C25. A poisoned file is never served: whatever the file system returns, if the artifacts read
  back fail verification or decryption under the pinned root, the resolve ends in an integrity
  failure without asking the network, and the file is removed; with an honest file system the
  next lookup misses.
\<close>

theorem tampered_disk_entry_rejected:
  assumes "has_disk H" and "parse_urn K s = Inr p" and "root_hex K p = Some root"
    and "mc_stored (r_memory R) (cache_id K p root) = None" and "r_disk R = Some dir"
    and "fst (disk_get K H dir (cache_id K p root) h) = Some a"
    and "verify_and_decrypt K p (da_ciphertext a) (da_proof_b64 a) root (da_chunk_lens a) = Inl e"
    and "is_integrity e"
  shows "\<exists>R' h'. resolve K H R s h = (Inr IntegrityFailure, R', h') \<and>
    h' = disk_remove K H dir (cache_id K p root) (snd (disk_get K H dir (cache_id K p root) h)) \<and>
    grows (\<lambda>e. \<not> is_http e) h h' \<and>
    (disk_ok K H \<longrightarrow> fst (disk_get K H dir (cache_id K p root) h') = None)"
proof -
  let ?i = "cache_id K p root"
  let ?h = "disk_remove K H dir ?i (snd (disk_get K H dir ?i h))"
  obtain h1 where get: "disk_get K H dir ?i h = (Some a, h1)" using assms(6) by (metis prod.collapse)
  have "disk_get_verified K H (R\<lparr>r_memory := m\<rparr>) p ?i h = (Some IntegrityFailure, ?h)" for m
    using assms(1,3,5,7,8) get by (cases e) (simp_all add: disk_get_verified_def)
  from resolve_disk [OF assms(2-4) this] obtain R'
    where res: "resolve K H R s h = (Inr IntegrityFailure, R', ?h)" by blast
  have "grows (\<lambda>e. \<not> is_http e) h ?h" by (rule grows_trans [OF disk.no_http(1) disk.no_http(3)])
  moreover have "disk_ok K H \<Longrightarrow> fst (disk_get K H dir ?i ?h) = None"
    by (rule disk.get_after_remove [OF _ grows_refl])
  ultimately show ?thesis using res by blast
qed

lemma demo_net_disk: "has_disk demo_net" "disk_ok demo_crates demo_net"
  unfolding demo_net_def disk_ok_def
  using demo_native_ok by (simp_all add: has_disk_def) (simp_all add: demo_host_def)

lemma disk_cache_survives_restart_witness:
  "\<exists>d R3 h2 h4. resolve demo_crates demo_net (demo_rpc (Some ''/tmp'')) ''r:x'' h2 = (Inr (Success d), R3, h4)
     \<and> rd_bytes d = [1, 2] \<and> grows (\<lambda>e. \<not> is_http e) h2 h4"
proof -
  let ?ep = "endpoint_rpc ''https://rpc.dig.net''" and ?R = "demo_rpc (Some ''/tmp'')"
  obtain f h1 where f: "rpc_fetch demo_crates demo_net ''https://rpc.dig.net'' demo_urn_r [] = (Inr f, h1)"
      "rd_bytes (f_data f) = [1, 2]" and art: "\<exists>a. f_artifacts f = Some a"
    using demo_fetched [of "[]"] by (metis prod.collapse)
  then have fetch: "fetch_from demo_crates demo_net ?ep (demo_urn_of ''r:x'') [] = (Inr f, h1)"
    by (simp add: fetch_from_def endpoint_rpc_def demo_urn_r_eq)
  obtain a where a: "f_artifacts f = Some a" using art by blast
  obtain R' h2 where put: "cache_success demo_crates demo_net ?R (demo_urn_of ''r:x'') f h1 = (R', h2)"
    by fastforce
  have "r_disk ?R = Some ''/tmp''" and "mc_stored (r_memory ?R) i = None" for i
    by (simp_all add: demo_rpc_def)
  from disk_cache_survives_restart [OF demo_net_disk demo_urn_parse demo_root fetch a this(1) put grows_refl this]
    f(2) show ?thesis by blast
qed

definition demo_bad_artifacts :: disk_artifacts where
  "demo_bad_artifacts = \<lparr>da_ciphertext = [0, 9, 9], da_proof_b64 = demo_b64_encode [0xBB, 0, 1, 2],
     da_chunk_lens = []\<rparr>"

lemma demo_bad_verify:
  "verify_and_decrypt demo_crates (demo_urn_of ''r:x'') (da_ciphertext demo_bad_artifacts)
     (da_proof_b64 demo_bad_artifacts) ''bb'' (da_chunk_lens demo_bad_artifacts)
   = Inl (VerifyFailed ''not included'')"
  by code_simp

lemma tampered_disk_entry_rejected_witness:
  "\<exists>h. fst (resolve demo_crates demo_net (demo_rpc (Some ''/tmp'')) ''r:x'' h) = Inr IntegrityFailure"
proof -
  let ?R = "demo_rpc (Some ''/tmp'')"
  let ?i = "cache_id demo_crates (demo_urn_of ''r:x'') ''bb''"
  let ?h = "disk_put demo_crates demo_net ''/tmp'' ?i demo_bad_artifacts []"
  have got: "fst (disk_get demo_crates demo_net ''/tmp'' ?i ?h) = Some demo_bad_artifacts"
    by (rule disk.get_after_put [OF demo_net_disk(2) grows_refl])
  have "mc_stored (r_memory ?R) ?i = None" and "r_disk ?R = Some ''/tmp''"
    by (simp_all add: demo_rpc_def)
  from tampered_disk_entry_rejected [OF demo_net_disk(1) demo_urn_parse demo_root this got demo_bad_verify]
  show ?thesis by (metis fst_conv is_integrity.simps(1))
qed

end
