(* ===== verification/TrustProps.thy ===== *)
theory TrustProps
  imports Ladder Demo ContentType Crypto_Model
begin

text \<open>
  The properties of the trust decisions that need no network: which hosts count as the local
  machine, which plans the ladder builds, how a secret salt is validated and which MIME type a
  resource gets.
\<close>

section \<open>Hosts\<close>

lemma resolves_to_loopbackD:
  "resolves_to_loopback H n \<Longrightarrow> feature_native H \<and>
     (\<exists>addrs. lookup_host H n = Some addrs \<and> addrs \<noteq> [] \<and> list_all ip_is_loopback addrs)"
  by (auto simp: resolves_to_loopback_def split: if_splits option.splits)

text \<open>
  C17. Node trust is loopback only: every node tier of every plan has a base URL whose parsed host
  is \<open>localhost\<close>, a loopback IP literal, or \<open>dig.local\<close> on a machine that resolves that name to
  loopback addresses only; an override never gets it otherwise.
\<close>

theorem node_trust_loopback_only:
  assumes "e \<in> set (fst (build_plan K H ov h))" and "ep_kind e = NodeKind"
  shows "\<exists>hst. parsed_host K H (ep_base e) = Some hst \<and>
    (normal_host hst = ''localhost''
     \<or> (normal_host hst = ''dig.local'' \<and> feature_native H \<and>
         (\<exists>addrs. lookup_host H ''dig.local'' = Some addrs \<and> addrs \<noteq> [] \<and> list_all ip_is_loopback addrs))
     \<or> (\<exists>ip. parse_ip (normal_host hst) = Some ip \<and> ip_is_loopback ip))"
proof -
  obtain plan h' where plan: "build_plan K H ov h = (plan, h')" by fastforce
  with assms have "is_loopback_base K H (ep_base e)" by (auto intro: build_plan_node_loopback)
  then obtain hst where "parsed_host K H (ep_base e) = Some hst" and "is_loopback_host H hst"
    by (auto simp: is_loopback_base_def split: option.splits)
  with is_loopback_hostD [of H hst] resolves_to_loopbackD [of H "''dig.local''"] show ?thesis by blast
qed

lemma demo_localhost: "is_loopback_base demo_crates H ''http://localhost:9778'' \<longleftrightarrow> feature_native H \<or> feature_wasm H"
proof -
  have "normal_host ''localhost'' = ''localhost''"
    by (rule normal_host_plain) (simp add: plain_host_def plain_char_def)
  then have "is_loopback_host H ''localhost''" by (simp add: is_loopback_host_def)
  then show ?thesis
    by (simp add: is_loopback_base_def parsed_host_def demo_crates_def demo_urls_def)
qed

lemma trim_localhost: "trim_end_matches CHR ''/'' ''http://localhost:9778'' = ''http://localhost:9778''"
  by (rule trim_end_matches_id) simp

lemma node_trust_loopback_only_witness:
  "\<exists>hst. parsed_host demo_crates (demo_host net_down) ''http://localhost:9778'' = Some hst"
proof -
  let ?e = "endpoint_node ''http://localhost:9778''"
  have "classify demo_crates (demo_host net_down) ''http://localhost:9778'' = ?e"
    by (simp add: classify_def trim_localhost demo_localhost) (simp add: demo_host_def)
  then have "?e \<in> set (fst (build_plan demo_crates (demo_host net_down) (Some ''http://localhost:9778'') []))"
    by simp
  from node_trust_loopback_only [OF this] show ?thesis by (auto simp: endpoint_node_def)
qed

text \<open>
  No name that merely looks like a loopback address is trusted: an accepted host is
  \<open>localhost\<close>, \<open>dig.local\<close>, or written in hex digits, dots and colons only, so a registrable name
  such as \<open>127.0.0.1.evil.com\<close> is refused.
\<close>

theorem loopback_lookalikes_refused:
  assumes "is_loopback_host H hst"
  shows "normal_host hst \<in> {''localhost'', ''dig.local''} \<or> set (normal_host hst) \<subseteq> ip_chars"
  using is_loopback_hostD [OF assms] parse_ip_chars by blast

lemma loopback_lookalikes_refused_witness:
  "\<not> is_loopback_host (demo_host net_down) ''127.0.0.1.evil.com''"
proof
  assume "is_loopback_host (demo_host net_down) ''127.0.0.1.evil.com''"
  from loopback_lookalikes_refused [OF this]
  have "normal_host ''127.0.0.1.evil.com'' \<in> {''localhost'', ''dig.local''} \<or>
      set (normal_host ''127.0.0.1.evil.com'') \<subseteq> ip_chars" .
  moreover have "normal_host ''127.0.0.1.evil.com'' = ''127.0.0.1.evil.com''"
    by (rule normal_host_plain) (simp add: plain_host_def plain_char_def)
  ultimately show False by (simp add: ip_chars_def)
qed

text \<open>
  Among the IPv4 literals exactly \<open>127.0.0.0/8\<close> is trusted: the dotted decimal form of an
  address is parsed back to that address, and the host is the local machine if and only if the
  first octet is 127.
\<close>

theorem v4_literal_loopback:
  "parse_ip (show_v4 (V4 a b c d)) = Some (V4 a b c d) \<and>
   (is_loopback_host H (show_v4 (V4 a b c d)) \<longleftrightarrow> a = 127)"
proof -
  have norm: "normal_host (show_v4 (V4 a b c d)) = show_v4 (V4 a b c d)"
    by (rule normal_host_plain [OF plain_show_v4])
  have "CHR ''.'' \<in> set (show_v4 (V4 a b c d))" by simp
  moreover have "CHR ''.'' \<notin> set ''localhost''" by simp
  ultimately have "show_v4 (V4 a b c d) \<noteq> ''localhost''" by metis
  then show ?thesis by (simp add: is_loopback_host_def norm parse_ip_show_v4 del: show_v4.simps)
qed

section \<open>Plans\<close>

text \<open>
  The shape of a plan: it has at least one tier and puts node tiers before gateways.  An
  override gives exactly its own tier and no request at all; otherwise the plan ends with the
  public gateway, has at most one node before it, and building it makes at most one health probe
  of each local tier.
\<close>

theorem plan_shape:
  "case build_plan K H ov h of (plan, h') \<Rightarrow>
     plan \<noteq> [] \<and> sorted (map ep_kind plan) \<and>
     (case ov of
        Some base \<Rightarrow> h' = h \<and> map ep_base plan = [trim_end_matches CHR ''/'' base]
      | None \<Rightarrow> last plan = endpoint_rpc RPC_DEFAULT_BASE \<and> length plan \<le> 2 \<and>
                grows is_health_probe h h' \<and> length h' \<le> length h + 2)"
proof -
  obtain plan h' where plan: "build_plan K H ov h = (plan, h')" by fastforce
  have len: "length h' \<le> length h + 2"
    using plan by (cases ov)
      (auto simp: build_plan_def probe_tiers.simps health_ok_def http_get_def
        split: if_splits prod.splits sum.splits bool.splits)
  show ?thesis
    using plan
  proof (cases rule: build_plan_cases)
    case (override base)
    with plan show ?thesis by (simp add: classify_base)
  next
    case gateway
    with plan len build_plan_grows [OF plan] show ?thesis by simp
  next
    case (node t)
    with plan len build_plan_grows [OF plan] show ?thesis
      by (simp add: endpoint_defs less_eq_endpoint_kind_def)
  qed
qed

section \<open>Salts\<close>

text \<open>
  A malformed secret salt is a hard parse error: a salt that is present, not blank and not 64
  hex digits makes decryption, with or without verification, fail with that error before any
  other input is looked at; a blank salt is no salt.
\<close>

theorem malformed_salt_is_parse_error:
  "(bad_salt K p \<longrightarrow>
      decrypt K p ct lens = Inl (Parse ''secret salt must be 64 hex chars'') \<and>
      verify_and_decrypt K p ct wire root lens = Inl (Parse ''secret salt must be 64 hex chars''))
   \<and> (trim s = [] \<longrightarrow> parse_salt K (Some s) = parse_salt K None)"
  using parse_salt_bad [of K p] by (auto simp: decrypt_def verify_and_decrypt_def parse_salt_def)

lemma malformed_salt_is_parse_error_witness:
  "verify_and_decrypt demo_crates \<lparr>urn = \<lparr>d_chain = ''chia'', d_store = ''aa'', d_root = None, d_key = ''x''\<rparr>, salt = Some ''aaaa''\<rparr> [1] ''p'' ''bb'' []
     = Inl (Parse ''secret salt must be 64 hex chars'')
   \<and> parse_salt demo_crates (Some ''  '') = parse_salt demo_crates None"
proof -
  have "trim ''aaaa'' \<noteq> []" and blank: "trim ''  '' = []" by code_simp+
  then have "bad_salt demo_crates \<lparr>urn = \<lparr>d_chain = ''chia'', d_store = ''aa'', d_root = None, d_key = ''x''\<rparr>, salt = Some ''aaaa''\<rparr>"
    by (simp add: bad_salt_def) (simp add: demo_crates_def)
  with blank malformed_salt_is_parse_error [of demo_crates "\<lparr>urn = \<lparr>d_chain = ''chia'', d_store = ''aa'', d_root = None, d_key = ''x''\<rparr>, salt = Some ''aaaa''\<rparr>" "[1]" "[]" "''p''" "''bb''" "''  ''"]
  show ?thesis by blast
qed

section \<open>Content types\<close>

text \<open>What a signature means: the bytes begin with it.\<close>

lemma starts_with: "length xs = n \<Longrightarrow> take n b = xs \<longleftrightarrow> (\<exists>r. b = xs @ r)"
  by (metis append_eq_conv_conj append_take_drop_id)

lemma container:
  assumes "length xs = 4" and "length ys = 4"
  shows "take 4 b = xs \<and> take 4 (drop 8 b) = ys \<longleftrightarrow> (\<exists>w r. length w = 4 \<and> b = xs @ w @ ys @ r)"
proof
  assume a: "take 4 b = xs \<and> take 4 (drop 8 b) = ys"
  then have "length (take 4 (drop 8 b)) = 4" using assms(2) by simp
  then have w: "length (take 4 (drop 4 b)) = 4" by (simp add: min_def split: if_splits)
  have "b = take 4 b @ take 4 (drop 4 b) @ take 4 (drop 4 (drop 4 b)) @ drop 4 (drop 4 (drop 4 b))"
    by (simp only: append_take_drop_id)
  then have "b = xs @ take 4 (drop 4 b) @ ys @ drop 12 b" using a by simp
  with w show "\<exists>w r. length w = 4 \<and> b = xs @ w @ ys @ r" by blast
next
  assume "\<exists>w r. length w = 4 \<and> b = xs @ w @ ys @ r"
  with assms show "take 4 b = xs \<and> take 4 (drop 8 b) = ys" by auto
qed

lemma active_arms:
  "map_of extension_arms e = Some ''text/html'' \<longleftrightarrow> e \<in> {''html'', ''htm''}"
  "map_of extension_arms e = Some ''text/javascript'' \<longleftrightarrow> e \<in> {''js'', ''mjs''}"
  "map_of extension_arms e = Some ''image/svg+xml'' \<longleftrightarrow> e = ''svg''"
  "map_of extension_arms e = Some ''application/xml'' \<longleftrightarrow> e = ''xml''"
  "map_of extension_arms e = Some ''text/css'' \<longleftrightarrow> e = ''css''"
  by (simp_all add: extension_arms_def)

lemma magics:
  "str_bytes ''GIF8'' = [0x47, 0x49, 0x46, 0x38]" "str_bytes ''RIFF'' = [0x52, 0x49, 0x46, 0x46]"
  "str_bytes ''WEBP'' = [0x57, 0x45, 0x42, 0x50]" "str_bytes ''%PDF'' = [0x25, 0x50, 0x44, 0x46]"
  by code_simp+

lemma sniffed:
  "from_magic_bytes b = Some ''image/png'' \<longleftrightarrow> (\<exists>r. b = [0x89, 0x50, 0x4E, 0x47, 0x0D, 0x0A, 0x1A, 0x0A] @ r)"
  "from_magic_bytes b = Some ''image/jpeg'' \<longleftrightarrow> (\<exists>r. b = [0xFF, 0xD8, 0xFF] @ r)"
  "from_magic_bytes b = Some ''image/gif'' \<longleftrightarrow> (\<exists>r. b = str_bytes ''GIF8'' @ r)"
  "from_magic_bytes b = Some ''application/pdf'' \<longleftrightarrow> (\<exists>r. b = str_bytes ''%PDF'' @ r)"
  "from_magic_bytes b = Some ''application/wasm'' \<longleftrightarrow> (\<exists>r. b = [0x00, 0x61, 0x73, 0x6D] @ r)"
  by (auto simp: from_magic_bytes_def magics starts_with)

lemma sniffed_container:
  "from_magic_bytes b = Some ''image/webp'' \<longleftrightarrow>
     (\<exists>size r. length size = 4 \<and> b = str_bytes ''RIFF'' @ size @ str_bytes ''WEBP'' @ r)"
proof -
  have "from_magic_bytes b = Some ''image/webp'' \<longleftrightarrow>
      take 4 b = str_bytes ''RIFF'' \<and> take 4 (drop 8 b) = str_bytes ''WEBP''"
    by (auto simp: from_magic_bytes_def magics starts_with)
  then show ?thesis by (simp add: container)
qed

lemma sniffed_passive:
  "from_magic_bytes b = Some m \<Longrightarrow>
     m \<in> {''image/png'', ''image/jpeg'', ''image/gif'', ''image/webp'', ''application/pdf'', ''application/wasm''}"
  by (auto simp: from_magic_bytes_def split: if_splits)

lemma derive_eq:
  assumes "ext = to_ascii_lowercase (last (split_on CHR ''.'' key))"
  shows "derive key b = (case map_of extension_arms ext of Some m \<Rightarrow> m
    | None \<Rightarrow> (case from_magic_bytes b of Some m \<Rightarrow> m | None \<Rightarrow> ''application/octet-stream''))"
  by (simp add: derive_def from_extension_def assms DEFAULT_CONTENT_TYPE_def split: option.split)

text \<open>A type that neither the signatures nor the fallback give comes from the name alone.\<close>

lemma by_name_only:
  assumes "ext = to_ascii_lowercase (last (split_on CHR ''.'' key))"
    and "m \<notin> {''image/png'', ''image/jpeg'', ''image/gif'', ''image/webp'', ''application/pdf'', ''application/wasm'',
      ''application/octet-stream''}"
  shows "derive key b = m \<longleftrightarrow> map_of extension_arms ext = Some m"
proof (cases "map_of extension_arms ext")
  case None
  with assms(2) sniffed_passive [of b] show ?thesis
    by (cases "from_magic_bytes b") (auto simp: derive_eq [OF assms(1)])
qed (simp add: derive_eq [OF assms(1)])

lemma by_signature:
  assumes "ext = to_ascii_lowercase (last (split_on CHR ''.'' key))" and "ext \<notin> fst ` set extension_arms"
  shows "m \<noteq> ''application/octet-stream'' \<Longrightarrow> derive key b = m \<longleftrightarrow> from_magic_bytes b = Some m"
    and "derive key b = ''application/octet-stream'' \<longleftrightarrow> from_magic_bytes b = None"
proof -
  have "map_of extension_arms ext = None" using assms(2) by (simp add: map_of_eq_None_iff)
  then have "derive key b = (case from_magic_bytes b of Some m \<Rightarrow> m | None \<Rightarrow> ''application/octet-stream'')"
    by (simp add: derive_eq [OF assms(1)])
  then show "m \<noteq> ''application/octet-stream'' \<Longrightarrow> derive key b = m \<longleftrightarrow> from_magic_bytes b = Some m"
      "derive key b = ''application/octet-stream'' \<longleftrightarrow> from_magic_bytes b = None"
    using sniffed_passive [of b] by (auto split: option.split)
qed

text \<open>
  C39. Bytes never make a resource active.  The types a browser runs or interprets (HTML, JavaScript,
  SVG, XML, style sheets) are given by the name alone: exactly to the keys whose text after the last dot,
  or whole text when there is none, is one of the seven extensions of these types, in any case, whatever
  the bytes are.  A key with no known extension gets a picture, PDF or WebAssembly type exactly when
  the bytes begin with the signature of that format, and the generic type otherwise.
\<close>

theorem active_type_only_by_name:
  assumes "ext = to_ascii_lowercase (last (split_on CHR ''.'' key))"
  shows "(derive key b = ''text/html'' \<longleftrightarrow> ext = ''html'' \<or> ext = ''htm'')
    \<and> (derive key b = ''text/javascript'' \<longleftrightarrow> ext = ''js'' \<or> ext = ''mjs'')
    \<and> (derive key b = ''image/svg+xml'' \<longleftrightarrow> ext = ''svg'')
    \<and> (derive key b = ''application/xml'' \<longleftrightarrow> ext = ''xml'')
    \<and> (derive key b = ''text/css'' \<longleftrightarrow> ext = ''css'')
    \<and> (ext \<notin> fst ` set extension_arms \<longrightarrow>
        (derive key b = ''image/png'' \<longleftrightarrow> (\<exists>r. b = [0x89, 0x50, 0x4E, 0x47, 0x0D, 0x0A, 0x1A, 0x0A] @ r))
      \<and> (derive key b = ''image/jpeg'' \<longleftrightarrow> (\<exists>r. b = [0xFF, 0xD8, 0xFF] @ r))
      \<and> (derive key b = ''image/gif'' \<longleftrightarrow> (\<exists>r. b = str_bytes ''GIF8'' @ r))
      \<and> (derive key b = ''image/webp'' \<longleftrightarrow>
          (\<exists>size r. length size = 4 \<and> b = str_bytes ''RIFF'' @ size @ str_bytes ''WEBP'' @ r))
      \<and> (derive key b = ''application/pdf'' \<longleftrightarrow> (\<exists>r. b = str_bytes ''%PDF'' @ r))
      \<and> (derive key b = ''application/wasm'' \<longleftrightarrow> (\<exists>r. b = [0x00, 0x61, 0x73, 0x6D] @ r))
      \<and> (derive key b \<in> {''image/png'', ''image/jpeg'', ''image/gif'', ''image/webp'', ''application/pdf'',
          ''application/wasm'', ''application/octet-stream''}))"
proof (intro conjI [where P = "_ = _"] impI)
  note named = by_name_only [OF assms, where b = b]
  show "derive key b = ''text/html'' \<longleftrightarrow> ext = ''html'' \<or> ext = ''htm''"
    "derive key b = ''text/javascript'' \<longleftrightarrow> ext = ''js'' \<or> ext = ''mjs''"
    "derive key b = ''image/svg+xml'' \<longleftrightarrow> ext = ''svg''"
    "derive key b = ''application/xml'' \<longleftrightarrow> ext = ''xml''"
    "derive key b = ''text/css'' \<longleftrightarrow> ext = ''css''"
    by (simp_all add: named active_arms)
next
  assume "ext \<notin> fst ` set extension_arms"
  note signed = by_signature [OF assms this, where b = b]
  show "derive key b = ''image/png'' \<longleftrightarrow> (\<exists>r. b = [0x89, 0x50, 0x4E, 0x47, 0x0D, 0x0A, 0x1A, 0x0A] @ r)"
    "derive key b = ''image/jpeg'' \<longleftrightarrow> (\<exists>r. b = [0xFF, 0xD8, 0xFF] @ r)"
    "derive key b = ''image/gif'' \<longleftrightarrow> (\<exists>r. b = str_bytes ''GIF8'' @ r)"
    "derive key b = ''image/webp'' \<longleftrightarrow>
      (\<exists>size r. length size = 4 \<and> b = str_bytes ''RIFF'' @ size @ str_bytes ''WEBP'' @ r)"
    "derive key b = ''application/pdf'' \<longleftrightarrow> (\<exists>r. b = str_bytes ''%PDF'' @ r)"
    "derive key b = ''application/wasm'' \<longleftrightarrow> (\<exists>r. b = [0x00, 0x61, 0x73, 0x6D] @ r)"
    by (simp_all add: signed(1) sniffed sniffed_container del: append.simps)
  show "derive key b \<in> {''image/png'', ''image/jpeg'', ''image/gif'', ''image/webp'', ''application/pdf'',
          ''application/wasm'', ''application/octet-stream''}"
    using signed sniffed_passive [of b] by (cases "from_magic_bytes b") auto
qed

text \<open>A page under the name of a picture stays a picture, and one without an extension is never a page.\<close>

lemma active_type_only_by_name_witness:
  "derive ''img/logo.PNG'' (str_bytes ''<html>'') \<noteq> ''text/html'' \<and> derive ''img/logo'' (str_bytes ''<html>'') \<noteq> ''text/html'' \<and>
   derive ''index.HTM'' [] = ''text/html'' \<and> derive ''img/logo'' [0xFF, 0xD8, 0xFF, 0xE0] = ''image/jpeg''"
proof -
  have ext: "to_ascii_lowercase (last (split_on CHR ''.'' ''img/logo.PNG'')) = ''png''"
    "to_ascii_lowercase (last (split_on CHR ''.'' ''img/logo'')) = ''img/logo''"
    "to_ascii_lowercase (last (split_on CHR ''.'' ''index.HTM'')) = ''htm''"
    by code_simp+
  have none: "''img/logo'' \<notin> fst ` set extension_arms" by (simp add: extension_arms_def)
  from active_type_only_by_name [OF ext(1) [symmetric]] active_type_only_by_name [OF ext(2) [symmetric]] none
    active_type_only_by_name [OF ext(3) [symmetric]]
  show ?thesis by simp
qed

end
