(* ===== verification/AsyncResolve.thy ===== *)
theory AsyncResolve
  imports ResolverProps
begin

text \<open>
  The asynchronous side of \<open>src/src/resolver.rs\<close>.  \<open>resolve\<close> takes \<open>&self\<close>, so several resolves on
  one resolver can be in flight on one thread, and each gives up control where it awaits the
  transport.  Here a resolve is a task that is polled: a poll runs the code from one await of the
  transport to the next, with nothing in between, and leaves the task suspended with everything
  it still needs.  A pool is a resolver with its tasks; the polls of different tasks, new tasks,
  cancelled ones (a dropped future), events of the outside world and late answers come in any order.
\<close>

section \<open>Tasks\<close>

text \<open>The state of the ladder loop: the URN, the last index, the current index, the tiers after it.\<close>

record 'u cursor =
  c_urn :: "'u parsed_urn"
  c_last :: nat
  c_index :: nat
  c_rest :: "endpoint list"

text \<open>Where a task awaits: a health probe, a node read, or a window of the gateway.\<close>

datatype 'u wait =
    AtProbe "'u parsed_urn" string "string list"
  | AtNode "'u cursor" string
  | AtWindow "'u cursor" string string window_state

text \<open>A suspended task has its request out; the answer is what the transport makes of it, so far.\<close>

type_synonym answer = "transport_error + http_response"
type_synonym outcome = "resolve_error + resolve_outcome"

datatype 'u task = Started | Waiting "'u wait" answer | Ended outcome | Dropped

type_synonym 'u config = "'u task \<times> resolver \<times> history"

definition await_get :: "host \<Rightarrow> 'u wait \<Rightarrow> string \<Rightarrow> resolver \<Rightarrow> history \<Rightarrow> 'u config" where
  "await_get H w url R h = (case http_get (transport H) url h of (a, h') \<Rightarrow> (Waiting w a, R, h'))"

definition await_post :: "host \<Rightarrow> 'u wait \<Rightarrow> string \<Rightarrow> string \<Rightarrow> resolver \<Rightarrow> history \<Rightarrow> 'u config" where
  "await_post H w url bdy R h = (case post_json (transport H) url bdy h of (a, h') \<Rightarrow> (Waiting w a, R, h'))"

section \<open>The code between two awaits\<close>

text \<open>The top of the window loop: the count of the windows, then the request.\<close>

definition send_window ::
    "('u, 'm) crates \<Rightarrow> host \<Rightarrow> 'u cursor \<Rightarrow> string \<Rightarrow> string \<Rightarrow> window_state \<Rightarrow> resolver \<Rightarrow> history
      \<Rightarrow> resolve_error + 'u config" where
  "send_window K H c base root st R h =
     (let st1 = st\<lparr>w_windows := w_windows st + 1\<rparr>
      in if MAX_WINDOWS < w_windows st1 then Inl (Rpc ''too many content windows'')
         else Inr (await_post H (AtWindow c base root st1) base
                (rpc_body K ''dig.getContent'' (window_params K (c_urn c) root (w_offset st1))) R h))"

text \<open>The start of a fetch, up to its first request.\<close>

definition start_fetch ::
    "('u, 'm) crates \<Rightarrow> host \<Rightarrow> 'u cursor \<Rightarrow> endpoint \<Rightarrow> resolver \<Rightarrow> history \<Rightarrow> resolve_error + 'u config" where
  "start_fetch K H c ep R h =
     (case ep_kind ep of
        NodeKind \<Rightarrow> Inr (await_get H (AtNode c (ep_base ep)) (serve_url K (ep_base ep) (c_urn c)) R h)
      | RpcKind \<Rightarrow>
         (case trusted_root K (c_urn c) of
            Inl e \<Rightarrow> Inl e
          | Inr root \<Rightarrow> send_window K H c (trim_end_matches CHR ''/'' (ep_base ep)) root window_start R h))"

text \<open>The error arms of the loop: a result, or on to the next tier.\<close>

definition tier_error :: "resolve_error \<Rightarrow> nat \<Rightarrow> nat \<Rightarrow> outcome option" where
  "tier_error e i lst =
     (case e of
        VerifyFailed m \<Rightarrow> Some (Inr IntegrityFailure)
      | DecryptFailed \<Rightarrow> Some (Inr IntegrityFailure)
      | NotFound \<Rightarrow> if i = lst then Some (Inl NotFound) else None
      | Transport m \<Rightarrow> if i = lst then Some (Inr Unreachable) else None
      | _ \<Rightarrow> Some (Inl e))"

fun enter ::
    "('u, 'm) crates \<Rightarrow> host \<Rightarrow> 'u parsed_urn \<Rightarrow> nat \<Rightarrow> nat \<Rightarrow> endpoint list \<Rightarrow> resolver \<Rightarrow> history \<Rightarrow> 'u config" where
  "enter K H p lst i [] R h = (Ended (Inr Unreachable), R, h)"
| "enter K H p lst i (ep # eps) R h =
     (case start_fetch K H \<lparr>c_urn = p, c_last = lst, c_index = i, c_rest = eps\<rparr> ep R h of
        Inr cfg \<Rightarrow> cfg
      | Inl e \<Rightarrow>
         (case tier_error e i lst of
            Some r \<Rightarrow> (Ended r, R, h)
          | None \<Rightarrow> enter K H p lst (i + 1) eps R h))"

text \<open>The result of a fetch reaches the loop.\<close>

definition settle ::
    "('u, 'm) crates \<Rightarrow> host \<Rightarrow> 'u cursor \<Rightarrow> resolve_error + fetched \<Rightarrow> resolver \<Rightarrow> history \<Rightarrow> 'u config" where
  "settle K H c a R h =
     (case a of
        Inr f \<Rightarrow> (case cache_success K H R (c_urn c) f h of (R', h') \<Rightarrow> (Ended (Inr (Success (f_data f))), R', h'))
      | Inl e \<Rightarrow>
         (case tier_error e (c_index c) (c_last c) of
            Some r \<Rightarrow> (Ended r, R, h)
          | None \<Rightarrow> enter K H (c_urn c) (c_last c) (c_index c + 1) (c_rest c) R h))"

text \<open>The plan is stored in the resolver as it is now, and the loop begins.\<close>

definition planned ::
    "('u, 'm) crates \<Rightarrow> host \<Rightarrow> 'u parsed_urn \<Rightarrow> endpoint list \<Rightarrow> resolver \<Rightarrow> history \<Rightarrow> 'u config" where
  "planned K H p plan R h =
     enter K H p (length plan - 1) 0 plan (R\<lparr>r_plan_cache := Some plan\<rparr>) h"

fun probe_next ::
    "('u, 'm) crates \<Rightarrow> host \<Rightarrow> 'u parsed_urn \<Rightarrow> string list \<Rightarrow> resolver \<Rightarrow> history \<Rightarrow> 'u config" where
  "probe_next K H p [] R h = planned K H p [endpoint_rpc RPC_DEFAULT_BASE] R h"
| "probe_next K H p (tier # tiers) R h =
     (if is_loopback_base K H tier then await_get H (AtProbe p tier tiers) (health_url tier) R h
      else probe_next K H p tiers R h)"

definition start_ladder ::
    "('u, 'm) crates \<Rightarrow> host \<Rightarrow> 'u parsed_urn \<Rightarrow> resolver \<Rightarrow> history \<Rightarrow> 'u config" where
  "start_ladder K H p R h =
     (case r_plan_cache R of
        Some plan \<Rightarrow> enter K H p (length plan - 1) 0 plan R h
      | None \<Rightarrow>
         (case o_endpoint (r_options R) of
            Some base \<Rightarrow> planned K H p [classify K H base] R h
          | None \<Rightarrow> probe_next K H p [DIG_LOCAL_BASE, LOCALHOST_BASE] R h))"

section \<open>A poll\<close>

text \<open>The first poll: everything up to the first request.\<close>

definition launch :: "('u, 'm) crates \<Rightarrow> host \<Rightarrow> string \<Rightarrow> resolver \<Rightarrow> history \<Rightarrow> 'u config" where
  "launch K H s R h =
     (case parse_urn K s of
        Inl e \<Rightarrow> (Ended (Inl e), R, h)
      | Inr p \<Rightarrow>
         (case map_option (cache_id K p) (root_hex K p) of
            None \<Rightarrow> start_ladder K H p R h
          | Some i \<Rightarrow>
             (case mc_get (r_memory R) i of
                (Some d, m) \<Rightarrow> (Ended (Inr (Success d)), R\<lparr>r_memory := m\<rparr>, h)
              | (None, m) \<Rightarrow>
                 (let R1 = R\<lparr>r_memory := m\<rparr>
                  in case disk_get_verified K H R1 p i h of
                       (Some oc, h1) \<Rightarrow>
                         (Ended (Inr oc),
                          (case oc of Success d \<Rightarrow> R1\<lparr>r_memory := mc_put m i d\<rparr> | _ \<Rightarrow> R1), h1)
                     | (None, h1) \<Rightarrow> start_ladder K H p R1 h1))))"

text \<open>The end of \<open>rpc::fetch\<close>: the assembled ciphertext goes through the gate.\<close>

definition assembled ::
    "('u, 'm) crates \<Rightarrow> 'u parsed_urn \<Rightarrow> string \<Rightarrow> window_state \<Rightarrow> resolve_error + fetched" where
  "assembled K p root st =
     (case verify_and_decrypt K p (w_buf st) (w_proof st) root (w_chunk_lens st) of
        Inl e \<Rightarrow> Inl e
      | Inr b \<Rightarrow>
          Inr \<lparr>f_data = resolved_data_new b (derive (resource_key K p) b), f_root = Some root,
               f_artifacts = Some \<lparr>da_ciphertext = w_buf st, da_proof_b64 = w_proof st,
                                   da_chunk_lens = w_chunk_lens st\<rparr>\<rparr>)"

text \<open>One answered window: the result of the fetch, or the state with which the next one is asked.\<close>

definition window_answered ::
    "('u, 'm) crates \<Rightarrow> 'u parsed_urn \<Rightarrow> string \<Rightarrow> window_state \<Rightarrow> answer
      \<Rightarrow> (resolve_error + fetched) + window_state" where
  "window_answered K p root st a =
     (case a of
        Inl (TransportError m) \<Rightarrow> Inl (Inl (Transport m))
      | Inr resp \<Rightarrow>
         (case rpc_result K (sj_get_content K) ''dig.getContent'' resp of
            Inl e \<Rightarrow> Inl (Inl e)
          | Inr r \<Rightarrow>
             (case absorb_window K r st of
                Inl e \<Rightarrow> Inl (Inl e)
              | Inr st' \<Rightarrow>
                 (case advance r st' of
                    Inl e \<Rightarrow> Inl (Inl e)
                  | Inr None \<Rightarrow> Inl (assembled K p root st')
                  | Inr (Some st'') \<Rightarrow> Inr st''))))"

definition ask_window ::
    "('u, 'm) crates \<Rightarrow> host \<Rightarrow> 'u cursor \<Rightarrow> string \<Rightarrow> string \<Rightarrow> window_state \<Rightarrow> resolver \<Rightarrow> history \<Rightarrow> 'u config" where
  "ask_window K H c base root st R h =
     (case send_window K H c base root st R h of
        Inl e \<Rightarrow> settle K H c (Inl e) R h
      | Inr cfg \<Rightarrow> cfg)"

fun resume :: "('u, 'm) crates \<Rightarrow> host \<Rightarrow> 'u wait \<Rightarrow> answer \<Rightarrow> resolver \<Rightarrow> history \<Rightarrow> 'u config" where
  "resume K H (AtProbe p tier tiers) a R h =
     (if (case a of Inr resp \<Rightarrow> is_success resp | Inl _ \<Rightarrow> False)
      then planned K H p [endpoint_node tier, endpoint_rpc RPC_DEFAULT_BASE] R h
      else probe_next K H p tiers R h)"
| "resume K H (AtNode c base) a R h =
     settle K H c
       (case a of Inl (TransportError m) \<Rightarrow> Inl (Transport m) | Inr resp \<Rightarrow> node_answer K (c_urn c) resp) R h"
| "resume K H (AtWindow c base root st) a R h =
     (case window_answered K (c_urn c) root st a of
        Inl res \<Rightarrow> settle K H c res R h
      | Inr st' \<Rightarrow> ask_window K H c base root st' R h)"

fun poll :: "('u, 'm) crates \<Rightarrow> host \<Rightarrow> string \<Rightarrow> 'u config \<Rightarrow> 'u config" where
  "poll K H s (Started, R, h) = launch K H s R h"
| "poll K H s (Waiting w a, R, h) = resume K H w a R h"
| "poll K H s (Ended r, R, h) = (Ended r, R, h)"
| "poll K H s (Dropped, R, h) = (Dropped, R, h)"

section \<open>Pools\<close>

text \<open>The request a suspended task waits for, and an answer that was formed at another time.\<close>

fun request_of :: "('u, 'm) crates \<Rightarrow> 'u wait \<Rightarrow> event" where
  "request_of K (AtProbe p tier tiers) = HttpGet (health_url tier)"
| "request_of K (AtNode c base) = HttpGet (serve_url K base (c_urn c))"
| "request_of K (AtWindow c base root st) =
     HttpPost base (rpc_body K ''dig.getContent'' (window_params K (c_urn c) root (w_offset st)))"

fun late :: "('u, 'm) crates \<Rightarrow> host \<Rightarrow> history \<Rightarrow> 'u task \<Rightarrow> 'u task" where
  "late K H h (Waiting w a) = Waiting w (transport H h (request_of K w))"
| "late K H h t = t"

text \<open>The resolver, the history, and the tasks with the URN each was asked for.\<close>

record 'u pool =
  po_resolver :: resolver
  po_history :: history
  po_tasks :: "(string \<times> 'u task) list"

text \<open>
  What can happen: a call, a poll, a dropped future, an event of the outside world, and the answer
  to a task's request coming from the transport after some other history than the one at which
  the request was sent, such as the one at the time it arrives.
\<close>

datatype action = Spawn string | Poll nat | Cancel nat | Outside event | Late nat history

fun perform :: "('u, 'm) crates \<Rightarrow> host \<Rightarrow> 'u pool \<Rightarrow> action \<Rightarrow> 'u pool" where
  "perform K H P (Spawn s) = P\<lparr>po_tasks := po_tasks P @ [(s, Started)]\<rparr>"
| "perform K H P (Poll n) =
     (if n < length (po_tasks P) then
        (case po_tasks P ! n of
           (s, t) \<Rightarrow> (case poll K H s (t, po_resolver P, po_history P) of
             (t', R', h') \<Rightarrow> \<lparr>po_resolver = R', po_history = h', po_tasks = (po_tasks P)[n := (s, t')]\<rparr>))
      else P)"
| "perform K H P (Cancel n) =
     (if n < length (po_tasks P) then
        (case po_tasks P ! n of
           (s, t) \<Rightarrow> P\<lparr>po_tasks := (po_tasks P)[n := (s, case t of Ended r \<Rightarrow> Ended r | _ \<Rightarrow> Dropped)]\<rparr>)
      else P)"
| "perform K H P (Outside e) = P\<lparr>po_history := po_history P @ [e]\<rparr>"
| "perform K H P (Late n h) =
     (if n < length (po_tasks P) then
        (case po_tasks P ! n of (s, t) \<Rightarrow> P\<lparr>po_tasks := (po_tasks P)[n := (s, late K H h t)]\<rparr>)
      else P)"

definition run_pool :: "('u, 'm) crates \<Rightarrow> host \<Rightarrow> action list \<Rightarrow> 'u pool \<Rightarrow> 'u pool" where
  "run_pool K H acts P = foldl (perform K H) P acts"

inductive interleaved :: "('u, 'm) crates \<Rightarrow> host \<Rightarrow> resolve_options \<Rightarrow> 'u pool \<Rightarrow> bool" for K H opts where
  opened: "with_options H opts h = (R, h') \<Longrightarrow>
     interleaved K H opts \<lparr>po_resolver = R, po_history = h', po_tasks = []\<rparr>"
| acted: "interleaved K H opts P \<Longrightarrow> interleaved K H opts (perform K H P a)"

inductive_cases interleaved_elim: "interleaved K H opts P"

section \<open>The invariant of a pool\<close>

definition tiers_ok :: "('u, 'm) crates \<Rightarrow> host \<Rightarrow> resolve_options \<Rightarrow> endpoint list \<Rightarrow> bool" where
  "tiers_ok K H opts eps \<longleftrightarrow>
     (\<forall>e \<in> set eps. case ep_kind e of NodeKind \<Rightarrow> node_base K H opts (ep_base e)
                                    | RpcKind \<Rightarrow> ep_base e = rpc_base opts)"

lemma plan_ok_tiers: "plan_ok K H opts plan \<longleftrightarrow> plan \<noteq> [] \<and> tiers_ok K H opts plan"
  by (simp add: plan_ok_def tiers_ok_def)

lemma tiers_ok_simps [simp]:
  "tiers_ok K H opts []"
  "tiers_ok K H opts (e # es) \<longleftrightarrow>
     (case ep_kind e of NodeKind \<Rightarrow> node_base K H opts (ep_base e) | RpcKind \<Rightarrow> ep_base e = rpc_base opts)
       \<and> tiers_ok K H opts es"
  by (simp_all add: tiers_ok_def)

text \<open>What a success is justified by, for the URN of its task.\<close>

definition sound_success :: "('u, 'm) crates \<Rightarrow> host \<Rightarrow> resolve_options \<Rightarrow> string \<Rightarrow> resolved_data \<Rightarrow> bool" where
  "sound_success K H opts s d \<longleftrightarrow>
     (\<exists>p p' root. parse_urn K s = Inr p \<and> source_of K p p' root \<and> provenance K H opts p' root d)"

text \<open>What may be handed to the loop as the result of a fetch of \<open>p\<close>.\<close>

definition fetched_ok :: "('u, 'm) crates \<Rightarrow> host \<Rightarrow> resolve_options \<Rightarrow> 'u parsed_urn \<Rightarrow> fetched \<Rightarrow> bool" where
  "fetched_ok K H opts p f \<longleftrightarrow>
     (\<forall>root. f_root f = Some root \<longrightarrow> provenance K H opts p root (f_data f)) \<and>
     (\<exists>root. source_of K p p root \<and> provenance K H opts p root (f_data f))"

text \<open>A local tier: only without an override is the ladder probed.\<close>

definition local_tiers :: "('u, 'm) crates \<Rightarrow> host \<Rightarrow> resolve_options \<Rightarrow> string list \<Rightarrow> bool" where
  "local_tiers K H opts ts \<longleftrightarrow> o_endpoint opts = None \<and> set ts \<subseteq> {DIG_LOCAL_BASE, LOCALHOST_BASE}"

fun wait_ok :: "('u, 'm) crates \<Rightarrow> host \<Rightarrow> resolve_options \<Rightarrow> 'u parsed_urn \<Rightarrow> 'u wait \<Rightarrow> answer \<Rightarrow> bool" where
  "wait_ok K H opts p (AtProbe q tier tiers) a \<longleftrightarrow>
     q = p \<and> local_tiers K H opts (tier # tiers) \<and> is_loopback_base K H tier"
| "wait_ok K H opts p (AtNode c base) a \<longleftrightarrow>
     c_urn c = p \<and> tiers_ok K H opts (c_rest c) \<and> node_base K H opts base \<and>
     (\<exists>h. a = transport H h (HttpGet (serve_url K base p)))"
| "wait_ok K H opts p (AtWindow c base root st) a \<longleftrightarrow>
     c_urn c = p \<and> tiers_ok K H opts (c_rest c) \<and> root_hex K p = Some root \<and>
     base = trim_end_matches CHR ''/'' (rpc_base opts)"

fun task_ok :: "('u, 'm) crates \<Rightarrow> host \<Rightarrow> resolve_options \<Rightarrow> string \<Rightarrow> 'u task \<Rightarrow> bool" where
  "task_ok K H opts s (Waiting w a) \<longleftrightarrow> (\<exists>p. parse_urn K s = Inr p \<and> wait_ok K H opts p w a)"
| "task_ok K H opts s (Ended (Inr (Success d))) \<longleftrightarrow> sound_success K H opts s d"
| "task_ok K H opts s _ \<longleftrightarrow> True"

definition request_ok :: "('u, 'm) crates \<Rightarrow> host \<Rightarrow> resolve_options \<Rightarrow> string \<Rightarrow> event \<Rightarrow> bool" where
  "request_ok K H opts s e \<longleftrightarrow>
     (is_http e \<longrightarrow> (\<exists>p. parse_urn K s = Inr p \<and> allowed_request K H opts p True e))"

text \<open>A poll of the task of \<open>s\<close> that began at the history \<open>h0\<close> may leave this.\<close>

definition polled_ok ::
    "('u, 'm) crates \<Rightarrow> host \<Rightarrow> resolve_options \<Rightarrow> string \<Rightarrow> history \<Rightarrow> 'u config \<Rightarrow> bool" where
  "polled_ok K H opts s h0 cfg \<longleftrightarrow>
     (case cfg of (t, R, h) \<Rightarrow> task_ok K H opts s t \<and> resolver_ok K H opts R \<and> grows (request_ok K H opts s) h0 h)"

definition pool_ok :: "('u, 'm) crates \<Rightarrow> host \<Rightarrow> resolve_options \<Rightarrow> 'u pool \<Rightarrow> bool" where
  "pool_ok K H opts P \<longleftrightarrow> resolver_ok K H opts (po_resolver P) \<and>
     (\<forall>(s, t) \<in> set (po_tasks P). task_ok K H opts s t)"

section \<open>A poll keeps it\<close>

lemma tier_error_cases:
  "(\<exists>r. tier_error e i lst = Some r \<and> (\<forall>d. r \<noteq> Inr (Success d))) \<or> tier_error e i lst = None"
  by (cases e) (auto simp: tier_error_def)

lemma polled_ok_Ended:
  assumes "\<forall>d. r \<noteq> Inr (Success d)" and "resolver_ok K H opts R" and "grows (request_ok K H opts s) h0 h"
  shows "polled_ok K H opts s h0 (Ended r, R, h)"
proof -
  have "task_ok K H opts s (Ended r)"
    using assms(1) by (cases r) (simp, metis resolve_outcome.exhaust task_ok.simps(5,6))
  with assms(2,3) show ?thesis by (simp add: polled_ok_def)
qed

lemma send_window_ok:
  assumes "parse_urn K s = Inr p" and "resolver_ok K H opts R" and "grows (request_ok K H opts s) h0 h"
    and "c_urn c = p" and "tiers_ok K H opts (c_rest c)" and "root_hex K p = Some root"
    and "base = trim_end_matches CHR ''/'' (rpc_base opts)"
    and "send_window K H c base root st R h = Inr cfg"
  shows "polled_ok K H opts s h0 cfg"
proof -
  let ?st = "st\<lparr>w_windows := w_windows st + 1\<rparr>"
  let ?e = "window_request K base p root (w_offset st)"
  have cfg: "cfg = (Waiting (AtWindow c base root ?st) (transport H h ?e), R, h @ [?e])"
    using assms(4,8)
    by (auto simp: send_window_def Let_def await_post_def post_json_def window_request_def split: if_splits)
  have "allowed_request K H opts p True ?e"
    using assms(6,7) by (auto simp: allowed_request_def rpc_request_def)
  with assms(1) have "request_ok K H opts s ?e" by (auto simp: request_ok_def)
  with assms(3) have "grows (request_ok K H opts s) h0 (h @ [?e])"
    by (blast intro: grows_trans grows_snoc)
  with cfg assms show ?thesis by (auto simp: polled_ok_def)
qed

lemma start_fetch_ok:
  assumes "parse_urn K s = Inr p" and "resolver_ok K H opts R" and "grows (request_ok K H opts s) h0 h"
    and "c_urn c = p" and "tiers_ok K H opts (ep # c_rest c)"
    and "start_fetch K H c ep R h = Inr cfg"
  shows "polled_ok K H opts s h0 cfg"
proof (cases "ep_kind ep")
  case NodeKind
  let ?e = "HttpGet (serve_url K (ep_base ep) p)"
  have cfg: "cfg = (Waiting (AtNode c (ep_base ep)) (transport H h ?e), R, h @ [?e])"
    using assms(4,6) NodeKind by (auto simp: start_fetch_def await_get_def http_get_def)
  have base: "node_base K H opts (ep_base ep)" using assms(5) NodeKind by simp
  then have "request_ok K H opts s ?e"
    using assms(1) by (auto simp: request_ok_def allowed_request_def node_request_def)
  with assms(3) have "grows (request_ok K H opts s) h0 (h @ [?e])"
    by (blast intro: grows_trans grows_snoc)
  with cfg assms base show ?thesis by (auto simp: polled_ok_def)
next
  case RpcKind
  with assms(6) obtain root where "trusted_root K (c_urn c) = Inr root"
    and send: "send_window K H c (trim_end_matches CHR ''/'' (ep_base ep)) root window_start R h = Inr cfg"
    by (auto simp: start_fetch_def split: sum.splits)
  then have "root_hex K p = Some root" using assms(4) by (auto simp: trusted_root_def split: option.splits)
  from send_window_ok [OF assms(1-4) _ this _ send] assms(5) RpcKind show ?thesis by simp
qed

lemma enter_ok:
  assumes "parse_urn K s = Inr p" and "resolver_ok K H opts R" and "grows (request_ok K H opts s) h0 h"
    and "tiers_ok K H opts eps"
  shows "polled_ok K H opts s h0 (enter K H p lst i eps R h)"
  using assms(4)
proof (induction eps arbitrary: i)
  case Nil
  with assms show ?case by (simp add: polled_ok_def)
next
  case (Cons ep eps)
  let ?c = "\<lparr>c_urn = p, c_last = lst, c_index = i, c_rest = eps\<rparr>"
  show ?case
  proof (cases "start_fetch K H ?c ep R h")
    case (Inr cfg)
    with start_fetch_ok [OF assms(1-3) _ _ Inr] Cons.prems show ?thesis by simp
  next
    case (Inl e)
    with tier_error_cases [of e i lst] Cons assms(2,3) show ?thesis
      by (auto simp: polled_ok_Ended)
  qed
qed

lemma settle_ok:
  assumes "parse_urn K s = Inr p" and "resolver_ok K H opts R" and "grows (request_ok K H opts s) h0 h"
    and "c_urn c = p" and "tiers_ok K H opts (c_rest c)" and "\<And>f. a = Inr f \<Longrightarrow> fetched_ok K H opts p f"
  shows "polled_ok K H opts s h0 (settle K H c a R h)"
proof (cases a)
  case (Inl e)
  with tier_error_cases [of e "c_index c" "c_last c"] enter_ok [OF assms(1-3,5)] assms(2-4) show ?thesis
    by (auto simp: settle_def polled_ok_Ended)
next
  case (Inr f)
  obtain R' h' where put: "cache_success K H R p f h = (R', h')" by fastforce
  have ok: "fetched_ok K H opts p f" using assms(6) Inr .
  have "resolver_ok K H opts R'"
    by (rule cache_success_ok [OF assms(2) put]) (use ok in \<open>simp add: fetched_ok_def\<close>)
  moreover have "grows (request_ok K H opts s) h h'"
    using after_fetch_events(1) [of R' h' K H R p "Inr f" h] put
    by (auto simp: after_fetch_def request_ok_def elim!: grows_mono)
  with assms(3) have "grows (request_ok K H opts s) h0 h'" by (rule grows_trans)
  moreover have "sound_success K H opts s (f_data f)"
    using ok assms(1) unfolding sound_success_def fetched_ok_def by blast
  ultimately show ?thesis using Inr put assms(4) by (simp add: settle_def polled_ok_def)
qed

lemma planned_ok:
  assumes "parse_urn K s = Inr p" and "resolver_ok K H opts R" and "grows (request_ok K H opts s) h0 h"
    and "plan_ok K H opts plan"
  shows "polled_ok K H opts s h0 (planned K H p plan R h)"
proof -
  have "resolver_ok K H opts (R\<lparr>r_plan_cache := Some plan\<rparr>)"
    using assms(2,4) by (simp add: resolver_ok_def)
  from enter_ok [OF assms(1) this assms(3)] assms(4) show ?thesis
    by (simp add: planned_def plan_ok_tiers)
qed

lemma gateway_plan_ok:
  "o_endpoint opts = None \<Longrightarrow> plan_ok K H opts [endpoint_rpc RPC_DEFAULT_BASE]"
  by (simp add: plan_ok_def endpoint_defs rpc_base_def)

lemma node_plan_ok:
  "local_tiers K H opts (t # ts) \<Longrightarrow> is_loopback_base K H t \<Longrightarrow>
     plan_ok K H opts [endpoint_node t, endpoint_rpc RPC_DEFAULT_BASE]"
  by (auto simp: plan_ok_def endpoint_defs rpc_base_def node_base_def local_tiers_def)

lemma probe_next_ok:
  assumes "parse_urn K s = Inr p" and "resolver_ok K H opts R" and "grows (request_ok K H opts s) h0 h"
    and "local_tiers K H opts ts"
  shows "polled_ok K H opts s h0 (probe_next K H p ts R h)"
  using assms(4)
proof (induction ts)
  case Nil
  then have "plan_ok K H opts [endpoint_rpc RPC_DEFAULT_BASE]"
    by (simp add: local_tiers_def gateway_plan_ok)
  with planned_ok [OF assms(1-3)] show ?case by simp
next
  case (Cons t ts)
  show ?case
  proof (cases "is_loopback_base K H t")
    case True
    let ?e = "HttpGet (health_url t)"
    have "request_ok K H opts s ?e"
      using Cons.prems assms(1)
      by (auto simp: request_ok_def allowed_request_def local_tiers_def is_health_probe_def)
    with assms(3) have "grows (request_ok K H opts s) h0 (h @ [?e])"
      by (blast intro: grows_trans grows_snoc)
    with assms True Cons.prems show ?thesis
      by (simp add: await_get_def http_get_def polled_ok_def)
  next
    case False
    with Cons show ?thesis by (simp add: local_tiers_def)
  qed
qed

lemma start_ladder_ok:
  assumes "parse_urn K s = Inr p" and "resolver_ok K H opts R" and "grows (request_ok K H opts s) h0 h"
  shows "polled_ok K H opts s h0 (start_ladder K H p R h)"
proof (cases "r_plan_cache R")
  case (Some plan)
  with assms(2) have "plan_ok K H opts plan" by (simp add: resolver_ok_def)
  with enter_ok [OF assms] Some show ?thesis by (simp add: start_ladder_def plan_ok_tiers)
next
  case None
  have opts: "r_options R = opts" using assms(2) by (simp add: resolver_ok_def)
  show ?thesis
  proof (cases "o_endpoint opts")
    case (Some base)
    have "build_plan K H (o_endpoint opts) h = ([classify K H base], h)"
      using Some by (simp add: build_plan_def)
    then have "plan_ok K H opts [classify K H base]" by (rule build_plan_ok)
    with planned_ok [OF assms] None opts Some show ?thesis by (simp add: start_ladder_def)
  next
    assume none: "o_endpoint opts = None"
    then have "local_tiers K H opts [DIG_LOCAL_BASE, LOCALHOST_BASE]" by (simp add: local_tiers_def)
    from probe_next_ok [OF assms this] None opts none show ?thesis by (simp add: start_ladder_def)
  qed
qed

lemma launch_miss_ok:
  assumes "resolver_ok K H opts R" and p: "parse_urn K s = Inr p" and root: "root_hex K p = Some root"
    and get: "mc_get (r_memory R) (cache_id K p root) = (None, m)"
  shows "polled_ok K H opts s h (launch K H s R h)"
proof -
  let ?i = "cache_id K p root"
  obtain oc h1 where dg: "disk_get_verified K H (R\<lparr>r_memory := m\<rparr>) p ?i h = (oc, h1)" by fastforce
  have ev: "grows (request_ok K H opts s) h h1"
    using disk_get_verified_events(1) [OF dg] by (rule grows_mono) (simp add: request_ok_def)
  note facts = p root get dg
  show ?thesis
  proof (cases oc)
    case None
    with start_ladder_ok [OF p resolver_ok_get [OF assms(1) get] ev] facts show ?thesis by (simp add: launch_def)
  next
    case (Some out)
    then have res: "resolve K H R s h = (Inr out,
        (case out of Success d \<Rightarrow> R\<lparr>r_memory := mc_put m ?i d\<rparr> | _ \<Rightarrow> R\<lparr>r_memory := m\<rparr>), h1)"
      using facts by (simp add: resolve_def split: resolve_outcome.split)
    have "task_ok K H opts s (Ended (Inr out))"
      using resolve_ok(2) [OF assms(1) res] by (cases out) (simp_all add: sound_success_def)
    with resolve_ok(1) [OF assms(1) res] ev facts Some show ?thesis
      by (simp add: launch_def polled_ok_def split: resolve_outcome.splits)
  qed
qed

lemma launch_ok:
  assumes "resolver_ok K H opts R"
  shows "polled_ok K H opts s h (launch K H s R h)"
proof (cases "parse_urn K s")
  case (Inl e)
  with assms show ?thesis by (simp add: launch_def polled_ok_Ended)
next
  case (Inr p)
  show ?thesis
  proof (cases "root_hex K p")
    case None
    with start_ladder_ok [OF Inr assms] Inr show ?thesis by (simp add: launch_def)
  next
    case (Some root)
    obtain x m where get: "mc_get (r_memory R) (cache_id K p root) = (x, m)" by fastforce
    show ?thesis
    proof (cases x)
      case None
      with launch_miss_ok [OF assms Inr Some] get show ?thesis by simp
    next
      case hit: (Some d)
      have "resolve K H R s h = (Inr (Success d), R\<lparr>r_memory := m\<rparr>, h)"
        using Inr Some get hit by (simp add: resolve_def)
      from resolve_ok(2) [OF assms this refl] have "sound_success K H opts s d"
        by (simp add: sound_success_def)
      with resolver_ok_get [OF assms get] Inr Some get hit show ?thesis
        by (simp add: launch_def polled_ok_def)
    qed
  qed
qed

lemma verified_fetch_ok:
  assumes "verified_fetch K p f" and "\<And>root. root_hex K p = Some root \<Longrightarrow> f_root f = Some root"
  shows "fetched_ok K H opts p f"
proof -
  from assms(1) obtain root a where f: "f_root f = Some root" "verified_as K p root a (f_data f)"
    by (auto simp: verified_fetch_def)
  then have "provenance K H opts p root (f_data f)" by (auto simp: provenance_def)
  with f assms(2) show ?thesis
    by (auto simp: fetched_ok_def source_of_def split: option.splits)
qed

lemma node_answer_ok:
  assumes "node_answer K p resp = Inr f" and "node_base K H opts base"
    and "transport H h (HttpGet (serve_url K base p)) = Inr resp"
  shows "fetched_ok K H opts p f"
proof -
  note root = node_answer_Inr(2) [OF assms(1)]
  from node_answer_Inr(1) [OF assms(1)] show ?thesis
  proof
    assume "verified_fetch K p f"
    then show ?thesis using root by (rule verified_fetch_ok)
  next
    assume "is_success resp \<and> header_true resp ''x-dig-verified'' \<and> rd_bytes (f_data f) = body resp \<and>
      f_artifacts f = None"
    with assms(2,3) have "attested_by_node K H opts p (f_data f)"
      unfolding attested_by_node_def by blast
    then have "provenance K H opts p q (f_data f)" for q by (simp add: provenance_def)
    then show ?thesis
      by (cases "root_hex K p") (auto simp: fetched_ok_def source_of_def)
  qed
qed

lemma assembled_ok:
  assumes "assembled K p root st = Inr f" and "root_hex K p = Some root"
  shows "fetched_ok K H opts p f"
  by (rule verified_fetch_ok)
    (use assms in \<open>auto simp: assembled_def verified_fetch_def verified_as_def split: sum.splits\<close>)

lemma window_answered_ok:
  assumes "window_answered K p root st a = Inl (Inr f)" and "root_hex K p = Some root"
  shows "fetched_ok K H opts p f"
  using assms assembled_ok
  by (auto simp: window_answered_def split: sum.splits transport_error.splits option.splits)

lemma resume_ok:
  assumes "parse_urn K s = Inr p" and "resolver_ok K H opts R" and "wait_ok K H opts p w a"
  shows "polled_ok K H opts s h (resume K H w a R h)"
proof (cases w)
  case (AtProbe q tier tiers)
  have loc: "local_tiers K H opts (tier # tiers)" and lo: "is_loopback_base K H tier" and q: "q = p"
    using assms(3) AtProbe by simp_all
  have "local_tiers K H opts tiers" using loc by (simp add: local_tiers_def)
  from probe_next_ok [OF assms(1,2) grows_refl this] planned_ok [OF assms(1,2) grows_refl node_plan_ok [OF loc lo]]
  show ?thesis using AtProbe q by simp
next
  case (AtNode c base)
  with assms(3) obtain h1 where c: "c_urn c = p" "tiers_ok K H opts (c_rest c)" "node_base K H opts base"
    and a: "a = transport H h1 (HttpGet (serve_url K base p))" by auto
  show ?thesis unfolding AtNode resume.simps
  proof (rule settle_ok [OF assms(1,2) grows_refl c(1,2)])
    fix f
    assume f: "(case a of Inl (TransportError m) \<Rightarrow> Inl (Transport m)
        | Inr resp \<Rightarrow> node_answer K (c_urn c) resp) = Inr f"
    then obtain resp where "a = Inr resp" "node_answer K p resp = Inr f"
      using c(1) by (auto split: sum.splits transport_error.splits)
    with node_answer_ok c(3) a show "fetched_ok K H opts p f" by metis
  qed
next
  case (AtWindow c base root st)
  with assms(3) have c: "c_urn c = p" "tiers_ok K H opts (c_rest c)" "root_hex K p = Some root"
    "base = trim_end_matches CHR ''/'' (rpc_base opts)" by auto
  note settle = settle_ok [OF assms(1,2) grows_refl c(1,2)]
  show ?thesis
  proof (cases "window_answered K p root st a")
    case (Inl res)
    with settle [of res] window_answered_ok [of K p root st a _ H opts] c AtWindow show ?thesis by simp
  next
    case (Inr st')
    have "polled_ok K H opts s h (ask_window K H c base root st' R h)"
      using settle send_window_ok [OF assms(1,2) grows_refl c]
      by (auto simp: ask_window_def split: sum.splits)
    with Inr c AtWindow show ?thesis by simp
  qed
qed

lemma poll_ok:
  assumes "task_ok K H opts s t" and "resolver_ok K H opts R"
  shows "polled_ok K H opts s h (poll K H s (t, R, h))"
proof (cases t)
  case Started
  with launch_ok [OF assms(2)] show ?thesis by simp
next
  case (Waiting w a)
  with assms resume_ok show ?thesis by (auto simp del: resume.simps)
qed (use assms in \<open>simp_all add: polled_ok_def\<close>)

lemma late_ok: "task_ok K H opts s t \<Longrightarrow> task_ok K H opts s (late K H h t)"
proof (cases t)
  case (Waiting w a)
  assume "task_ok K H opts s t"
  with Waiting show ?thesis by (cases w) auto
qed auto

lemma replaced_ok:
  assumes "pool_ok K H opts P" and "po_tasks P ! n = (s, t)" and "n < length (po_tasks P)"
    and "task_ok K H opts s t \<Longrightarrow> task_ok K H opts s t'"
  shows "pool_ok K H opts (P\<lparr>po_tasks := (po_tasks P)[n := (s, t')]\<rparr>)"
proof -
  have "task_ok K H opts s t" using assms(1-3) by (metis case_prodD nth_mem pool_ok_def)
  with assms show ?thesis by (auto simp: pool_ok_def dest!: set_update_subset_insert [THEN subsetD])
qed

lemma perform_ok: "pool_ok K H opts P \<Longrightarrow> pool_ok K H opts (perform K H P a)"
proof (cases a)
  case (Poll n)
  assume ok: "pool_ok K H opts P"
  show ?thesis
  proof (cases "n < length (po_tasks P)")
    case True
    obtain s t where st: "po_tasks P ! n = (s, t)" by fastforce
    obtain t' R' h' where poll: "poll K H s (t, po_resolver P, po_history P) = (t', R', h')"
      by (metis prod_cases3)
    have "task_ok K H opts s t" using ok True st by (metis case_prodD nth_mem pool_ok_def)
    with poll_ok [of K H opts s t "po_resolver P" "po_history P"] ok poll
    have "task_ok K H opts s t' \<and> resolver_ok K H opts R'" by (simp add: pool_ok_def polled_ok_def)
    with ok Poll True st poll show ?thesis
      by (auto simp: pool_ok_def dest!: set_update_subset_insert [THEN subsetD])
  qed (use ok Poll in simp)
next
  case (Cancel n)
  assume ok: "pool_ok K H opts P"
  obtain s t where st: "po_tasks P ! n = (s, t)" by fastforce
  have "task_ok K H opts s t \<Longrightarrow> task_ok K H opts s (case t of Ended r \<Rightarrow> Ended r | _ \<Rightarrow> Dropped)"
    by (cases t) auto
  with replaced_ok [OF ok st] ok Cancel st show ?thesis by simp
next
  case (Late n h)
  assume ok: "pool_ok K H opts P"
  obtain s t where st: "po_tasks P ! n = (s, t)" by fastforce
  from replaced_ok [OF ok st _ late_ok] ok Late st show ?thesis by simp
qed (auto simp: pool_ok_def)

lemma interleaved_ok: "interleaved K H opts P \<Longrightarrow> pool_ok K H opts P"
proof (induction rule: interleaved.induct)
  case (opened h R h')
  then show ?case by (simp add: pool_ok_def with_options_ok)
next
  case (acted P a)
  from acted.IH show ?case by (rule perform_ok)
qed

end
