(* ===== verification/AsyncProps.thy ===== *)
theory AsyncProps
  imports AsyncResolve
begin

text \<open>
  What holds of resolves in flight on one resolver, proved over \<open>AsyncResolve\<close>: a task on its own
  computes \<open>resolve\<close>; every task ends within a fixed number of polls, whatever the others do; no
  interleaving returns unverified content or makes a request that the URN of the task does not allow.
\<close>

section \<open>A task on its own\<close>

definition leads :: "('u, 'm) crates \<Rightarrow> host \<Rightarrow> string \<Rightarrow> 'u config \<Rightarrow> 'u config \<Rightarrow> bool" where
  "leads K H s x y \<longleftrightarrow> (\<exists>n. (poll K H s ^^ n) x = y)"

lemma leads_refl [simp]: "leads K H s x x"
  unfolding leads_def by (rule exI [of _ 0]) simp

lemma leads_trans: "leads K H s x y \<Longrightarrow> leads K H s y z \<Longrightarrow> leads K H s x z"
  unfolding leads_def by (metis comp_apply funpow_add)

lemma leads_poll: "leads K H s (poll K H s x) y \<Longrightarrow> leads K H s x y"
  unfolding leads_def by (metis funpow_Suc_right comp_apply)

fun ended :: "outcome \<times> resolver \<times> history \<Rightarrow> 'u config" where
  "ended (r, R, h) = (Ended r, R, h)"

lemma window_answered_one:
  assumes "one_window K H base p root st h = (x, h')"
  shows "window_answered K p root st (transport H h (window_request K base p root (w_offset st))) =
    (case x of Inl e \<Rightarrow> Inl (Inl e) | Inr (st', None) \<Rightarrow> Inl (assembled K p root st') | Inr (st', Some st'') \<Rightarrow> Inr st'')"
  using assms
  by (auto simp: one_window_def rpc_call_eq window_answered_def window_request_def
      split: sum.splits transport_error.splits option.splits)

lemma ask_window_asks:
  assumes "w_windows st < MAX_WINDOWS"
  shows "poll K H s (ask_window K H c base root st R h) =
    (let st1 = st\<lparr>w_windows := Suc (w_windows st)\<rparr>;
         e = window_request K base (c_urn c) root (w_offset st)
     in case window_answered K (c_urn c) root st1 (transport H h e) of
          Inl res \<Rightarrow> settle K H c res R (h @ [e])
        | Inr st' \<Rightarrow> ask_window K H c base root st' R (h @ [e]))"
  using assms
  by (simp add: ask_window_def send_window_def Let_def await_post_def post_json_def window_request_def)

lemma ask_window_leads:
  assumes "window_loop K H base (c_urn c) root st h = (r, h')"
  shows "leads K H s (ask_window K H c base root st R h)
    (settle K H c (case r of Inl e \<Rightarrow> Inl e | Inr st' \<Rightarrow> assembled K (c_urn c) root st') R h')"
  using assms
proof (induction rule: window_loop_induct)
  case (exhausted st h)
  then show ?case by (simp add: ask_window_def send_window_def)
next
  case (failed st h e h1)
  from ask_window_asks [OF failed(1), of K H s c base root R h]
    window_answered_one [OF failed(2)] one_window_history [OF failed(2)]
  show ?case by - (rule leads_poll, simp add: Let_def)
next
  case (complete st h st' h1)
  from ask_window_asks [OF complete(1), of K H s c base root R h]
    window_answered_one [OF complete(2)] one_window_history [OF complete(2)]
  show ?case by - (rule leads_poll, simp add: Let_def)
next
  case (more st h st' st'' h1 r h')
  from ask_window_asks [OF more(1), of K H s c base root R h]
    window_answered_one [OF more(2)] one_window_history [OF more(2)] more(3)
  show ?case by - (rule leads_poll, simp add: Let_def)
qed

lemma start_fetch_leads:
  assumes "fetch_from K H ep (c_urn c) h = (a, h')"
  shows "case start_fetch K H c ep R h of
      Inl e \<Rightarrow> a = Inl e \<and> h' = h
    | Inr cfg \<Rightarrow> leads K H s cfg (settle K H c a R h')"
proof (cases "ep_kind ep")
  case NodeKind
  with assms show ?thesis
    by - (cases "start_fetch K H c ep R h"; simp add: start_fetch_def; hypsubst?; rule leads_poll;
        auto simp: fetch_from_def node_fetch_def await_get_def
          split: prod.splits sum.splits transport_error.splits)
next
  case RpcKind
  let ?b = "trim_end_matches CHR ''/'' (ep_base ep)"
  show ?thesis
  proof (cases "trusted_root K (c_urn c)")
    case (Inl e)
    with assms RpcKind show ?thesis by (simp add: start_fetch_def fetch_from_def rpc_fetch_def)
  next
    case (Inr root)
    obtain r h1 where loop: "window_loop K H ?b (c_urn c) root window_start h = (r, h1)" by fastforce
    have a: "a = (case r of Inl e \<Rightarrow> Inl e | Inr st' \<Rightarrow> assembled K (c_urn c) root st')" and h: "h' = h1"
      using assms RpcKind Inr loop
      by (auto simp: fetch_from_def rpc_fetch_def assembled_def split: sum.splits)
    obtain cfg where send: "send_window K H c ?b root window_start R h = Inr cfg"
      by (simp add: send_window_def window_start_def MAX_WINDOWS_nat)
    with ask_window_leads [OF loop, of s R] RpcKind Inr a h show ?thesis
      by (simp add: start_fetch_def ask_window_def)
  qed
qed

lemma walk_tier_error:
  assumes "fetch_from K H ep p h = (Inl e, h1)"
  shows "walk K H p lst i (ep # eps) R h =
    (case tier_error e i lst of Some r \<Rightarrow> (r, R, h1) | None \<Rightarrow> walk K H p lst (i + 1) eps R h1)"
  using assms by (cases e) (simp_all add: walk.simps tier_error_def)

lemma enter_leads: "leads K H s (enter K H p lst i eps R h) (ended (walk K H p lst i eps R h))"
proof (induction eps arbitrary: i h)
  case Nil
  then show ?case by (simp add: walk.simps)
next
  case (Cons ep eps)
  let ?c = "\<lparr>c_urn = p, c_last = lst, c_index = i, c_rest = eps\<rparr>"
  obtain a h1 where fetch: "fetch_from K H ep p h = (a, h1)" by fastforce
  have settled: "leads K H s (settle K H ?c a R h1) (ended (walk K H p lst i (ep # eps) R h))"
  proof (cases a)
    case (Inr f)
    with fetch show ?thesis
      by (cases "cache_success K H R p f h1") (simp add: settle_def walk.simps)
  next
    case (Inl e)
    with walk_tier_error [of K H ep p h e h1 lst i eps R] fetch Cons.IH show ?thesis
      by (cases "tier_error e i lst") (simp_all add: settle_def)
  qed
  from start_fetch_leads [of K H ep ?c h a h1 s R] fetch
  have start: "case start_fetch K H ?c ep R h of Inl e \<Rightarrow> a = Inl e \<and> h1 = h
    | Inr cfg \<Rightarrow> leads K H s cfg (settle K H ?c a R h1)" by simp
  show ?case
  proof (cases "start_fetch K H ?c ep R h")
    case (Inr cfg)
    with start settled show ?thesis by (auto intro: leads_trans)
  next
    case (Inl e)
    with start settled show ?thesis by (cases "tier_error e i lst") (simp_all add: settle_def)
  qed
qed

lemma planned_leads:
  "leads K H s (planned K H p plan R h)
     (ended (walk K H p (length plan - 1) 0 plan (R\<lparr>r_plan_cache := Some plan\<rparr>) h))"
  unfolding planned_def by (rule enter_leads)

lemma probe_next_leads:
  "probe_tiers K H ts h = (plan, h') \<Longrightarrow> leads K H s (probe_next K H p ts R h) (planned K H p plan R h')"
proof (induction ts arbitrary: h)
  case Nil
  then show ?case by (auto simp: probe_tiers.simps)
next
  case (Cons t ts)
  show ?case
  proof (cases "is_loopback_base K H t")
    case False
    with Cons show ?thesis by (simp add: probe_tiers.simps)
  next
    case True
    obtain a h1 where get: "http_get (transport H) (health_url t) h = (a, h1)" by fastforce
    with True have "probe_next K H p (t # ts) R h = (Waiting (AtProbe p t ts) a, R, h1)"
      by (simp add: await_get_def)
    moreover have "leads K H s (poll K H s (Waiting (AtProbe p t ts) a, R, h1)) (planned K H p plan R h')"
      using get Cons True by (auto simp: health_ok_def probe_tiers.simps split: sum.splits if_splits)
    ultimately show ?thesis by (simp add: leads_poll)
  qed
qed

lemma start_ladder_leads:
  "leads K H s (start_ladder K H p R h) (ended (resolve_ladder K H p R h))"
proof (cases "r_plan_cache R")
  case (Some plan)
  with enter_leads show ?thesis by (simp add: start_ladder_def resolve_ladder_def plan_of_def)
next
  case None
  show ?thesis
  proof (cases "o_endpoint (r_options R)")
    case (Some base)
    with None planned_leads [of K H s p "[classify K H base]" R h] show ?thesis
      by (simp add: start_ladder_def resolve_ladder_def plan_of_def build_plan_def)
  next
    assume none: "o_endpoint (r_options R) = None"
    obtain plan h' where probe: "probe_tiers K H [DIG_LOCAL_BASE, LOCALHOST_BASE] h = (plan, h')" by fastforce
    from leads_trans [OF probe_next_leads [OF probe] planned_leads] probe None none show ?thesis
      by (simp add: start_ladder_def resolve_ladder_def plan_of_def build_plan_def)
  qed
qed

lemma launch_leads: "leads K H s (launch K H s R h) (ended (resolve K H R s h))"
  by (auto simp: launch_def resolve_def Let_def start_ladder_leads
      split: sum.splits option.splits prod.splits resolve_outcome.splits)

lemma task_leads: "leads K H s (Started, R, h) (ended (resolve K H R s h))"
  by (rule leads_poll) (simp add: launch_leads)

section \<open>Every task ends\<close>

text \<open>How often a task still has to be polled, at most.\<close>

definition tier_cost :: "endpoint \<Rightarrow> nat" where
  "tier_cost ep = (case ep_kind ep of NodeKind \<Rightarrow> 1 | RpcKind \<Rightarrow> MAX_WINDOWS)"

definition plan_cost :: "endpoint list \<Rightarrow> nat" where
  "plan_cost eps = sum_list (map tier_cost eps)"

fun wait_cost :: "'u wait \<Rightarrow> nat" where
  "wait_cost (AtProbe p tier tiers) = Suc (length tiers) + Suc MAX_WINDOWS"
| "wait_cost (AtNode c base) = Suc (plan_cost (c_rest c))"
| "wait_cost (AtWindow c base root st) = Suc (MAX_WINDOWS - w_windows st) + plan_cost (c_rest c)"

fun task_cost :: "'u task \<Rightarrow> nat" where
  "task_cost Started = MAX_WINDOWS + 4"
| "task_cost (Waiting w a) = wait_cost w"
| "task_cost (Ended r) = 0"
| "task_cost Dropped = 0"

fun finished :: "'u task \<Rightarrow> bool" where
  "finished (Ended r) = True"
| "finished Dropped = True"
| "finished _ = False"

definition short_plan :: "resolver \<Rightarrow> bool" where
  "short_plan R \<longleftrightarrow> (case r_plan_cache R of None \<Rightarrow> True | Some plan \<Rightarrow> plan_cost plan \<le> Suc MAX_WINDOWS)"

definition costs :: "nat \<Rightarrow> 'u config \<Rightarrow> bool" where
  "costs n cfg \<longleftrightarrow> (case cfg of (t, R, h) \<Rightarrow> task_cost t \<le> n \<and> t \<noteq> Dropped \<and> short_plan R)"

lemma plan_cost_simps [simp]: "plan_cost [] = 0" "plan_cost (e # es) = tier_cost e + plan_cost es"
  by (simp_all add: plan_cost_def)

lemma costs_mono: "costs m cfg \<Longrightarrow> m \<le> n \<Longrightarrow> costs n cfg"
  by (auto simp: costs_def)

lemma short_plan_memory [simp]: "short_plan (R\<lparr>r_memory := m\<rparr>) = short_plan R"
  by (simp add: short_plan_def)

lemma send_window_costs:
  "short_plan R \<Longrightarrow> send_window K H c base root st R h = Inr cfg \<Longrightarrow>
     costs (MAX_WINDOWS - w_windows st + plan_cost (c_rest c)) cfg"
  by (auto simp: send_window_def Let_def await_post_def post_json_def costs_def split: if_splits)

lemma start_fetch_costs:
  "short_plan R \<Longrightarrow> start_fetch K H c ep R h = Inr cfg \<Longrightarrow> costs (tier_cost ep + plan_cost (c_rest c)) cfg"
  using send_window_costs [of R K H c _ _ window_start h cfg]
  by (auto simp: start_fetch_def tier_cost_def await_get_def http_get_def window_start_def
      split: endpoint_kind.splits sum.splits) (simp add: costs_def)

lemma enter_costs: "short_plan R \<Longrightarrow> costs (plan_cost eps) (enter K H p lst i eps R h)"
proof (induction eps arbitrary: i)
  case Nil
  then show ?case by (simp add: costs_def)
next
  case (Cons ep eps)
  let ?c = "\<lparr>c_urn = p, c_last = lst, c_index = i, c_rest = eps\<rparr>"
  show ?case
  proof (cases "start_fetch K H ?c ep R h")
    case (Inr cfg)
    with start_fetch_costs [OF Cons.prems Inr] show ?thesis by simp
  next
    case (Inl e)
    have "costs (tier_cost ep + plan_cost eps) (enter K H p lst (i + 1) eps R h)"
      by (rule costs_mono [OF Cons.IH [OF Cons.prems]]) simp
    with Inl Cons.prems show ?thesis
      by (cases "tier_error e i lst") (simp_all add: costs_def)
  qed
qed

lemma settle_costs: "short_plan R \<Longrightarrow> costs (plan_cost (c_rest c)) (settle K H c a R h)"
proof (cases a)
  case (Inl e)
  assume "short_plan R"
  with Inl enter_costs [of R "c_rest c"] show ?thesis
    by (cases "tier_error e (c_index c) (c_last c)") (simp_all add: settle_def costs_def)
next
  case (Inr f)
  assume short: "short_plan R"
  obtain R' h' where put: "cache_success K H R (c_urn c) f h = (R', h')" by fastforce
  then have "r_plan_cache R' = r_plan_cache R"
    using after_fetch_events(3) [of R' h' K H R "c_urn c" "Inr f" h] by (simp add: after_fetch_def)
  with short Inr put show ?thesis by (simp add: settle_def costs_def short_plan_def)
qed

lemma planned_costs: "plan_cost plan \<le> Suc MAX_WINDOWS \<Longrightarrow> costs (Suc MAX_WINDOWS) (planned K H p plan R h)"
  unfolding planned_def by (rule costs_mono [OF enter_costs]) (simp_all add: short_plan_def)

lemma probe_next_costs: "short_plan R \<Longrightarrow> costs (length ts + Suc MAX_WINDOWS) (probe_next K H p ts R h)"
proof (induction ts)
  case Nil
  then show ?case using planned_costs [of "[endpoint_rpc RPC_DEFAULT_BASE]" K H p R h]
    by (simp add: tier_cost_def endpoint_defs)
next
  case (Cons t ts)
  then show ?case by (auto simp: await_get_def http_get_def costs_def)
qed

lemma start_ladder_costs: "short_plan R \<Longrightarrow> costs (MAX_WINDOWS + 3) (start_ladder K H p R h)"
proof (cases "r_plan_cache R")
  case (Some plan)
  assume "short_plan R"
  moreover from this Some have "plan_cost plan \<le> Suc MAX_WINDOWS" by (simp add: short_plan_def)
  ultimately show ?thesis
    using Some costs_mono [OF enter_costs, of R plan "MAX_WINDOWS + 3" K H p "length plan - 1" 0 h]
    by (simp add: start_ladder_def)
next
  case None
  assume short: "short_plan R"
  show ?thesis
  proof (cases "o_endpoint (r_options R)")
    case (Some base)
    have "plan_cost [classify K H base] \<le> Suc MAX_WINDOWS"
      by (simp add: tier_cost_def MAX_WINDOWS_nat split: endpoint_kind.split)
    from costs_mono [OF planned_costs [OF this], of "MAX_WINDOWS + 3"] None Some show ?thesis
      by (simp add: start_ladder_def)
  next
    assume "o_endpoint (r_options R) = None"
    with None probe_next_costs [OF short, of "[DIG_LOCAL_BASE, LOCALHOST_BASE]" K H p h] show ?thesis
      by (simp add: start_ladder_def eval_nat_numeral)
  qed
qed

lemma costs_Ended: "short_plan R \<Longrightarrow> costs n (Ended r, R, h)"
  by (simp add: costs_def)

lemma launch_costs:
  assumes "short_plan R"
  shows "costs (MAX_WINDOWS + 3) (launch K H s R h)"
  using assms
  by (auto simp: launch_def Let_def costs_Ended start_ladder_costs
      split: sum.splits option.splits prod.splits resolve_outcome.splits)

lemma window_answered_windows:
  "window_answered K p root st a = Inr st' \<Longrightarrow> w_windows st' = w_windows st"
  by (auto simp: window_answered_def split: sum.splits transport_error.splits option.splits)
    (metis absorb_window_InrD(1) advance_SomeD(2))

lemma resume_costs:
  assumes "short_plan R"
  shows "costs (wait_cost w - 1) (resume K H w a R h)"
proof (cases w)
  case (AtProbe p tier tiers)
  have "plan_cost [endpoint_node tier, endpoint_rpc RPC_DEFAULT_BASE] \<le> Suc MAX_WINDOWS"
    by (simp add: tier_cost_def endpoint_defs)
  from costs_mono [OF planned_costs [OF this], of "length tiers + Suc MAX_WINDOWS" K H p R h]
    probe_next_costs [OF assms, of tiers K H p h] AtProbe
  show ?thesis by simp
next
  case (AtNode c base)
  with settle_costs [OF assms] show ?thesis by simp
next
  case (AtWindow c base root st)
  have settle: "costs (MAX_WINDOWS - w_windows st + plan_cost (c_rest c)) (settle K H c r R h)" for r
    by (rule costs_mono [OF settle_costs [OF assms]]) simp
  show ?thesis
  proof (cases "window_answered K (c_urn c) root st a")
    case (Inl r)
    with AtWindow settle show ?thesis by simp
  next
    case (Inr st')
    with window_answered_windows [OF Inr] send_window_costs [OF assms, of K H c base root st' h] settle AtWindow
    show ?thesis by (auto simp: ask_window_def split: sum.splits)
  qed
qed

lemma wait_cost_pos: "0 < wait_cost w"
  by (cases w) simp_all

lemma wait_cost_nonzero [simp]: "wait_cost w \<noteq> 0"
  using wait_cost_pos [of w] by simp

lemma poll_costs:
  assumes "short_plan R" and "poll K H s (t, R, h) = (t', R', h')"
  shows "short_plan R'" and "finished t \<Longrightarrow> t' = t"
    and "\<not> finished t \<Longrightarrow> task_cost t' < task_cost t \<and> t' \<noteq> Dropped"
proof -
  have "short_plan R' \<and> (if finished t then t' = t else task_cost t' < task_cost t \<and> t' \<noteq> Dropped)"
  proof (cases t)
    case Started
    with assms launch_costs [OF assms(1), of K H s h] show ?thesis by (auto simp: costs_def)
  next
    case (Waiting w a)
    with assms resume_costs [OF assms(1), of w K H a h] wait_cost_pos [of w] show ?thesis
      by (auto simp: costs_def simp del: resume.simps)
  qed (use assms in auto)
  then show "short_plan R'" and "finished t \<Longrightarrow> t' = t"
    and "\<not> finished t \<Longrightarrow> task_cost t' < task_cost t \<and> t' \<noteq> Dropped"
    by (simp_all split: if_splits)
qed

lemma late_cost [simp]: "task_cost (late K H h t) = task_cost t" "late K H h t = Dropped \<longleftrightarrow> t = Dropped"
  "finished (late K H h t) = finished t" "finished t \<Longrightarrow> late K H h t = t"
  by (cases t; simp)+

lemma perform_Poll:
  assumes "n < length (po_tasks P)" and "po_tasks P ! n = (s, t)"
    and "poll K H s (t, po_resolver P, po_history P) = (t', R', h')"
  shows "perform K H P (Poll n) = \<lparr>po_resolver = R', po_history = h', po_tasks = (po_tasks P)[n := (s, t')]\<rparr>"
  using assms by simp

lemma perform_short: "short_plan (po_resolver P) \<Longrightarrow> short_plan (po_resolver (perform K H P a))"
proof (cases a)
  case (Poll n)
  assume short: "short_plan (po_resolver P)"
  obtain s t where st: "po_tasks P ! n = (s, t)" by fastforce
  obtain t' R' h' where poll: "poll K H s (t, po_resolver P, po_history P) = (t', R', h')"
    by (metis prod_cases3)
  show ?thesis
    using perform_Poll [OF _ st poll] poll_costs(1) [OF short poll] short Poll
    by (cases "n < length (po_tasks P)") simp_all
qed (auto split: prod.splits)

text \<open>
  One action and the task at index \<open>i\<close>: its URN stays; a poll of it makes progress unless it has
  ended; nothing else but its own cancellation touches it.
\<close>

definition progress :: "nat \<Rightarrow> string \<times> 'u task \<Rightarrow> string \<times> 'u task \<Rightarrow> bool" where
  "progress k x y \<longleftrightarrow> fst y = fst x \<and> snd y \<noteq> Dropped \<and>
     (finished (snd y) \<or> task_cost (snd y) + k \<le> task_cost (snd x))"

lemma perform_progress:
  assumes "short_plan (po_resolver P)" and "i < length (po_tasks P)" and "snd (po_tasks P ! i) \<noteq> Dropped"
    and "a \<noteq> Cancel i"
  shows "i < length (po_tasks (perform K H P a)) \<and>
    progress (if a = Poll i then 1 else 0) (po_tasks P ! i) (po_tasks (perform K H P a) ! i) \<and>
    (finished (snd (po_tasks P ! i)) \<longrightarrow> po_tasks (perform K H P a) ! i = po_tasks P ! i)"
proof (cases a)
  case (Spawn s)
  with assms show ?thesis by (simp add: progress_def nth_append)
next
  case (Outside e)
  with assms show ?thesis by (simp add: progress_def)
next
  case (Cancel n)
  with assms show ?thesis by (auto simp: progress_def split: prod.splits)
next
  case (Late n h)
  obtain s t where st: "po_tasks P ! n = (s, t)" by fastforce
  with assms Late show ?thesis by (cases "n = i"; cases "n < length (po_tasks P)") (auto simp: progress_def)
next
  case (Poll n)
  obtain s t where st: "po_tasks P ! n = (s, t)" by fastforce
  obtain t' R' h' where poll: "poll K H s (t, po_resolver P, po_history P) = (t', R', h')"
    by (metis prod_cases3)
  note cost = poll_costs(2,3) [OF assms(1) poll]
  show ?thesis
  proof (cases "n = i")
    case True
    with True assms st perform_Poll [OF _ st poll] cost Poll show ?thesis
      by (cases "finished t") (auto simp: progress_def)
  next
    case False
    with assms perform_Poll [OF _ st poll] Poll show ?thesis
      by (cases "n < length (po_tasks P)") (auto simp: progress_def)
  qed
qed

lemma run_pool_simps [simp]:
  "run_pool K H [] P = P" "run_pool K H (a # acts) P = run_pool K H acts (perform K H P a)"
  by (simp_all add: run_pool_def)

lemma interleaved_run: "interleaved K H opts P \<Longrightarrow> interleaved K H opts (run_pool K H acts P)"
  by (induction acts arbitrary: P) (auto intro: interleaved.acted)

lemma interleaved_short: "interleaved K H opts P \<Longrightarrow> short_plan (po_resolver P)"
proof (induction rule: interleaved.induct)
  case (opened h R h')
  then show ?case by (auto simp: with_options_def short_plan_def split: prod.splits)
next
  case (acted P a)
  from acted.IH show ?case by (rule perform_short)
qed

lemma progress_trans:
  "progress k x y \<Longrightarrow> progress m y z \<Longrightarrow> finished (snd y) \<longrightarrow> z = y \<Longrightarrow> progress (k + m) x z"
  by (auto simp: progress_def)

lemma run_progress:
  assumes "short_plan (po_resolver P)" and "i < length (po_tasks P)" and "snd (po_tasks P ! i) \<noteq> Dropped"
    and "Cancel i \<notin> set acts"
  shows "i < length (po_tasks (run_pool K H acts P)) \<and>
    progress (count_list acts (Poll i)) (po_tasks P ! i) (po_tasks (run_pool K H acts P) ! i) \<and>
    (finished (snd (po_tasks P ! i)) \<longrightarrow> po_tasks (run_pool K H acts P) ! i = po_tasks P ! i)"
  using assms
proof (induction acts arbitrary: P)
  case Nil
  then show ?case by (simp add: progress_def)
next
  case (Cons a acts)
  let ?P = "perform K H P a"
  have "a \<noteq> Cancel i" "Cancel i \<notin> set acts" using Cons.prems(4) by auto
  from perform_progress [OF Cons.prems(1-3) this(1), of K H]
  have step: "i < length (po_tasks ?P)"
    "progress (if a = Poll i then 1 else 0) (po_tasks P ! i) (po_tasks ?P ! i)"
    "finished (snd (po_tasks P ! i)) \<longrightarrow> po_tasks ?P ! i = po_tasks P ! i" by simp_all
  then have "snd (po_tasks ?P ! i) \<noteq> Dropped" by (simp add: progress_def)
  from Cons.IH [OF perform_short [OF Cons.prems(1)] step(1) this \<open>Cancel i \<notin> set acts\<close>]
  have rest: "i < length (po_tasks (run_pool K H acts ?P))"
    "progress (count_list acts (Poll i)) (po_tasks ?P ! i) (po_tasks (run_pool K H acts ?P) ! i)"
    "finished (snd (po_tasks ?P ! i)) \<longrightarrow> po_tasks (run_pool K H acts ?P) ! i = po_tasks ?P ! i" by simp_all
  from progress_trans [OF step(2) rest(2,3)] step(3) rest(1,3) show ?case by auto
qed

section \<open>Polling one task\<close>

lemma poll_finished: "finished t \<Longrightarrow> (poll K H s ^^ n) (t, R, h) = (t, R, h)"
  by (induction n) (cases t; simp)+

lemma run_polls:
  assumes "i < length (po_tasks P)" and "po_tasks P ! i = (s, t)"
    and "(poll K H s ^^ n) (t, po_resolver P, po_history P) = (t', R', h')"
  shows "run_pool K H (replicate n (Poll i)) P =
    \<lparr>po_resolver = R', po_history = h', po_tasks = (po_tasks P)[i := (s, t')]\<rparr>"
  using assms
proof (induction n arbitrary: P t)
  case 0
  then show ?case by (cases P) (auto, metis list_update_id)
next
  case (Suc n)
  obtain t1 R1 h1 where poll: "poll K H s (t, po_resolver P, po_history P) = (t1, R1, h1)"
    by (metis prod_cases3)
  let ?P = "\<lparr>po_resolver = R1, po_history = h1, po_tasks = (po_tasks P)[i := (s, t1)]\<rparr>"
  have "(poll K H s ^^ n) (t1, R1, h1) = (t', R', h')"
    using Suc.prems(3) poll by (simp add: funpow_swap1)
  from Suc.IH [of ?P t1] this Suc.prems(1) perform_Poll [OF Suc.prems(1,2) poll]
  show ?case by (simp del: perform.simps)
qed

lemma funpow_split:
  assumes "m \<le> n"
  shows "(f ^^ n) x = (f ^^ (n - m)) ((f ^^ m) x)"
  using fun_cong [OF funpow_add [of "n - m" m f], of x] assms by simp

lemma alone_within:
  assumes "short_plan R" and "resolve K H R s h = (r, R', h')"
  shows "(poll K H s ^^ 41) (Started, R, h) = (Ended r, R', h')"
proof -
  let ?P = "\<lparr>po_resolver = R, po_history = h, po_tasks = [(s, Started)]\<rparr>"
  obtain t1 R1 h1 where all: "(poll K H s ^^ 41) (Started, R, h) = (t1, R1, h1)" by (metis prod_cases3)
  have run: "run_pool K H (replicate 41 (Poll 0)) ?P =
      \<lparr>po_resolver = R1, po_history = h1, po_tasks = [(s, t1)]\<rparr>"
    using run_polls [of 0 ?P s Started, where n = 41] all by simp
  have "count_list (replicate 41 (Poll 0)) (Poll 0) = 41" by (simp add: eval_nat_numeral)
  then have fin: "finished t1"
    using run_progress [of ?P 0 "replicate 41 (Poll 0)" K H] assms(1) run
    by (simp add: progress_def MAX_WINDOWS_nat del: run_pool_simps)
      (cases t1; simp)
  obtain n where n: "(poll K H s ^^ n) (Started, R, h) = (Ended r, R', h')"
    using task_leads [of K H s R h] assms(2) unfolding leads_def by auto
  show ?thesis
  proof (cases "n \<le> 41")
    case True
    then have "(poll K H s ^^ 41) (Started, R, h) = (poll K H s ^^ (41 - n)) (Ended r, R', h')"
      using funpow_split [OF True, of "poll K H s" "(Started, R, h)"] n by simp
    then show ?thesis by (simp add: poll_finished)
  next
    case False
    then have "41 \<le> n" by simp
    from funpow_split [OF this, of "poll K H s" "(Started, R, h)"]
    have "(poll K H s ^^ n) (Started, R, h) = (poll K H s ^^ (n - 41)) (t1, R1, h1)"
      unfolding all .
    with fin n all show ?thesis by (simp add: poll_finished)
  qed
qed

lemma run_alone:
  assumes "short_plan (po_resolver P)" and "resolve K H (po_resolver P) s (po_history P) = (r, R', h')"
  shows "run_pool K H (Spawn s # replicate 41 (Poll (length (po_tasks P)))) P =
    \<lparr>po_resolver = R', po_history = h', po_tasks = po_tasks P @ [(s, Ended r)]\<rparr>"
proof -
  let ?P = "P\<lparr>po_tasks := po_tasks P @ [(s, Started)]\<rparr>"
  have "(poll K H s ^^ 41) (Started, po_resolver P, po_history P) = (Ended r, R', h')"
    by (rule alone_within [OF assms])
  with run_polls [of "length (po_tasks P)" ?P s Started, where n = 41] show ?thesis
    by simp
qed

section \<open>A pool of the witnesses\<close>

definition demo_pool :: "history \<Rightarrow> demo_urn pool" where
  "demo_pool h = \<lparr>po_resolver = demo_rpc None, po_history = h, po_tasks = []\<rparr>"

lemma demo_pool_interleaved: "interleaved demo_crates demo_net (demo_rpc_options None) (demo_pool h)"
  unfolding demo_pool_def
  by (rule interleaved.opened [of _ _ h]) (simp add: with_options_def demo_rpc_options_def demo_rpc_def)

text \<open>Two resolves of the same URN and one of a malformed one, all just started.\<close>

definition demo_three :: "history \<Rightarrow> demo_urn pool" where
  "demo_three h = run_pool demo_crates demo_net [Spawn ''r:x'', Spawn ''?'', Spawn ''r:x''] (demo_pool h)"

lemma demo_three_tasks: "po_tasks (demo_three h) = [(''r:x'', Started), (''?'', Started), (''r:x'', Started)]"
  by (simp add: demo_three_def demo_pool_def)

lemma demo_three_interleaved: "interleaved demo_crates demo_net (demo_rpc_options None) (demo_three h)"
  unfolding demo_three_def by (rule interleaved_run [OF demo_pool_interleaved])

text \<open>The same pool after one resolve has run to its end.\<close>

lemma demo_ended:
  obtains P d where "interleaved demo_crates demo_net (demo_rpc_options None) P"
    and "po_tasks P = [(''r:x'', Ended (Inr (Success d)))]" and "rd_bytes d = [1, 2]"
proof -
  obtain d R' h' where res: "resolve demo_crates demo_net (po_resolver (demo_pool [])) ''r:x'' (po_history (demo_pool []))
      = (Inr (Success d), R', h')" and d: "rd_bytes d = [1, 2]"
    using demo_resolves [of "[]"] by (auto simp: demo_pool_def)
  let ?P = "\<lparr>po_resolver = R', po_history = h', po_tasks = po_tasks (demo_pool []) @ [(''r:x'', Ended (Inr (Success d)))]\<rparr>"
  have "interleaved demo_crates demo_net (demo_rpc_options None) ?P"
    using interleaved_run [OF demo_pool_interleaved [of "[]"]]
      run_alone [OF interleaved_short [OF demo_pool_interleaved] res] by metis
  with d show thesis by (intro that [of ?P d]) (simp_all add: demo_pool_def)
qed

lemma count_rounds: "count_list (concat (replicate n xs)) x = n * count_list xs x"
  by (induction n) simp_all

section \<open>Properties\<close>

text \<open>
  C3. Concurrency does not weaken the safety of a resolve.  Take any resolver with any number of
  resolves in flight on it, started, polled and dropped in any order, with events of the outside
  world between any two polls and answers formed at any time.  Whenever one of them has ended with content, the content is
  authentic under the root of that task's own URN, or attested by a loopback node for it, or for
  a URN with the same cache identity.
\<close>

theorem interleaved_success_authentic:
  assumes "gate_contract K" and "decrypt_contract K"
    and "interleaved K H opts P" and "(s, Ended (Inr (Success d))) \<in> set (po_tasks P)"
  shows "\<exists>p p' root. parse_urn K s = Inr p \<and>
    (case root_hex K p of Some q \<Rightarrow> cache_id K p' root = cache_id K p q | None \<Rightarrow> p' = p) \<and>
    (authentic K p' root (rd_bytes d) \<or> attested_by_node K H opts p' d)"
proof -
  from interleaved_ok [OF assms(3)] assms(4) have "sound_success K H opts s d"
    by (fastforce simp: pool_ok_def)
  with verified_as_authentic [OF assms(1,2)] show ?thesis
    unfolding sound_success_def provenance_def source_of_def by blast
qed

lemma interleaved_success_authentic_witness:
  "\<exists>P d p' root. interleaved demo_crates demo_net (demo_rpc_options None) P \<and>
     (''r:x'', Ended (Inr (Success d))) \<in> set (po_tasks P) \<and> rd_bytes d = [1, 2] \<and>
     (authentic demo_crates p' root (rd_bytes d) \<or>
      attested_by_node demo_crates demo_net (demo_rpc_options None) p' d)"
proof -
  obtain P d where P: "interleaved demo_crates demo_net (demo_rpc_options None) P"
    and tasks: "po_tasks P = [(''r:x'', Ended (Inr (Success d)))]" and d: "rd_bytes d = [1, 2]"
    by (rule demo_ended)
  have mem: "(''r:x'', Ended (Inr (Success d))) \<in> set (po_tasks P)" using tasks by simp
  show ?thesis
    using interleaved_success_authentic [OF demo_gate demo_decrypt P mem] P mem d by blast
qed

text \<open>
  C20. Every request of a poll, in any interleaving, is one that the URN of the polled task allows:
  a health probe of a local tier without an override, the node read of that URN at a trusted
  loopback base, or a window request for that URN at the gateway of the options.
\<close>

theorem interleaved_requests:
  assumes "interleaved K H opts P" and "i < length (po_tasks P)"
  shows "grows (\<lambda>e. is_http e \<longrightarrow>
      (\<exists>p. parse_urn K (fst (po_tasks P ! i)) = Inr p \<and> allowed_request K H opts p True e))
    (po_history P) (po_history (perform K H P (Poll i)))"
proof -
  obtain s t where st: "po_tasks P ! i = (s, t)" by fastforce
  obtain t' R' h' where poll: "poll K H s (t, po_resolver P, po_history P) = (t', R', h')"
    by (metis prod_cases3)
  from interleaved_ok [OF assms(1)] have ok: "pool_ok K H opts P" .
  have "task_ok K H opts s t" using ok assms(2) st by (metis case_prodD nth_mem pool_ok_def)
  with poll_ok [of K H opts s t "po_resolver P" "po_history P"] ok poll
  have "grows (request_ok K H opts s) (po_history P) h'" by (simp add: pool_ok_def polled_ok_def)
  with perform_Poll [OF assms(2) st poll] st show ?thesis
    by (simp add: request_ok_def [abs_def])
qed

lemma interleaved_requests_witness:
  "grows (\<lambda>e. is_http e \<longrightarrow> (\<exists>p. parse_urn demo_crates ''r:x'' = Inr p \<and>
       allowed_request demo_crates demo_net (demo_rpc_options None) p True e))
     (po_history (demo_three [])) (po_history (perform demo_crates demo_net (demo_three []) (Poll 2)))"
  using interleaved_requests [OF demo_three_interleaved [of "[]"], of 2]
  by (simp add: demo_three_tasks del: perform.simps)

text \<open>
  C11. A resolve in flight always ends: whatever else happens between its polls, a task that is not
  cancelled has its result after at most 41 polls of its own.
\<close>

theorem interleaved_resolves_end:
  assumes "interleaved K H opts P" and "i < length (po_tasks P)" and "po_tasks P ! i = (s, Started)"
    and "Cancel i \<notin> set acts" and "41 \<le> count_list acts (Poll i)"
  shows "\<exists>r. po_tasks (run_pool K H acts P) ! i = (s, Ended r)"
proof -
  obtain t where t: "po_tasks (run_pool K H acts P) ! i = (s, t)" "t \<noteq> Dropped"
    and "finished t \<or> task_cost t + 41 \<le> 41"
    using run_progress [OF interleaved_short [OF assms(1)] assms(2), of acts K H] assms(3-5)
    by (cases "po_tasks (run_pool K H acts P) ! i") (auto simp: progress_def MAX_WINDOWS_nat)
  then show ?thesis by (cases t) simp_all
qed

lemma interleaved_resolves_end_witness:
  "\<exists>r. po_tasks (run_pool demo_crates demo_net
      (concat (replicate 41 [Poll 2, Late 0 [], Poll 1, Outside (FsRead ''f''), Poll 0])) (demo_three [])) ! 0 = (''r:x'', Ended r)"
proof (rule interleaved_resolves_end [OF demo_three_interleaved])
  show "0 < length (po_tasks (demo_three []))" "po_tasks (demo_three []) ! 0 = (''r:x'', Started)"
    by (simp_all add: demo_three_tasks)
qed (simp_all add: count_rounds)

text \<open>
  The asynchronous code computes what the sequential reading of it says: in a pool of any
  tasks, a new task that is polled without interruption ends, within 41 polls, with the result,
  the resolver and the history of \<open>resolve\<close>, and leaves the other tasks as they are.
\<close>

theorem uninterrupted_task_is_resolve:
  assumes "interleaved K H opts P" and "resolve K H (po_resolver P) s (po_history P) = (r, R', h')"
  shows "run_pool K H (Spawn s # replicate 41 (Poll (length (po_tasks P)))) P =
    \<lparr>po_resolver = R', po_history = h', po_tasks = po_tasks P @ [(s, Ended r)]\<rparr>"
  by (rule run_alone [OF interleaved_short [OF assms(1)] assms(2)])

lemma uninterrupted_task_is_resolve_witness:
  "\<exists>d R' h'. run_pool demo_crates demo_net (Spawn ''r:x'' # replicate 41 (Poll 0)) (demo_pool []) =
     \<lparr>po_resolver = R', po_history = h', po_tasks = [(''r:x'', Ended (Inr (Success d)))]\<rparr> \<and> rd_bytes d = [1, 2]"
proof -
  obtain d R' h' where res: "resolve demo_crates demo_net (po_resolver (demo_pool [])) ''r:x'' (po_history (demo_pool []))
      = (Inr (Success d), R', h')" and d: "rd_bytes d = [1, 2]"
    using demo_resolves [of "[]"] by (auto simp: demo_pool_def)
  from uninterrupted_task_is_resolve [OF demo_pool_interleaved res] d show ?thesis
    by (auto simp: demo_pool_def simp del: run_pool_simps)
qed

text \<open>
  C19. What resolves in flight share stays sound.  At every moment of every interleaving the memory
  cache of the resolver holds at most 256 entries under distinct identities and at most 32 MiB,
  its counter is exactly the sum of the sizes, and each entry is content that is authentic under
  the root in its identity, or was attested by a loopback node for the URN in its identity.
\<close>

theorem interleaved_cache_sound:
  assumes "gate_contract K" and "decrypt_contract K" and "interleaved K H opts P"
  shows "let i = inner (r_memory (po_resolver P)) in
    distinct (map fst (entries i)) \<and> length (entries i) \<le> 256 \<and> used_bytes i \<le> 32 * 1024 * 1024 \<and>
    used_bytes i = (\<Sum>x\<leftarrow>entries i. length (rd_bytes (e_data (snd x)))) \<and>
    (\<forall>(k, e) \<in> set (entries i). \<exists>p root. k = cache_id K p root \<and>
       (authentic K p root (rd_bytes (e_data e)) \<or> attested_by_node K H opts p (e_data e)))"
proof -
  let ?m = "r_memory (po_resolver P)"
  have ok: "mc_wf ?m" "memory_ok K H opts ?m" "max_entries ?m = DEFAULT_MEMORY_ENTRIES"
    "max_bytes ?m = DEFAULT_MEMORY_BYTES"
    using interleaved_ok [OF assms(3)] by (simp_all add: pool_ok_def resolver_ok_def)
  have "\<exists>p root. k = cache_id K p root \<and>
      (authentic K p root (rd_bytes (e_data e)) \<or> attested_by_node K H opts p (e_data e))"
    if "(k, e) \<in> set (entries (inner ?m))" for k e
  proof -
    have "mc_stored ?m k = Some (e_data e)"
      using that ok(1) by (simp add: mc_stored_def mc_wf_def accounted_def map_of_is_SomeI)
    with ok(2) have "\<exists>p root. k = cache_id K p root \<and> provenance K H opts p root (e_data e)"
      unfolding memory_ok_def by blast
    with verified_as_authentic [OF assms(1,2)] show ?thesis unfolding provenance_def by blast
  qed
  with ok(1,3,4) show ?thesis
    by (auto simp: Let_def mc_wf_def accounted_def esize_def [abs_def] DEFAULT_MEMORY_ENTRIES_def
        DEFAULT_MEMORY_BYTES_def)
qed

lemma interleaved_cache_sound_witness:
  "\<exists>P d. interleaved demo_crates demo_net (demo_rpc_options None) P \<and>
     po_tasks P = [(''r:x'', Ended (Inr (Success d)))] \<and> rd_bytes d = [1, 2] \<and>
     length (entries (inner (r_memory (po_resolver P)))) \<le> 256"
proof -
  obtain P d where P: "interleaved demo_crates demo_net (demo_rpc_options None) P"
    and tasks: "po_tasks P = [(''r:x'', Ended (Inr (Success d)))]" and d: "rd_bytes d = [1, 2]"
    by (rule demo_ended)
  from interleaved_cache_sound [OF demo_gate demo_decrypt P] P tasks d show ?thesis
    by (intro exI [of _ P] exI [of _ d]) (simp add: Let_def)
qed

end
