(* ===== verification/Transparent.thy ===== *)
theory Transparent
  imports AsyncProps
begin

text \<open>
  The specification that caches, the cached plan and concurrency refine.  In a network whose answers
  do not change, the result of a resolve is a function of the URN alone; a resolver with a memory
  cache, a plan cache and any number of resolves in flight gives no other result than that
  function, as long as no two of its URNs share a cache identity without being the same URN.
\<close>

section \<open>A network that does not change its mind\<close>

definition stable_net :: "host \<Rightarrow> bool" where
  "stable_net H \<longleftrightarrow> (\<forall>h h' e. is_http e \<longrightarrow> transport H h e = transport H h' e)"

definition reply :: "host \<Rightarrow> event \<Rightarrow> transport_error + http_response" where
  "reply H e = transport H [] e"

lemma stable_get: "stable_net H \<Longrightarrow> transport H h (HttpGet url) = reply H (HttpGet url)"
  unfolding stable_net_def reply_def by (metis is_http.simps(1))

lemma stable_post: "stable_net H \<Longrightarrow> transport H h (HttpPost url b) = reply H (HttpPost url b)"
  unfolding stable_net_def reply_def by (metis is_http.simps(2))

lemmas stable_replies = stable_get stable_post

text \<open>What one task gets does not depend on when it asks, nor on the resolver it runs on.\<close>

lemma one_window_timeless:
  "stable_net H \<Longrightarrow> fst (one_window K H base p root st h) = fst (one_window K H base p root st h')"
  by (auto simp: one_window_def rpc_call_eq stable_replies split: sum.splits transport_error.splits)

lemma window_loop_timeless:
  assumes "stable_net H" and "window_loop K H base p root st h = (r, h1)"
  shows "fst (window_loop K H base p root st h') = r"
  using assms(2)
proof (induction arbitrary: h' rule: window_loop_induct)
  case (exhausted st h)
  then show ?case by (simp add: window_loop.simps)
next
  case (failed st h e h1)
  with one_window_timeless [OF assms(1), of K base p root "st\<lparr>w_windows := Suc (w_windows st)\<rparr>" h' h]
  show ?case by (subst window_loop.simps) (auto simp: Let_def split: prod.splits)
next
  case (complete st h st' h1)
  with one_window_timeless [OF assms(1), of K base p root "st\<lparr>w_windows := Suc (w_windows st)\<rparr>" h' h]
  show ?case by (subst window_loop.simps) (auto simp: Let_def split: prod.splits)
next
  case (more st h st' st'' h1 r h2)
  with one_window_timeless [OF assms(1), of K base p root "st\<lparr>w_windows := Suc (w_windows st)\<rparr>" h' h]
  show ?case by (subst window_loop.simps) (auto simp: Let_def split: prod.splits)
qed

lemma fetch_from_timeless:
  assumes "stable_net H"
  shows "fst (fetch_from K H ep p h) = fst (fetch_from K H ep p h')"
proof -
  have "fst (window_loop K H base p root window_start h) = fst (window_loop K H base p root window_start h')"
    for base root
    by (metis window_loop_timeless [OF assms] prod.collapse)
  then have "fst (rpc_fetch K H base p h) = fst (rpc_fetch K H base p h')" for base
    by (auto simp: rpc_fetch_def split: sum.splits prod.splits) (metis fst_conv sum.sel sum.simps(4))+
  then show ?thesis
    by (simp add: fetch_from_def node_fetch_eq stable_replies [OF assms] split: endpoint_kind.split)
qed

lemma probe_tiers_timeless:
  "stable_net H \<Longrightarrow> fst (probe_tiers K H ts h) = fst (probe_tiers K H ts h')"
  by (induction ts arbitrary: h h')
    (auto simp: probe_tiers.simps health_ok_def http_get_def stable_replies split: sum.splits bool.splits)

lemma walk_timeless:
  assumes "stable_net H"
  shows "fst (walk K H p lst i eps R h) = fst (walk K H p lst i eps R' h')"
proof (induction eps arbitrary: i R R' h h')
  case Nil
  then show ?case by (simp add: walk.simps)
next
  case (Cons ep eps)
  obtain a h1 h2 where "fetch_from K H ep p h = (a, h1)" "fetch_from K H ep p h' = (a, h2)"
    using fetch_from_timeless [OF assms, of K ep p h h'] by (metis prod.collapse)
  with Cons show ?case
    by (cases a) (auto simp: walk.simps split: prod.splits resolve_error.splits)
qed

section \<open>The specification\<close>

text \<open>
  No cache, no history, no index: the tiers of the plan in order, each asked once, and the first one
  that does not let the ladder go on decides.
\<close>

fun first_answer :: "('u, 'm) crates \<Rightarrow> host \<Rightarrow> 'u parsed_urn \<Rightarrow> endpoint list \<Rightarrow> outcome" where
  "first_answer K H p [] = Inr Unreachable"
| "first_answer K H p (ep # eps) =
     (case fst (fetch_from K H ep p []) of
        Inl e \<Rightarrow> if is_fall_through e \<and> eps \<noteq> [] then first_answer K H p eps else verdict (Inl e)
      | Inr f \<Rightarrow> Inr (Success (f_data f)))"

definition plan_now :: "('u, 'm) crates \<Rightarrow> host \<Rightarrow> resolve_options \<Rightarrow> endpoint list" where
  "plan_now K H opts = fst (build_plan K H (o_endpoint opts) [])"

definition answer_of :: "('u, 'm) crates \<Rightarrow> host \<Rightarrow> resolve_options \<Rightarrow> string \<Rightarrow> outcome" where
  "answer_of K H opts s =
     (case parse_urn K s of Inl e \<Rightarrow> Inl e | Inr p \<Rightarrow> first_answer K H p (plan_now K H opts))"

lemma walk_first_answer:
  assumes "stable_net H" and "eps \<noteq> []" and "lst = i + (length eps - 1)"
  shows "fst (walk K H p lst i eps R h) = first_answer K H p eps"
  using assms(2,3)
proof (induction eps arbitrary: i h)
  case Nil
  then show ?case by simp
next
  case (Cons ep eps)
  obtain a h1 where fetch: "fetch_from K H ep p h = (a, h1)" by fastforce
  then have spec: "fst (fetch_from K H ep p []) = a"
    using fetch_from_timeless [OF assms(1), of K ep p h "[]"] by simp
  show ?case
  proof (cases a)
    case (Inr f)
    with fetch spec show ?thesis by (simp add: walk.simps split: prod.splits)
  next
    case (Inl e)
    have "i = lst \<longleftrightarrow> eps = []" using Cons.prems by (cases eps) simp_all
    moreover have "fst (walk K H p lst (i + 1) eps R h1) = first_answer K H p eps" if "eps \<noteq> []"
      using that Cons.prems by (intro Cons.IH) (cases eps; simp)+
    ultimately show ?thesis using fetch spec Inl by (cases e) (auto simp: walk.simps)
  qed
qed

text \<open>
  The same as section 4 of \<open>SPEC.md\<close> has it, without a plan: an override alone, or the first loopback
  node that is up and, where it has nothing, the public gateway.
\<close>

definition node_up :: "host \<Rightarrow> string \<Rightarrow> bool" where
  "node_up H base = (case reply H (HttpGet (health_url base)) of Inr resp \<Rightarrow> is_success resp | Inl _ \<Rightarrow> False)"

definition local_node :: "('u, 'm) crates \<Rightarrow> host \<Rightarrow> string option" where
  "local_node K H = find (\<lambda>base. is_loopback_base K H base \<and> node_up H base) [DIG_LOCAL_BASE, LOCALHOST_BASE]"

definition node_says :: "('u, 'm) crates \<Rightarrow> host \<Rightarrow> string \<Rightarrow> 'u parsed_urn \<Rightarrow> resolve_error + fetched" where
  "node_says K H base p =
     (case reply H (HttpGet (serve_url K base p)) of
        Inl (TransportError m) \<Rightarrow> Inl (Transport m)
      | Inr resp \<Rightarrow> node_answer K p resp)"

definition gateway_says :: "('u, 'm) crates \<Rightarrow> host \<Rightarrow> string \<Rightarrow> 'u parsed_urn \<Rightarrow> resolve_error + fetched" where
  "gateway_says K H base p = fst (rpc_fetch K H base p [])"

definition or_else :: "resolve_error + fetched \<Rightarrow> resolve_error + fetched \<Rightarrow> resolve_error + fetched" where
  "or_else a b = (case a of Inl e \<Rightarrow> if is_fall_through e then b else a | Inr f \<Rightarrow> a)"

definition specified :: "('u, 'm) crates \<Rightarrow> host \<Rightarrow> resolve_options \<Rightarrow> string \<Rightarrow> outcome" where
  "specified K H opts s =
     (case parse_urn K s of
        Inl e \<Rightarrow> Inl e
      | Inr p \<Rightarrow>
         verdict
           (case o_endpoint opts of
              Some base \<Rightarrow>
                (let trimmed = trim_end_matches CHR ''/'' base
                 in if is_loopback_base K H trimmed then node_says K H trimmed p else gateway_says K H trimmed p)
            | None \<Rightarrow>
                (case local_node K H of
                   None \<Rightarrow> gateway_says K H RPC_DEFAULT_BASE p
                 | Some base \<Rightarrow> or_else (node_says K H base p) (gateway_says K H RPC_DEFAULT_BASE p))))"

lemma fetch_from_says:
  assumes "stable_net H"
  shows "fst (fetch_from K H (endpoint_node base) p h) = node_says K H base p"
    and "fst (fetch_from K H (endpoint_rpc base) p []) = gateway_says K H base p"
  by (simp_all add: fetch_from_def endpoint_defs node_fetch_eq node_says_def gateway_says_def
      stable_replies [OF assms])

lemma first_answer_one: "first_answer K H p [ep] = verdict (fst (fetch_from K H ep p []))"
  by (simp split: sum.split)

lemma first_answer_two:
  "first_answer K H p [ep, ep'] = verdict (or_else (fst (fetch_from K H ep p [])) (fst (fetch_from K H ep' p [])))"
  by (simp add: or_else_def split: sum.split)

lemma probe_tiers_Cons:
  assumes "stable_net H"
  shows "fst (probe_tiers K H (t # ts) h) =
    (if is_loopback_base K H t \<and> node_up H t
     then [endpoint_node t, endpoint_rpc RPC_DEFAULT_BASE] else fst (probe_tiers K H ts []))"
  using probe_tiers_timeless [OF assms, of K ts "h @ [HttpGet (health_url t)]" "[]"]
    probe_tiers_timeless [OF assms, of K ts h "[]"]
  by (auto simp: probe_tiers.simps health_ok_def http_get_def node_up_def stable_replies [OF assms] split: sum.splits)

lemma plan_now_eq:
  assumes "stable_net H"
  shows "plan_now K H opts =
    (case o_endpoint opts of
       Some base \<Rightarrow> [classify K H base]
     | None \<Rightarrow> (case local_node K H of
         None \<Rightarrow> [endpoint_rpc RPC_DEFAULT_BASE]
       | Some base \<Rightarrow> [endpoint_node base, endpoint_rpc RPC_DEFAULT_BASE]))"
  by (simp add: plan_now_def build_plan_def local_node_def probe_tiers_Cons [OF assms] probe_tiers.simps(1)
      split: option.split)

lemma answer_specified:
  assumes "stable_net H"
  shows "answer_of K H opts s = specified K H opts s"
  by (simp add: answer_of_def specified_def plan_now_eq [OF assms] first_answer_one first_answer_two
      fetch_from_says [OF assms] classify_def Let_def del: first_answer.simps split: sum.split option.split)

lemma plan_of_now:
  assumes "stable_net H" and "r_options R = opts" and "r_plan_cache R \<in> {None, Some (plan_now K H opts)}"
    and "plan_of K H R h = (plan, R', h')"
  shows "plan = plan_now K H opts" and "r_plan_cache R' = Some plan" and "r_memory R' = r_memory R"
    and "r_options R' = opts" and "r_disk R' = r_disk R"
proof -
  have "fst (build_plan K H ov h) = fst (build_plan K H ov [])" for ov
    using probe_tiers_timeless [OF assms(1)] by (auto simp: build_plan_def split: option.split)
  with assms(2-4) show "plan = plan_now K H opts" "r_plan_cache R' = Some plan" "r_memory R' = r_memory R"
    "r_options R' = opts" "r_disk R' = r_disk R"
    by (auto simp: plan_of_def plan_now_def split: option.splits prod.splits) (metis fst_conv)+
qed

section \<open>What a poll does\<close>

text \<open>The plan a resolver may remember, and what a suspended task was told.\<close>

fun wait_true :: "('u, 'm) crates \<Rightarrow> host \<Rightarrow> resolve_options \<Rightarrow> 'u wait \<Rightarrow> bool" where
  "wait_true K H opts (AtProbe q tier tiers) \<longleftrightarrow>
     is_loopback_base K H tier \<and> fst (probe_tiers K H (tier # tiers) []) = plan_now K H opts"
| "wait_true K H opts w \<longleftrightarrow> True"

fun task_true :: "('u, 'm) crates \<Rightarrow> host \<Rightarrow> resolve_options \<Rightarrow> 'u task \<Rightarrow> bool" where
  "task_true K H opts (Waiting w a) \<longleftrightarrow> a = reply H (request_of K w) \<and> wait_true K H opts w"
| "task_true K H opts t \<longleftrightarrow> True"

text \<open>A poll leaves the memory alone, or stores what the task ends with, under an identity of its URN.\<close>

definition effect ::
    "('u, 'm) crates \<Rightarrow> host \<Rightarrow> resolve_options \<Rightarrow> 'u parsed_urn \<Rightarrow> resolver \<Rightarrow> 'u config \<Rightarrow> bool" where
  "effect K H opts p R cfg \<longleftrightarrow>
     (case cfg of (t, R', h') \<Rightarrow>
        task_true K H opts t \<and> r_options R' = r_options R \<and> r_disk R' = r_disk R \<and>
        r_plan_cache R' \<in> {r_plan_cache R, Some (plan_now K H opts)} \<and>
        (r_memory R' = r_memory R \<or>
         (\<exists>d r. t = Ended (Inr (Success d)) \<and> root_hex K p \<in> {None, Some r} \<and>
            r_memory R' = mc_put (r_memory R) (cache_id K p r) d)))"

lemma effect_Ended [simp]: "effect K H opts p R (Ended r, R, h)"
  by (simp add: effect_def)

lemma send_window_effect:
  "stable_net H \<Longrightarrow> send_window K H c base q st R h = Inr cfg \<Longrightarrow> effect K H opts p R cfg"
  by (auto simp: effect_def send_window_def Let_def await_post_def post_json_def stable_replies split: if_splits)

lemma start_fetch_effect:
  "stable_net H \<Longrightarrow> start_fetch K H c ep R h = Inr cfg \<Longrightarrow> effect K H opts p R cfg"
  using send_window_effect [of H K c _ _ window_start R h cfg opts p]
  by (auto simp: start_fetch_def await_get_def http_get_def stable_replies
      split: endpoint_kind.splits sum.splits) (simp add: effect_def)

lemma enter_effect: "stable_net H \<Longrightarrow> effect K H opts p R (enter K H q lst i eps R h)"
proof (induction eps arbitrary: i)
  case (Cons ep eps)
  let ?c = "\<lparr>c_urn = q, c_last = lst, c_index = i, c_rest = eps\<rparr>"
  show ?case
  proof (cases "start_fetch K H ?c ep R h")
    case (Inr cfg)
    with start_fetch_effect [OF Cons.prems Inr] show ?thesis by simp
  next
    case (Inl e)
    with Cons show ?thesis by (cases "tier_error e i lst") simp_all
  qed
qed simp

lemma settle_effect:
  assumes "stable_net H" and "r_disk R = None" and "c_urn c = p" 
    and "\<And>f root. a = Inr f \<Longrightarrow> root_hex K p = Some root \<Longrightarrow> f_root f = Some root"
  shows "effect K H opts p R (settle K H c a R h)"
proof (cases a)
  case (Inl e)
  with enter_effect [OF assms(1)] show ?thesis
    by (cases "tier_error e (c_index c) (c_last c)") (simp_all add: settle_def)
next
  case (Inr f)
  with assms(2-4) show ?thesis
    by (cases "f_root f"; cases "root_hex K p") (auto simp: settle_def cache_success_def Let_def effect_def)
qed

lemma effect_planned:
  assumes "effect K H opts p (R\<lparr>r_plan_cache := Some (plan_now K H opts)\<rparr>) cfg"
  shows "effect K H opts p R cfg"
  using assms by (auto simp: effect_def)

lemma planned_effect:
  "stable_net H \<Longrightarrow> plan = plan_now K H opts \<Longrightarrow> effect K H opts p R (planned K H q plan R h)"
  unfolding planned_def by (rule effect_planned) (simp add: enter_effect)

lemma probe_next_effect:
  assumes "stable_net H" and "fst (probe_tiers K H ts []) = plan_now K H opts"
  shows "effect K H opts p R (probe_next K H q ts R h)"
  using assms(2)
proof (induction ts)
  case Nil
  then show ?case by (simp add: planned_effect [OF assms(1)] probe_tiers.simps)
next
  case (Cons t ts)
  show ?case
  proof (cases "is_loopback_base K H t")
    case True
    with Cons.prems show ?thesis
      by (simp add: await_get_def http_get_def effect_def stable_replies [OF assms(1)])
  next
    case False
    with Cons show ?thesis by (simp add: probe_tiers.simps)
  qed
qed

lemma start_ladder_effect:
  assumes "stable_net H" and "r_options R = opts" and "r_plan_cache R \<in> {None, Some (plan_now K H opts)}"
  shows "effect K H opts p R (start_ladder K H q R h)"
proof (cases "r_plan_cache R")
  case (Some plan)
  then show ?thesis by (simp add: start_ladder_def enter_effect [OF assms(1)])
next
  case None
  show ?thesis
  proof (cases "o_endpoint opts")
    case (Some base)
    then have "plan_now K H opts = [classify K H base]" by (simp add: plan_now_def)
    with None Some assms show ?thesis by (simp add: start_ladder_def planned_effect)
  next
    assume none: "o_endpoint opts = None"
    then have "fst (probe_tiers K H [DIG_LOCAL_BASE, LOCALHOST_BASE] []) = plan_now K H opts"
      by (simp add: plan_now_def build_plan_def)
    from probe_next_effect [OF assms(1) this] None none assms(2) show ?thesis
      by (simp add: start_ladder_def del: probe_next.simps)
  qed
qed

lemma answered_probe_effect:
  assumes "stable_net H" and "is_loopback_base K H tier" and "a = reply H (HttpGet (health_url tier))"
    and plan: "fst (probe_tiers K H (tier # tiers) []) = plan_now K H opts"
  shows "effect K H opts p R (resume K H (AtProbe q tier tiers) a R h)"
proof -
  note probed = plan [unfolded probe_tiers_Cons [OF assms(1)]]
  have up: "node_up H tier \<longleftrightarrow> (case a of Inr resp \<Rightarrow> is_success resp | Inl _ \<Rightarrow> False)"
    using assms(3) by (simp add: node_up_def)
  show ?thesis
  proof (cases "node_up H tier")
    case True
    with probed assms(2)
    have "[endpoint_node tier, endpoint_rpc RPC_DEFAULT_BASE] = plan_now K H opts" by simp
    from planned_effect [OF assms(1) this] True up show ?thesis by simp
  next
    case False
    with probed have "fst (probe_tiers K H tiers []) = plan_now K H opts" by simp
    from probe_next_effect [OF assms(1) this] False up show ?thesis
      by (simp del: probe_next.simps)
  qed
qed

lemma answered_window_effect:
  assumes "stable_net H" and "r_disk R = None" and "c_urn c = p" and "root_hex K p = Some q"
  shows "effect K H opts p R (resume K H (AtWindow c base q st) a R h)"
proof -
  note settle = settle_effect [OF assms(1-3)]
  show ?thesis
  proof (cases "window_answered K p q st a")
    case (Inl res)
    have "f_root f = Some root" if "res = Inr f" "root_hex K p = Some root" for f root
      using Inl that assms(4)
      by (auto simp: window_answered_def assembled_def
          split: sum.splits transport_error.splits option.splits)
    then have "effect K H opts p R (settle K H c res R h)" by (rule settle)
    with Inl assms(3) show ?thesis by simp
  next
    case (Inr st')
    have "effect K H opts p R (settle K H c (Inl e) R h)" for e by (rule settle) simp_all
    then have "effect K H opts p R (ask_window K H c base q st' R h)"
      by (cases "send_window K H c base q st' R h")
        (simp_all add: ask_window_def send_window_effect [OF assms(1)])
    with Inr assms(3) show ?thesis by simp
  qed
qed

lemma resume_effect:
  assumes "stable_net H" and "r_disk R = None" and "task_true K H opts (Waiting w a)"
    and "wait_ok K H opts p w a"
  shows "effect K H opts p R (resume K H w a R h)"
proof (cases w)
  case (AtProbe q tier tiers)
  with assms(3) have "is_loopback_base K H tier" "a = reply H (HttpGet (health_url tier))"
    "fst (probe_tiers K H (tier # tiers) []) = plan_now K H opts" by simp_all
  then show ?thesis unfolding AtProbe by (rule answered_probe_effect [OF assms(1)])
next
  case (AtNode c base)
  with assms(4) have c: "c_urn c = p" by simp
  show ?thesis unfolding AtNode resume.simps
  proof (rule settle_effect [OF assms(1,2) c])
    fix f root
    assume root: "root_hex K p = Some root" and f: "(case a of Inl (TransportError m) \<Rightarrow> Inl (Transport m)
        | Inr resp \<Rightarrow> node_answer K (c_urn c) resp) = Inr f"
    then obtain resp where "node_answer K p resp = Inr f"
      using c by (auto split: sum.splits transport_error.splits)
    then show "f_root f = Some root" using root by (rule node_answer_Inr(2))
  qed
next
  case (AtWindow c base q st)
  with assms(4) have "c_urn c = p" "root_hex K p = Some q" by auto
  then show ?thesis unfolding AtWindow by (rule answered_window_effect [OF assms(1,2)])
qed

section \<open>A task does not see the resolver\<close>

text \<open>Where a task goes depends only on where it is and on what it was answered.\<close>

lemma send_window_timeless:
  "stable_net H \<Longrightarrow> map_sum id fst (send_window K H c base q st R h) = map_sum id fst (send_window K H c base q st R' h')"
  by (simp add: send_window_def Let_def await_post_def post_json_def stable_replies)

lemma start_fetch_timeless:
  "stable_net H \<Longrightarrow> map_sum id fst (start_fetch K H c ep R h) = map_sum id fst (start_fetch K H c ep R' h')"
  using send_window_timeless [of H K c _ _ window_start R h R' h']
  by (simp add: start_fetch_def await_get_def http_get_def stable_replies split: endpoint_kind.split sum.split)

lemma enter_timeless:
  assumes "stable_net H"
  shows "fst (enter K H p lst i eps R h) = fst (enter K H p lst i eps R' h')"
proof (induction eps arbitrary: i)
  case (Cons ep eps)
  let ?c = "\<lparr>c_urn = p, c_last = lst, c_index = i, c_rest = eps\<rparr>"
  from start_fetch_timeless [OF assms, of K ?c ep R h R' h'] Cons show ?case
    by (cases "start_fetch K H ?c ep R h"; cases "start_fetch K H ?c ep R' h'") (auto split: option.split)
qed simp

lemma settle_timeless: "stable_net H \<Longrightarrow> fst (settle K H c a R h) = fst (settle K H c a R' h')"
  using enter_timeless [of H K "c_urn c" "c_last c" "c_index c + 1" "c_rest c" R h R' h']
  by (auto simp: settle_def split: sum.split prod.split option.split)

lemma planned_timeless: "stable_net H \<Longrightarrow> fst (planned K H p plan R h) = fst (planned K H p plan R' h')"
  unfolding planned_def by (rule enter_timeless)

lemma probe_next_timeless: "stable_net H \<Longrightarrow> fst (probe_next K H p ts R h) = fst (probe_next K H p ts R' h')"
  by (induction ts) (auto simp: await_get_def http_get_def stable_replies intro: planned_timeless)

lemma resume_timeless:
  assumes "stable_net H"
  shows "fst (resume K H w a R h) = fst (resume K H w a R' h')"
proof (cases w)
  case (AtProbe q tier tiers)
  then show ?thesis
    by (simp add: planned_timeless [OF assms, of K _ _ R h R' h'] probe_next_timeless [OF assms, of K _ _ R h R' h']
        del: probe_next.simps)
next
  case (AtNode c base)
  then show ?thesis by (simp add: settle_timeless [OF assms, of K _ _ R h R' h'])
next
  case (AtWindow c base q st)
  have "fst (ask_window K H c base q st' R h) = fst (ask_window K H c base q st' R' h')" for st'
    using send_window_timeless [OF assms, of K c base q st' R h R' h']
    by (auto simp: ask_window_def settle_timeless [OF assms, of K _ _ R h R' h'] split: sum.splits)
  with AtWindow show ?thesis
    by (simp add: settle_timeless [OF assms, of K _ _ R h R' h'] split: sum.split)
qed

section \<open>The invariant of a run\<close>

text \<open>
  The URNs of a run are told apart by their cache identities, where a rootless one may be cached
  under any root.
\<close>

definition told_apart :: "('u, 'm) crates \<Rightarrow> string set \<Rightarrow> bool" where
  "told_apart K U \<longleftrightarrow>
     (\<forall>s \<in> U. \<forall>p root. parse_urn K s = Inr p \<and> root_hex K p = Some root \<longrightarrow>
        (\<forall>t \<in> U. \<forall>q r. parse_urn K t = Inr q \<and> root_hex K q \<in> {None, Some r} \<and>
           cache_id K q r = cache_id K p root \<longrightarrow> q = p))"

text \<open>What a resolver remembers for a pinned URN of the run is what the specification says.\<close>

definition faithful :: "('u, 'm) crates \<Rightarrow> host \<Rightarrow> resolve_options \<Rightarrow> string set \<Rightarrow> resolver \<Rightarrow> bool" where
  "faithful K H opts U R \<longleftrightarrow>
     r_options R = opts \<and> r_disk R = None \<and> r_plan_cache R \<in> {None, Some (plan_now K H opts)} \<and>
     mc_wf (r_memory R) \<and>
     (\<forall>s \<in> U. \<forall>p root d. parse_urn K s = Inr p \<and> root_hex K p = Some root \<and>
        mc_stored (r_memory R) (cache_id K p root) = Some d \<longrightarrow> answer_of K H opts s = Inr (Success d))"

text \<open>A task is bound for the answer of its URN, from some resolver at least.\<close>

fun on_course :: "('u, 'm) crates \<Rightarrow> host \<Rightarrow> resolve_options \<Rightarrow> string \<Rightarrow> 'u task \<Rightarrow> bool" where
  "on_course K H opts s (Ended r) \<longleftrightarrow> r = answer_of K H opts s"
| "on_course K H opts s (Waiting w a) \<longleftrightarrow> task_true K H opts (Waiting w a) \<and>
     (\<exists>R h R' h'. leads K H s (Waiting w a, R, h) (Ended (answer_of K H opts s), R', h'))"
| "on_course K H opts s t \<longleftrightarrow> True"

lemma ladder_answer:
  assumes "stable_net H" and "faithful K H opts U R" and "parse_urn K s = Inr p"
  shows "fst (resolve_ladder K H p R h) = answer_of K H opts s"
proof -
  obtain plan R1 h1 where plan: "plan_of K H R h = (plan, R1, h1)" by (metis prod_cases3)
  have now: "plan = plan_now K H opts"
    by (rule plan_of_now(1) [OF assms(1) _ _ plan]) (use assms(2) in \<open>simp_all add: faithful_def\<close>)
  have "plan \<noteq> []"
    unfolding now plan_now_def using build_plan_nonempty by (metis prod.collapse)
  then have "fst (walk K H p (length plan - 1) 0 plan R1 h1) = first_answer K H p plan"
    by (intro walk_first_answer [OF assms(1)]) simp_all
  with plan now assms(3) show ?thesis by (simp add: resolve_ladder_def answer_of_def)
qed

lemma faithful_get:
  assumes "faithful K H opts U R" and "mc_get (r_memory R) i = (x, m)"
  shows "faithful K H opts U (R\<lparr>r_memory := m\<rparr>)"
proof -
  have "mc_wf m" using mc_wf_get [of "r_memory R" i] assms by (simp add: faithful_def)
  moreover have "mc_stored m = mc_stored (r_memory R)" using mc_stored_get [of "r_memory R" i] assms(2) by simp
  ultimately show ?thesis using assms(1) unfolding faithful_def by auto
qed

lemma faithful_no_disk: "faithful K H opts U R \<Longrightarrow> disk_get_verified K H R p i h = (None, h)"
  by (simp add: disk_get_verified_def faithful_def)

lemma resolve_answer:
  assumes "stable_net H" and "s \<in> U" and "faithful K H opts U R"
  shows "fst (resolve K H R s h) = answer_of K H opts s"
proof (cases "parse_urn K s")
  case (Inl e)
  then show ?thesis by (simp add: resolve_def answer_of_def)
next
  case (Inr p)
  note ladder = ladder_answer [OF assms(1) _ Inr]
  show ?thesis
  proof (cases "root_hex K p")
    case None
    with Inr ladder [OF assms(3)] show ?thesis by (simp add: resolve_def)
  next
    case (Some root)
    obtain x m where get: "mc_get (r_memory R) (cache_id K p root) = (x, m)" by fastforce
    show ?thesis
    proof (cases x)
      case None
      note R1 = faithful_get [OF assms(3) get]
      from ladder [OF R1] faithful_no_disk [OF R1] Inr Some get None show ?thesis by (simp add: resolve_def)
    next
      fix d
      assume x: "x = Some d"
      with get have "mc_stored (r_memory R) (cache_id K p root) = Some d"
        using fst_mc_get [of "r_memory R" "cache_id K p root"] by simp
      with assms(2,3) Inr Some have "answer_of K H opts s = Inr (Success d)" by (auto simp: faithful_def)
      with Inr Some get x show ?thesis by (simp add: resolve_def)
    qed
  qed
qed

lemma leads_step:
  assumes "leads K H s x (Ended r, R, h)" and "\<forall>r. fst x \<noteq> Ended r"
  shows "leads K H s (poll K H s x) (Ended r, R, h)"
proof -
  obtain n where n: "(poll K H s ^^ n) x = (Ended r, R, h)" using assms(1) by (auto simp: leads_def)
  with assms(2) obtain m where "n = Suc m" by (cases n) auto
  with n show ?thesis unfolding leads_def by (metis funpow_Suc_right comp_apply)
qed

lemma leads_Ended: "leads K H s (Ended q, R, h) (Ended r, R', h') \<Longrightarrow> q = r"
  by (auto simp: leads_def poll_finished)

lemma leads_Dropped: "\<not> leads K H s (Dropped, R, h) (Ended r, R', h')"
  by (auto simp: leads_def poll_finished)

text \<open>Where a poll leads to the answer and has the effect of one, the task stays on course.\<close>

lemma on_course_leads:
  assumes "leads K H s (t, R, h) (Ended (answer_of K H opts s), R', h')" and "task_true K H opts t"
  shows "on_course K H opts s t"
  using assms leads_Ended by (cases t) (auto simp del: task_true.simps)

lemma faithful_effect:
  assumes "told_apart K U" and "faithful K H opts U R" and "effect K H opts p R (t, R', h')"
    and "on_course K H opts s t" and "s \<in> U" and "parse_urn K s = Inr p"
  shows "faithful K H opts U R'"
proof (cases "r_memory R' = r_memory R")
  case True
  with assms(2,3) show ?thesis by (auto simp: faithful_def effect_def)
next
  case False
  with assms(3) obtain d r where t: "t = Ended (Inr (Success d))" and r: "root_hex K p \<in> {None, Some r}"
      and put: "r_memory R' = mc_put (r_memory R) (cache_id K p r) d" by (auto simp: effect_def)
  have wf: "mc_wf (r_memory R)" using assms(2) by (simp add: faithful_def)
  have "answer_of K H opts u = Inr (Success w)"
    if "u \<in> U" "parse_urn K u = Inr q" "root_hex K q = Some root" "mc_stored (r_memory R') (cache_id K q root) = Some w"
    for u q root w
  proof (cases "mc_stored (r_memory R) (cache_id K q root) = Some w")
    case True
    with that assms(2) show ?thesis unfolding faithful_def by blast
  next
    case False
    with mem.put_only [OF wf] that(4) put have same: "cache_id K q root = cache_id K p r" "w = d" by auto
    with assms(1,5,6) that(1-3) r have "p = q" unfolding told_apart_def by metis
    with assms(4,6) t that(2) same(2) show ?thesis by (simp add: answer_of_def)
  qed
  then have "\<forall>u \<in> U. \<forall>q root w. parse_urn K u = Inr q \<and> root_hex K q = Some root \<and>
      mc_stored (r_memory R') (cache_id K q root) = Some w \<longrightarrow> answer_of K H opts u = Inr (Success w)" by blast
  moreover have "mc_wf (r_memory R')" using put wf by (simp add: mc_wf_put)
  ultimately show ?thesis using assms(2,3) unfolding faithful_def effect_def by auto
qed

lemma launch_effect:
  assumes "stable_net H" and "faithful K H opts U R" and "parse_urn K s = Inr p"
  shows "\<exists>m. faithful K H opts U (R\<lparr>r_memory := m\<rparr>) \<and>
    effect K H opts p (R\<lparr>r_memory := m\<rparr>) (launch K H s R h)"
proof -
  have ladder: "effect K H opts p R1 (start_ladder K H p R1 h)" if "faithful K H opts U R1" for R1
    by (rule start_ladder_effect [OF assms(1)]) (use that in \<open>simp_all add: faithful_def\<close>)
  show ?thesis
  proof (cases "root_hex K p")
    case None
    then have "launch K H s R h = start_ladder K H p (R\<lparr>r_memory := r_memory R\<rparr>) h"
      using assms(3) by (simp add: launch_def)
    moreover have "faithful K H opts U (R\<lparr>r_memory := r_memory R\<rparr>)" using assms(2) by simp
    ultimately show ?thesis using ladder by metis
  next
    case (Some root)
    obtain x m where get: "mc_get (r_memory R) (cache_id K p root) = (x, m)" by fastforce
    note R1 = faithful_get [OF assms(2) get]
    from ladder [OF R1] have "effect K H opts p (R\<lparr>r_memory := m\<rparr>) (launch K H s R h)"
      using assms(3) Some get faithful_no_disk [OF R1] by (cases x) (simp_all add: launch_def)
    with R1 show ?thesis by blast
  qed
qed

lemma poll_course:
  assumes "stable_net H" and "told_apart K U" and "s \<in> U" and "faithful K H opts U R"
    and "task_ok K H opts s t" and "on_course K H opts s t"
    and "poll K H s (t, R, h) = (t', R', h')"
  shows "on_course K H opts s t' \<and> faithful K H opts U R'"
proof (cases t)
  case Started
  with assms(7) have launch: "launch K H s R h = (t', R', h')" by simp
  obtain R1 h1 where ends: "leads K H s (t', R', h') (Ended (answer_of K H opts s), R1, h1)"
    using launch_leads [of K H s R h] resolve_answer [OF assms(1,3,4), of h] launch
    by (metis ended.simps prod.collapse)
  show ?thesis
  proof (cases "parse_urn K s")
    case (Inl e)
    with launch assms(4) show ?thesis by (auto simp: launch_def answer_of_def)
  next
    case (Inr p)
    from launch_effect [OF assms(1,4) Inr, of h] launch obtain m where
        m: "faithful K H opts U (R\<lparr>r_memory := m\<rparr>)" "effect K H opts p (R\<lparr>r_memory := m\<rparr>) (t', R', h')"
      by auto
    then have "task_true K H opts t'" by (simp add: effect_def)
    with ends have "on_course K H opts s t'" by (rule on_course_leads)
    with faithful_effect [OF assms(2) m this assms(3) Inr] show ?thesis by blast
  qed
next
  case (Waiting w a)
  with assms(5) obtain p where p: "parse_urn K s = Inr p" "wait_ok K H opts p w a" by auto
  have resume: "resume K H w a R h = (t', R', h')" using Waiting assms(7) by simp
  have "r_disk R = None" using assms(4) by (simp add: faithful_def)
  from resume_effect [OF assms(1) this _ p(2), of h] resume Waiting assms(6)
  have eff: "effect K H opts p R (t', R', h')" by simp
  from Waiting assms(6) obtain R0 h0 R1 h1 where
      "leads K H s (Waiting w a, R0, h0) (Ended (answer_of K H opts s), R1, h1)" by auto
  from leads_step [OF this] have ends: "leads K H s (resume K H w a R0 h0) (Ended (answer_of K H opts s), R1, h1)"
    by (simp del: resume.simps)
  obtain R2 h2 where "resume K H w a R0 h0 = (t', R2, h2)"
    using resume_timeless [OF assms(1), of K w a R0 h0 R h] resume by (metis fst_conv prod_cases3)
  with ends have "leads K H s (t', R2, h2) (Ended (answer_of K H opts s), R1, h1)" by simp
  moreover have "task_true K H opts t'" using eff by (simp add: effect_def)
  ultimately have "on_course K H opts s t'" by (rule on_course_leads)
  with faithful_effect [OF assms(2,4) eff this assms(3) p(1)] show ?thesis by blast
qed (use assms in auto)

lemma late_course:
  assumes "stable_net H" and "on_course K H opts s t"
  shows "on_course K H opts s (late K H h t)"
proof (cases t)
  case (Waiting w a)
  have "transport H h (request_of K w) = reply H (request_of K w)"
    by (cases w) (simp_all add: stable_replies [OF assms(1)])
  with Waiting assms(2) have "late K H h t = t" by simp
  with assms(2) show ?thesis by simp
qed (use assms(2) in simp_all)

section \<open>In a pool\<close>

definition pool_course :: "('u, 'm) crates \<Rightarrow> host \<Rightarrow> resolve_options \<Rightarrow> string set \<Rightarrow> 'u pool \<Rightarrow> bool" where
  "pool_course K H opts U P \<longleftrightarrow> faithful K H opts U (po_resolver P) \<and>
     (\<forall>(s, t) \<in> set (po_tasks P). s \<in> U \<and> on_course K H opts s t)"

lemma pool_courseD:
  "pool_course K H opts U P \<Longrightarrow> n < length (po_tasks P) \<Longrightarrow> po_tasks P ! n = (s, t) \<Longrightarrow>
     s \<in> U \<and> on_course K H opts s t \<and> faithful K H opts U (po_resolver P)"
  by (drule nth_mem) (auto simp: pool_course_def)

lemma pool_course_update:
  assumes "pool_course K H opts U P" and "n < length (po_tasks P)" and "po_tasks P ! n = (s, t)"
    and "on_course K H opts s t'" and "faithful K H opts U R"
  shows "pool_course K H opts U \<lparr>po_resolver = R, po_history = h, po_tasks = (po_tasks P)[n := (s, t')]\<rparr>"
proof -
  have "s \<in> U" using pool_courseD [OF assms(1-3)] by blast
  with assms(1,4,5) show ?thesis
    by (auto simp: pool_course_def dest!: set_update_subset_insert [THEN subsetD])
qed

lemma perform_course:
  assumes "stable_net H" and "told_apart K U" and "interleaved K H opts P" and "pool_course K H opts U P"
    and "\<And>s. a = Spawn s \<Longrightarrow> s \<in> U"
  shows "pool_course K H opts U (perform K H P a)"
proof (cases a)
  case (Spawn s)
  with assms(4,5) show ?thesis by (auto simp: pool_course_def)
next
  case (Outside e)
  with assms(4) show ?thesis by (simp add: pool_course_def)
next
  case (Poll n)
  obtain s t where st: "po_tasks P ! n = (s, t)" by fastforce
  obtain t' R' h' where poll: "poll K H s (t, po_resolver P, po_history P) = (t', R', h')"
    by (metis prod_cases3)
  show ?thesis
  proof (cases "n < length (po_tasks P)")
    case True
    from interleaved_ok [OF assms(3)] True st have ok: "task_ok K H opts s t"
      unfolding pool_ok_def by (metis case_prodD nth_mem)
    from poll_course [OF assms(1,2) _ _ ok _ poll] pool_courseD [OF assms(4) True st]
    have "on_course K H opts s t'" "faithful K H opts U R'" by simp_all
    from pool_course_update [OF assms(4) True st this] perform_Poll [OF True st poll] Poll
    show ?thesis by simp
  qed (use assms(4) Poll in simp)
next
  case (Cancel n)
  obtain s t where st: "po_tasks P ! n = (s, t)" by fastforce
  show ?thesis
  proof (cases "n < length (po_tasks P)")
    case True
    with pool_courseD [OF assms(4) True st]
    have "on_course K H opts s (case t of Ended r \<Rightarrow> Ended r | _ \<Rightarrow> Dropped)" "faithful K H opts U (po_resolver P)"
      by (cases t; simp)+
    from pool_course_update [OF assms(4) True st this, of "po_history P"] Cancel True st
    show ?thesis by (cases P) simp
  qed (use assms(4) Cancel in simp)
next
  case (Late n h)
  obtain s t where st: "po_tasks P ! n = (s, t)" by fastforce
  show ?thesis
  proof (cases "n < length (po_tasks P)")
    case True
    with pool_courseD [OF assms(4) True st] late_course [OF assms(1)]
    have "on_course K H opts s (late K H h t)" "faithful K H opts U (po_resolver P)" by blast+
    from pool_course_update [OF assms(4) True st this, of "po_history P"] Late True st
    show ?thesis by (cases P) simp
  qed (use assms(4) Late in simp)
qed

lemma run_course:
  assumes "stable_net H" and "told_apart K U" and "interleaved K H opts P" and "pool_course K H opts U P"
    and "\<And>s. Spawn s \<in> set acts \<Longrightarrow> s \<in> U"
  shows "pool_course K H opts U (run_pool K H acts P)"
  using assms(3-5)
proof (induction acts arbitrary: P)
  case (Cons a acts)
  from perform_course [OF assms(1,2) Cons.prems(1,2)] Cons.prems(3)
  have "pool_course K H opts U (perform K H P a)" by simp
  with Cons.IH [OF interleaved.acted [OF Cons.prems(1)]] Cons.prems(3) show ?case by simp
qed simp

text \<open>
  C4. Caching and concurrency are not observable.  In a network whose answers do not change, let
  a resolver without a disk cache be created and run in any way: any number of resolves started, polled and
  dropped in any order, with late answers and events of the outside world between them.  Let every pinned
  URN of the run be told apart from the others by its cache identity, a rootless one having an identity
  under every root.
  Then every resolve that has ended has exactly the result that the stateless specification
  gives its URN: success, failure page or error, the memory cache, its evictions, the cached plan and
  the interleaving do not change it.
\<close>

theorem caching_unobservable:
  assumes "stable_net H" and "told_apart K {s. Spawn s \<in> set acts}" and "o_cache_path opts = None"
    and "with_options H opts h = (R, h')"
    and "(s, Ended r) \<in> set (po_tasks (run_pool K H acts \<lparr>po_resolver = R, po_history = h', po_tasks = []\<rparr>))"
  shows "r = specified K H opts s"
proof -
  let ?P = "\<lparr>po_resolver = R, po_history = h', po_tasks = []\<rparr>" and ?U = "{s. Spawn s \<in> set acts}"
  have "faithful K H opts ?U R"
    using assms(3,4) by (auto simp: faithful_def with_options_def)
  then have "pool_course K H opts ?U ?P" by (simp add: pool_course_def)
  from run_course [OF assms(1,2) interleaved.opened [OF assms(4)] this, of acts] assms(5)
  have "on_course K H opts s (Ended r)" unfolding pool_course_def by fastforce
  then show ?thesis by (simp add: answer_specified [OF assms(1)])
qed

text \<open>Three resolves one after the other; the third finds the first one's result in memory.\<close>

definition demo_turns :: "action list" where
  "demo_turns = concat (map (\<lambda>(n, s). Spawn s # replicate 41 (Poll n)) [(0, ''r:x''), (1, ''?''), (2, ''r:x'')])"

lemma demo_turns_run:
  assumes "with_options demo_net (demo_rpc_options None) h = (R, h')"
  obtains d r2 r3 where "po_tasks (run_pool demo_crates demo_net demo_turns \<lparr>po_resolver = R, po_history = h', po_tasks = []\<rparr>)
      = [(''r:x'', Ended (Inr (Success d))), (''?'', Ended r2), (''r:x'', Ended r3)]"
    and "rd_bytes d = [1, 2]"
proof -
  let ?opts = "demo_rpc_options None" and ?P = "\<lparr>po_resolver = R, po_history = h', po_tasks = []\<rparr> :: demo_urn pool"
  have P: "interleaved demo_crates demo_net ?opts ?P" by (rule interleaved.opened [OF assms])
  have R: "R = demo_rpc None" using assms by (simp add: with_options_def demo_rpc_options_def demo_rpc_def)
  obtain d R1 h1 where r1: "resolve demo_crates demo_net R ''r:x'' h' = (Inr (Success d), R1, h1)"
      and d: "rd_bytes d = [1, 2]" using demo_resolves [of h'] R by blast
  obtain r2 R2 h2 where r2: "resolve demo_crates demo_net R1 ''?'' h1 = (r2, R2, h2)" by (metis prod_cases3)
  obtain r3 R3 h3 where r3: "resolve demo_crates demo_net R2 ''r:x'' h2 = (r3, R3, h3)" by (metis prod_cases3)
  let ?t = "(''r:x'', Ended (Inr (Success d)))"
  let ?P1 = "\<lparr>po_resolver = R1, po_history = h1, po_tasks = [?t]\<rparr> :: demo_urn pool"
  let ?P2 = "\<lparr>po_resolver = R2, po_history = h2, po_tasks = [?t, (''?'', Ended r2)]\<rparr> :: demo_urn pool"
  have s1: "run_pool demo_crates demo_net (Spawn ''r:x'' # replicate 41 (Poll 0)) ?P = ?P1"
    using run_alone [of ?P demo_crates demo_net "''r:x''"] interleaved_short [OF P] r1 by simp
  have P1: "interleaved demo_crates demo_net ?opts ?P1" using interleaved_run [OF P] s1 by metis
  have s2: "run_pool demo_crates demo_net (Spawn ''?'' # replicate 41 (Poll 1)) ?P1 = ?P2"
    using run_alone [of ?P1 demo_crates demo_net "''?''"] interleaved_short [OF P1] r2 by simp
  have P2: "interleaved demo_crates demo_net ?opts ?P2" using interleaved_run [OF P1] s2 by metis
  have s3: "po_tasks (run_pool demo_crates demo_net (Spawn ''r:x'' # replicate 41 (Poll 2)) ?P2)
      = [?t, (''?'', Ended r2), (''r:x'', Ended r3)]"
    using run_alone [of ?P2 demo_crates demo_net "''r:x''"] interleaved_short [OF P2] r3
    by (simp add: numeral_2_eq_2)
  have "run_pool demo_crates demo_net demo_turns ?P =
      run_pool demo_crates demo_net (Spawn ''r:x'' # replicate 41 (Poll 2))
        (run_pool demo_crates demo_net (Spawn ''?'' # replicate 41 (Poll 1))
          (run_pool demo_crates demo_net (Spawn ''r:x'' # replicate 41 (Poll 0)) ?P))"
    unfolding demo_turns_def run_pool_def by simp
  with s1 s2 s3 d that show thesis by metis
qed

lemma demo_told_apart: "told_apart demo_crates {''r:x'', ''?''}"
proof -
  have "parse_urn demo_crates ''?'' = Inl (Parse ''not a DIG URN'')"
    by (simp add: parse_urn_def demo_crates_def demo_parse_def Let_def)
  then show ?thesis using demo_urn_parse by (auto simp: told_apart_def)
qed

lemma caching_unobservable_witness:
  "\<exists>d R h'. with_options demo_net (demo_rpc_options None) [] = (R, h') \<and>
     po_tasks (run_pool demo_crates demo_net demo_turns \<lparr>po_resolver = R, po_history = h', po_tasks = []\<rparr>) =
       [(''r:x'', Ended (Inr (Success d))), (''?'', Ended (specified demo_crates demo_net (demo_rpc_options None) ''?'')),
        (''r:x'', Ended (Inr (Success d)))] \<and>
     rd_bytes d = [1, 2]"
proof -
  let ?opts = "demo_rpc_options None"
  obtain R h' where opened: "with_options demo_net ?opts [] = (R, h')" by fastforce
  obtain d r2 r3 where tasks: "po_tasks (run_pool demo_crates demo_net demo_turns \<lparr>po_resolver = R, po_history = h', po_tasks = []\<rparr>)
      = [(''r:x'', Ended (Inr (Success d))), (''?'', Ended r2), (''r:x'', Ended r3)]" and d: "rd_bytes d = [1, 2]"
    by (rule demo_turns_run [OF opened])
  have "transport demo_net h e = transport demo_net h' e" for h h' e
    by (cases e) (simp_all add: demo_net_def demo_host_def)
  then have stable: "stable_net demo_net" by (simp add: stable_net_def)
  have "{s. Spawn s \<in> set demo_turns} = {''r:x'', ''?''}" by (auto simp: demo_turns_def)
  then have apart: "told_apart demo_crates {s. Spawn s \<in> set demo_turns}" by (simp add: demo_told_apart)
  have disk: "o_cache_path ?opts = None" by (simp add: demo_rpc_options_def)
  note answer = caching_unobservable [OF stable apart disk opened, unfolded tasks]
  have "Inr (Success d) = specified demo_crates demo_net ?opts ''r:x''"
    and "r2 = specified demo_crates demo_net ?opts ''?''" and "r3 = specified demo_crates demo_net ?opts ''r:x''"
    by (rule answer; simp)+
  with tasks d opened show ?thesis by (intro exI [of _ d] exI [of _ R] exI [of _ h']) simp
qed

text \<open>A fresh resolver alone computes the same.\<close>

lemma fresh_resolve_specified:
  assumes "stable_net H" and "o_cache_path opts = None" and "with_options H opts h = (R, h')"
  shows "fst (resolve K H R s h1) = specified K H opts s"
proof -
  have "faithful K H opts {s} R" using assms(2,3) by (auto simp: faithful_def with_options_def)
  from resolve_answer [OF assms(1) _ this] show ?thesis by (simp add: answer_specified [OF assms(1)])
qed

end
