(* ===== verification/HonestNetwork.thy ===== *)
theory HonestNetwork
  imports ResolverProps
begin

text \<open>
  What a resolver delivers when the network does its part: with no local node and an honest
  gateway, every pinned URN whose ciphertext passes the gate resolves.
\<close>

section \<open>The last tier of a plan\<close>

text \<open>The options leave the gateway as the last resort: no override, or one that is not a local node.\<close>

definition gateway_last :: "('u, 'm) crates \<Rightarrow> host \<Rightarrow> resolve_options \<Rightarrow> bool" where
  "gateway_last K H opts \<longleftrightarrow>
     (case o_endpoint opts of None \<Rightarrow> True | Some b \<Rightarrow> \<not> is_loopback_base K H (trim_end_matches CHR ''/'' b))"

lemma build_plan_last:
  assumes "gateway_last K H opts" and "build_plan K H (o_endpoint opts) h = (plan, h')"
  shows "plan \<noteq> [] \<and> last plan = endpoint_rpc (rpc_base opts)"
  using assms(2)
proof (cases rule: build_plan_cases)
  case (override base)
  with assms(1) have "classify K H base = endpoint_rpc (trim_end_matches CHR ''/'' base)"
    by (simp add: gateway_last_def classify_def)
  with override show ?thesis by (simp add: rpc_base_def)
qed (simp_all add: rpc_base_def)

definition plan_ends_in_gateway :: "resolve_options \<Rightarrow> resolver \<Rightarrow> bool" where
  "plan_ends_in_gateway opts R \<longleftrightarrow>
     (case r_plan_cache R of None \<Rightarrow> True | Some plan \<Rightarrow> plan \<noteq> [] \<and> last plan = endpoint_rpc (rpc_base opts))"

lemma plan_of_last:
  assumes "resolver_ok K H opts R" and "gateway_last K H opts" and "plan_ends_in_gateway opts R"
    and "plan_of K H R h = (plan, R', h')"
  shows "plan \<noteq> [] \<and> last plan = endpoint_rpc (rpc_base opts)" and "plan_ends_in_gateway opts R'"
proof -
  have "(plan \<noteq> [] \<and> last plan = endpoint_rpc (rpc_base opts)) \<and> plan_ends_in_gateway opts R'"
    using assms(4)
  proof (cases rule: plan_of_cases)
    case cached
    with assms(3) show ?thesis by (simp add: plan_ends_in_gateway_def)
  next
    case built
    with assms(1) have "build_plan K H (o_endpoint opts) h = (plan, h')" by (simp add: resolver_ok_def)
    from build_plan_last [OF assms(2) this] built show ?thesis by (simp add: plan_ends_in_gateway_def)
  qed
  then show "plan \<noteq> [] \<and> last plan = endpoint_rpc (rpc_base opts)" and "plan_ends_in_gateway opts R'" by simp_all
qed

lemma ladder_keeps_last:
  assumes "resolver_ok K H opts R" and "gateway_last K H opts" and "plan_ends_in_gateway opts R"
    and "resolve_ladder K H p R h = (r, R', h')"
  shows "plan_ends_in_gateway opts R'"
proof -
  have "\<And>plan. r_plan_cache R = Some plan \<Longrightarrow> plan \<noteq> []"
    using assms(3) by (auto simp: plan_ends_in_gateway_def)
  with assms(4) obtain plan R1 h0 a h2 where plan: "plan_of K H R h = (plan, R1, h0)"
      and R': "(R', h') = after_fetch K H R1 p a h2"
    by (rule ladder_decided)
  from plan_of_last(2) [OF assms(1-3) plan] after_fetch_events(3) [OF R'] show ?thesis
    by (simp add: plan_ends_in_gateway_def)
qed

lemma resolve_keeps_last:
  assumes "resolver_ok K H opts R" and "gateway_last K H opts" and "plan_ends_in_gateway opts R"
    and "resolve K H R s h = (r, R', h')"
  shows "plan_ends_in_gateway opts R'"
  using assms(4)
proof (cases rule: resolve_cases)
  case (rootless p)
  from ladder_keeps_last [OF assms(1-3) rootless(3)] show ?thesis .
next
  case (missed p root m h1)
  have "plan_ends_in_gateway opts (R\<lparr>r_memory := m\<rparr>)" using assms(3) by (simp add: plan_ends_in_gateway_def)
  from ladder_keeps_last [OF resolver_ok_get [OF assms(1) missed(3)] assms(2) this missed(5)] show ?thesis .
qed (use assms(3) in \<open>simp_all add: plan_ends_in_gateway_def\<close>)

lemma session_last:
  assumes "session K H opts R h" and "gateway_last K H opts"
  shows "plan_ends_in_gateway opts R"
  using assms(1)
proof (induction rule: session.induct)
  case (opened h R h')
  then show ?case by (auto simp: with_options_def plan_ends_in_gateway_def split: prod.splits)
next
  case (resolved R h s r R' h')
  from resolve_keeps_last [OF session_ok [OF resolved.hyps(1)] assms(2) resolved.IH resolved.hyps(2)] show ?case .
qed

section \<open>The honest gateway\<close>

lemma honest_fetch:
  assumes "b64_roundtrip K" and "root_hex K p = Some root" and "0 < length ct" and "length ct \<le> 67108864"
    and "honest_gateway K H (trim_end_matches CHR ''/'' base) p root ct wire lens"
  shows "verdict (fst (fetch_from K H (endpoint_rpc base) p h)) =
    (case verify_and_decrypt K p ct wire root lens of
       Inl e \<Rightarrow> verdict (Inl e)
     | Inr b \<Rightarrow> Inr (Success (resolved_data_new b (derive (resource_key K p) b))))"
proof -
  from window_loop_honest [OF assms(1,3-5), of 0 h] assms(3)
  obtain st h' where "window_loop K H (trim_end_matches CHR ''/'' base) p root window_start h = (Inr st, h')"
    and "w_buf st = ct" "w_proof st = wire" "w_chunk_lens st = lens"
    by (auto simp: window_state_at_0)
  with assms(2) show ?thesis
    by (simp add: fetch_from_def rpc_fetch_def trusted_root_def endpoint_defs split: sum.split)
qed

text \<open>No local node: every \<open>GET\<close> fails to connect.\<close>

definition no_local_node :: "host \<Rightarrow> bool" where
  "no_local_node H \<longleftrightarrow> (\<forall>h url. \<exists>m. transport H h (HttpGet url) = Inl (TransportError m))"

lemma node_unreachable:
  assumes "no_local_node H" and "ep_kind ep = NodeKind"
  shows "\<exists>m h'. fetch_from K H ep p h = (Inl (Transport m), h')"
proof -
  obtain m where "transport H h (HttpGet (serve_url K (ep_base ep) p)) = Inl (TransportError m)"
    using assms(1) unfolding no_local_node_def by blast
  with assms(2) show ?thesis by (simp add: fetch_from_def node_fetch_eq)
qed

lemma gateway_ladder:
  assumes ok: "resolver_ok K H opts R" and last: "gateway_last K H opts" "plan_ends_in_gateway opts R"
    and down: "no_local_node H"
    and fetch: "\<And>h. verdict (fst (fetch_from K H (endpoint_rpc (rpc_base opts)) p h)) = v"
  shows "fst (resolve_ladder K H p R h) = v"
proof -
  obtain r R' h' where lad: "resolve_ladder K H p R h = (r, R', h')" by (metis prod_cases3)
  have "\<And>plan. r_plan_cache R = Some plan \<Longrightarrow> plan \<noteq> []"
    using last(2) by (auto simp: plan_ends_in_gateway_def)
  with lad obtain plan R1 h0 pre ep post h1 a h2
    where plan: "plan_of K H R h = (plan, R1, h0)" and split: "plan = pre @ ep # post"
      and ep: "fetch_from K H ep p h1 = (a, h2)"
      and dec: "post = [] \<or> (case a of Inr f \<Rightarrow> True | Inl e \<Rightarrow> \<not> is_fall_through e)" and r: "r = verdict a"
    by (rule ladder_decided)
  have "ep = endpoint_rpc (rpc_base opts)"
  proof (cases "ep_kind ep")
    case NodeKind
    from node_unreachable [OF down this, of K p h1] ep dec have "post = []" by auto
    with plan_of_last(1) [OF ok last plan] split show ?thesis by simp
  next
    case RpcKind
    with plan_of_ok(1) [OF ok plan] split have "ep_base ep = rpc_base opts"
      by (auto simp: plan_ok_def)
    with RpcKind show ?thesis by (cases ep) (simp add: endpoint_defs)
  qed
  with fetch [of h1] ep r lad show ?thesis by simp
qed

lemma gateway_decides:
  assumes "session K H opts R h" and "gateway_last K H opts" and "no_local_node H"
    and "parse_urn K s = Inr p" and "root_hex K p = Some root"
    and "mc_stored (r_memory R) (cache_id K p root) = None" and "disk_misses K H R (cache_id K p root) h"
    and "b64_roundtrip K" and "0 < length ct" and "length ct \<le> 67108864"
    and "honest_gateway K H (trim_end_matches CHR ''/'' (rpc_base opts)) p root ct wire lens"
  shows "fst (resolve K H R s h) =
    (case verify_and_decrypt K p ct wire root lens of
       Inl e \<Rightarrow> verdict (Inl e)
     | Inr b \<Rightarrow> Inr (Success (resolved_data_new b (derive (resource_key K p) b))))"
proof -
  note ok = session_ok [OF assms(1)]
  obtain m h1 where get: "mc_get (r_memory R) (cache_id K p root) = (None, m)"
    and res: "resolve K H R s h = resolve_ladder K H p (R\<lparr>r_memory := m\<rparr>) h1"
    by (rule resolve_uncached [OF assms(4-7)])
  let ?R = "R\<lparr>r_memory := m\<rparr>"
  have "plan_ends_in_gateway opts ?R"
    using session_last [OF assms(1,2)] by (simp add: plan_ends_in_gateway_def)
  from gateway_ladder [OF resolver_ok_get [OF ok get] assms(2) this assms(3) honest_fetch [OF assms(8,5,9-11)], of h1]
  show ?thesis unfolding res .
qed

lemma gateway_resolves:
  assumes "session K H opts R h" and "gateway_last K H opts" and "no_local_node H"
    and "parse_urn K s = Inr p" and "root_hex K p = Some root"
    and "mc_stored (r_memory R) (cache_id K p root) = None" and "disk_misses K H R (cache_id K p root) h"
    and "b64_roundtrip K" and "0 < length ct" and "length ct \<le> 67108864"
    and "honest_gateway K H (trim_end_matches CHR ''/'' (rpc_base opts)) p root ct wire lens"
    and "verify_and_decrypt K p ct wire root lens = Inr b"
  shows "fst (resolve K H R s h) = Inr (Success (resolved_data_new b (derive (resource_key K p) b)))"
  by (simp add: gateway_decides [OF assms(1-11)] assms(12))



section \<open>Content that does not pass\<close>

text \<open>
  The gate's two ways to refuse, as \<open>crypto.rs\<close> and section 5.2 of \<open>SPEC.md\<close> document them: the proof
  does not hold, or the ciphertext does not open.
\<close>

definition gate_refusals :: "('u, 'm) crates \<Rightarrow> bool" where
  "gate_refusals K \<longleftrightarrow>
     (\<forall>C u s ct wire root lens e. pv_verify_and_decrypt K C u s ct wire root lens = Inl e \<longrightarrow>
        e = P_DecryptFailed \<or> (\<exists>m. e = P_VerifyFailed m))"

lemma refusal_verdict:
  assumes "gate_refusals K" and "parse_salt K (salt p) = Inr s" and "verify_and_decrypt K p ct wire root lens = Inl e"
  shows "verdict (Inl e) = Inr IntegrityFailure"
proof -
  have pv: "map_err e' = DecryptFailed \<or> (\<exists>m. map_err e' = VerifyFailed m)"
    if "pv_verify_and_decrypt K C u s ct w r lens = Inl e'" for C u s w r e'
    using assms(1) that unfolding gate_refusals_def by (metis map_err.simps(6,7))
  from assms(2,3) have "e = DecryptFailed \<or> (\<exists>m. e = VerifyFailed m)"
    by (auto simp: verify_and_decrypt_def map_result_def parse_trusted_root_def decode_proof_b64_def
        split: sum.splits option.splits dest: pv)
  then show ?thesis by auto
qed

lemma refused_by_gate:
  assumes "gate_contract K" and "decrypt_contract K" and "gate_refusals K" and "\<not> bad_salt K p"
    and "\<not> included_under K ct wire root \<or> (\<forall>b. \<not> opens_as K p ct b)"
  shows "\<exists>e. verify_and_decrypt K p ct wire root lens = Inl e \<and> verdict (Inl e) = Inr IntegrityFailure"
proof (cases "verify_and_decrypt K p ct wire root lens")
  case (Inr b)
  from verify_and_decrypt_included [OF assms(1) Inr] verify_and_decrypt_opens [OF assms(2) Inr] assms(5)
  show ?thesis by blast
next
  case (Inl e)
  with parse_salt_good [OF assms(4)] refusal_verdict [OF assms(3)] show ?thesis by blast
qed


text \<open>The witnesses' gateway serves a resource of root \<open>bb\<close>; the salted URN has another key.\<close>

lemma demo_refusals: "gate_refusals demo_crates"
  by (auto simp: gate_refusals_def demo_crates_def demo_pv_verify_and_decrypt_def demo_pv_verify_def
      demo_pv_decrypt_def split: option.splits if_splits)

definition demo_urn_s :: "demo_urn parsed_urn" where
  "demo_urn_s = demo_urn_r\<lparr>salt := Some ''good''\<rparr>"

lemma demo_urn_s_facts:
  "parse_urn demo_crates ''s:x'' = Inr demo_urn_s"
  "root_hex demo_crates demo_urn_s = Some ''bb''"
  "parse_salt demo_crates (salt demo_urn_s) = Inr (Some [7])"
  "urn_key demo_crates demo_urn_s (Some [7]) = [7]"
  by code_simp+

lemma demo_urn_s_salt: "\<not> bad_salt demo_crates demo_urn_s"
  using demo_urn_s_facts(3) parse_salt_bad by fastforce

lemma demo_urn_s_opens_nothing: "\<not> opens_as demo_crates demo_urn_s [0, 1, 2] b"
proof
  assume "opens_as demo_crates demo_urn_s [0, 1, 2] b"
  then obtain cs ps where cs: "concat cs = [0, 1, 2]"
    and all: "list_all2 (\<lambda>c p. dc_decrypt_chunk demo_crates [7] c = Some p) cs ps"
    by (auto simp: opens_as_def demo_urn_s_facts)
  from cs obtain c cs' where split: "cs = c # cs'" by (cases cs) auto
  with all obtain q where "demo_open [7] c = Some q" by (auto simp: list_all2_Cons1 demo_crates_def)
  then obtain x xs where "c = x # xs" "x = 7" by (auto simp: demo_open_def split: list.splits if_splits)
  with split cs show False by simp
qed


end
