(* ===== verification/AsyncHonest.thy ===== *)
theory AsyncHonest
  imports AsyncProps HonestNetwork
begin

text \<open>
  An honest gateway is enough under any scheduling: resolves in flight on one resolver, polled in
  any order, do not keep each other from succeeding.
\<close>

section \<open>What every poll keeps of the resolver\<close>

text \<open>A resolver without a disk cache whose plan, once made, ends in a gateway.\<close>

definition kept :: "resolver \<Rightarrow> bool" where
  "kept R \<longleftrightarrow> r_disk R = None \<and>
     (case r_plan_cache R of None \<Rightarrow> True | Some plan \<Rightarrow> plan \<noteq> [] \<and> ep_kind (last plan) = RpcKind)"

definition keeps :: "'u config \<Rightarrow> bool" where
  "keeps cfg \<longleftrightarrow> (case cfg of (t, R, h) \<Rightarrow> kept R)"

lemma kept_memory [simp]: "kept (R\<lparr>r_memory := m\<rparr>) = kept R"
  by (simp add: kept_def)

lemma keeps_simp [simp]: "keeps (t, R, h) = kept R"
  by (simp add: keeps_def)

lemma kept_no_disk: "kept R \<Longrightarrow> r_disk R = None"
  by (simp add: kept_def)

lemma start_fetch_keeps: "kept R \<Longrightarrow> start_fetch K H c ep R h = Inr cfg \<Longrightarrow> keeps cfg"
  by (auto simp: start_fetch_def send_window_def Let_def await_get_def await_post_def http_get_def post_json_def
      split: endpoint_kind.splits sum.splits if_splits)

lemma enter_keeps: "kept R \<Longrightarrow> keeps (enter K H p lst i eps R h)"
proof (induction eps arbitrary: i)
  case (Cons ep eps)
  show ?case
  proof (cases "start_fetch K H \<lparr>c_urn = p, c_last = lst, c_index = i, c_rest = eps\<rparr> ep R h")
    case (Inr cfg)
    with start_fetch_keeps [OF Cons.prems Inr] show ?thesis by simp
  next
    case (Inl e)
    with Cons show ?thesis by (cases "tier_error e i lst") simp_all
  qed
qed simp

lemma settle_keeps: "kept R \<Longrightarrow> keeps (settle K H c a R h)"
proof (cases a)
  case (Inl e)
  assume "kept R"
  with Inl enter_keeps [of R] show ?thesis
    by (cases "tier_error e (c_index c) (c_last c)") (simp_all add: settle_def)
next
  case (Inr f)
  assume kept: "kept R"
  obtain R' h' where put: "cache_success K H R (c_urn c) f h = (R', h')" by fastforce
  then have "r_plan_cache R' = r_plan_cache R" "r_disk R' = r_disk R"
    using after_fetch_events(3,5) [of R' h' K H R "c_urn c" "Inr f" h] by (simp_all add: after_fetch_def)
  with kept Inr put show ?thesis by (simp add: settle_def kept_def)
qed

lemma planned_keeps:
  "r_disk R = None \<Longrightarrow> plan \<noteq> [] \<Longrightarrow> ep_kind (last plan) = RpcKind \<Longrightarrow> keeps (planned K H p plan R h)"
  unfolding planned_def by (rule enter_keeps) (simp add: kept_def)

lemma probe_next_keeps: "kept R \<Longrightarrow> keeps (probe_next K H p ts R h)"
  by (induction ts) (auto simp: kept_no_disk planned_keeps endpoint_defs await_get_def http_get_def)

lemma gateway_last_classify:
  "gateway_last K H opts \<Longrightarrow> o_endpoint opts = Some base \<Longrightarrow> ep_kind (classify K H base) = RpcKind"
  by (simp add: gateway_last_def classify_def endpoint_defs)

lemma start_ladder_keeps:
  "kept R \<Longrightarrow> gateway_last K H (r_options R) \<Longrightarrow> keeps (start_ladder K H p R h)"
  by (auto simp: start_ladder_def enter_keeps probe_next_keeps planned_keeps kept_no_disk gateway_last_classify
      simp del: probe_next.simps split: option.splits)

lemma launch_keeps: "kept R \<Longrightarrow> gateway_last K H (r_options R) \<Longrightarrow> keeps (launch K H s R h)"
  by (auto simp: launch_def Let_def start_ladder_keeps
      split: sum.splits option.splits prod.splits resolve_outcome.splits)

lemma resume_keeps: "kept R \<Longrightarrow> keeps (resume K H w a R h)"
  by (cases w) (auto simp: settle_keeps probe_next_keeps planned_keeps kept_no_disk endpoint_defs ask_window_def
      send_window_def Let_def await_post_def post_json_def split: sum.splits if_splits)

lemma poll_keeps:
  "kept R \<Longrightarrow> gateway_last K H (r_options R) \<Longrightarrow> poll K H s (t, R, h) = (t', R', h') \<Longrightarrow> kept R'"
  using launch_keeps [of R K H s h] resume_keeps [of R K H _ _ h]
  by (cases t) (auto simp del: resume.simps, (metis keeps_simp)+)

section \<open>A task that is bound to succeed\<close>

text \<open>The gateway of the options serves the resource of \<open>p\<close>, and nothing else answers.\<close>

definition served ::
    "('u, 'm) crates \<Rightarrow> host \<Rightarrow> resolve_options \<Rightarrow> 'u parsed_urn \<Rightarrow> string \<Rightarrow> bytes \<Rightarrow> string \<Rightarrow> u32 list
      \<Rightarrow> bytes \<Rightarrow> bool" where
  "served K H opts p root ct wire lens b \<longleftrightarrow>
     gateway_last K H opts \<and> no_local_node H \<and> root_hex K p = Some root \<and> b64_roundtrip K \<and>
     0 < length ct \<and> length ct \<le> 67108864 \<and>
     honest_gateway K H (trim_end_matches CHR ''/'' (rpc_base opts)) p root ct wire lens \<and>
     verify_and_decrypt K p ct wire root lens = Inr b"

text \<open>The tiers that are left to a task: at least one, and a gateway last.\<close>

definition gateway_ahead :: "('u, 'm) crates \<Rightarrow> host \<Rightarrow> resolve_options \<Rightarrow> endpoint list \<Rightarrow> bool" where
  "gateway_ahead K H opts eps \<longleftrightarrow> eps \<noteq> [] \<and> ep_kind (last eps) = RpcKind \<and> tiers_ok K H opts eps"

definition failed :: "answer \<Rightarrow> bool" where
  "failed a \<longleftrightarrow> (\<exists>m. a = Inl (TransportError m))"

fun steady_wait ::
    "('u, 'm) crates \<Rightarrow> host \<Rightarrow> resolve_options \<Rightarrow> 'u parsed_urn \<Rightarrow> string \<Rightarrow> bytes \<Rightarrow> string \<Rightarrow> u32 list
      \<Rightarrow> 'u wait \<Rightarrow> answer \<Rightarrow> bool" where
  "steady_wait K H opts p root ct wire lens (AtProbe q tier tiers) a \<longleftrightarrow>
     q = p \<and> o_endpoint opts = None \<and> failed a"
| "steady_wait K H opts p root ct wire lens (AtNode c base) a \<longleftrightarrow>
     c_urn c = p \<and> gateway_ahead K H opts (c_rest c) \<and> c_index c + length (c_rest c) = c_last c \<and> failed a"
| "steady_wait K H opts p root ct wire lens (AtWindow c base q st) a \<longleftrightarrow>
     c_urn c = p \<and> q = root \<and> base = trim_end_matches CHR ''/'' (rpc_base opts) \<and>
     (\<exists>i h. i * unat RPC_WINDOW_BYTES < length ct \<and>
        st = (window_state_at ct wire lens i)\<lparr>w_windows := Suc i\<rparr> \<and>
        a = transport H h (window_request K base p root (w_offset st)))"

fun steady_task ::
    "('u, 'm) crates \<Rightarrow> host \<Rightarrow> resolve_options \<Rightarrow> 'u parsed_urn \<Rightarrow> string \<Rightarrow> bytes \<Rightarrow> string \<Rightarrow> u32 list
      \<Rightarrow> 'u task \<Rightarrow> bool" where
  "steady_task K H opts p root ct wire lens (Waiting w a) \<longleftrightarrow> steady_wait K H opts p root ct wire lens w a"
| "steady_task K H opts p root ct wire lens (Ended r) \<longleftrightarrow> (\<exists>d. r = Inr (Success d))"
| "steady_task K H opts p root ct wire lens _ \<longleftrightarrow> True"

abbreviation steady where
  "steady K H opts p root ct wire lens cfg \<equiv> steady_task K H opts p root ct wire lens (fst cfg)"

lemma failed_get: "no_local_node H \<Longrightarrow> failed (transport H h (HttpGet url))"
  by (simp add: no_local_node_def failed_def)

lemma send_window_steady:
  assumes "served K H opts p root ct wire lens b" and "i * unat RPC_WINDOW_BYTES < length ct"
    and "c_urn c = p" and "base = trim_end_matches CHR ''/'' (rpc_base opts)"
  shows "\<exists>cfg. send_window K H c base root (window_state_at ct wire lens i) R h = Inr cfg \<and>
    steady K H opts p root ct wire lens cfg"
proof -
  have "length ct \<le> 67108864" using assms(1) by (simp add: served_def)
  with assms(2) have "i < 37" by simp
  then have "\<not> MAX_WINDOWS < Suc i" by (simp add: MAX_WINDOWS_nat)
  moreover have "w_windows (window_state_at ct wire lens i) = i" by (simp add: window_state_at_def)
  ultimately show ?thesis
    using assms(2-4)
    by (auto simp: send_window_def Let_def await_post_def post_json_def window_request_def
        simp del: RPC_WINDOW_BYTES_nat)
qed

lemma enter_steady:
  assumes "served K H opts p root ct wire lens b" and "gateway_ahead K H opts eps"
    and "i + length eps = Suc lst"
  shows "steady K H opts p root ct wire lens (enter K H p lst i eps R h)"
proof -
  obtain ep rest where eps: "eps = ep # rest" using assms(2) by (cases eps) (auto simp: gateway_ahead_def)
  let ?c = "\<lparr>c_urn = p, c_last = lst, c_index = i, c_rest = rest\<rparr>"
  show ?thesis
  proof (cases "ep_kind ep")
    case NodeKind
    then have "gateway_ahead K H opts rest"
      using assms(2) eps by (auto simp: gateway_ahead_def split: if_splits)
    with NodeKind assms(1,3) eps show ?thesis
      by (simp add: start_fetch_def await_get_def http_get_def served_def failed_get)
  next
    case RpcKind
    then have base: "ep_base ep = rpc_base opts" using assms(2) eps by (simp add: gateway_ahead_def)
    have root: "trusted_root K p = Inr root" using assms(1) by (simp add: served_def trusted_root_def)
    have "0 * unat RPC_WINDOW_BYTES < length ct" using assms(1) by (simp add: served_def)
    from send_window_steady [OF assms(1) this, of ?c "trim_end_matches CHR ''/'' (rpc_base opts)" R h]
    show ?thesis using RpcKind base root eps by (auto simp: start_fetch_def window_state_at_0)
  qed
qed

lemma planned_steady:
  assumes "served K H opts p root ct wire lens b" and "gateway_ahead K H opts plan"
  shows "steady K H opts p root ct wire lens (planned K H p plan R h)"
  unfolding planned_def
  by (rule enter_steady [OF assms]) (use assms(2) in \<open>simp add: gateway_ahead_def\<close>)

lemma gateway_ahead_rpc: "o_endpoint opts = None \<Longrightarrow> gateway_ahead K H opts [endpoint_rpc RPC_DEFAULT_BASE]"
  by (simp add: gateway_ahead_def endpoint_defs rpc_base_def)

lemma probe_next_steady:
  assumes "served K H opts p root ct wire lens b" and "o_endpoint opts = None"
  shows "steady K H opts p root ct wire lens (probe_next K H p ts R h)"
proof (induction ts)
  case Nil
  from planned_steady [OF assms(1) gateway_ahead_rpc [OF assms(2)]] show ?case by simp
next
  case (Cons t ts)
  have "no_local_node H" using assms(1) by (simp add: served_def)
  with Cons assms(2) show ?case by (simp add: await_get_def http_get_def failed_get)
qed

lemma start_ladder_steady:
  assumes "served K H opts p root ct wire lens b" and "resolver_ok K H opts R" and "kept R"
  shows "steady K H opts p root ct wire lens (start_ladder K H p R h)"
proof (cases "r_plan_cache R")
  case (Some plan)
  then have "gateway_ahead K H opts plan"
    using assms(2,3) by (simp add: resolver_ok_def kept_def gateway_ahead_def plan_ok_tiers)
  moreover from this have "0 + length plan = Suc (length plan - 1)" by (simp add: gateway_ahead_def)
  ultimately show ?thesis using enter_steady [OF assms(1)] Some by (simp add: start_ladder_def)
next
  case None
  have opts: "r_options R = opts" using assms(2) by (simp add: resolver_ok_def)
  show ?thesis
  proof (cases "o_endpoint opts")
    case (Some base)
    have "gateway_last K H opts" using assms(1) by (simp add: served_def)
    from gateway_last_classify [OF this Some] Some classify_base [of K H base]
    have "gateway_ahead K H opts [classify K H base]" by (simp add: gateway_ahead_def rpc_base_def)
    from planned_steady [OF assms(1) this] None Some opts show ?thesis by (simp add: start_ladder_def)
  next
    assume "o_endpoint opts = None"
    with None opts probe_next_steady [OF assms(1)] show ?thesis
      by (simp add: start_ladder_def del: probe_next.simps)
  qed
qed

lemma launch_steady:
  assumes "served K H opts p root ct wire lens b" and "resolver_ok K H opts R" and "kept R"
    and "parse_urn K s = Inr p"
  shows "steady K H opts p root ct wire lens (launch K H s R h)"
proof -
  have root: "root_hex K p = Some root" using assms(1) by (simp add: served_def)
  obtain x m where get: "mc_get (r_memory R) (cache_id K p root) = (x, m)" by fastforce
  have "disk_get_verified K H (R\<lparr>r_memory := m\<rparr>) p (cache_id K p root) h = (None, h)"
    using kept_no_disk [OF assms(3)] by (simp add: disk_get_verified_def)
  moreover have "kept (R\<lparr>r_memory := m\<rparr>)" using assms(3) by simp
  note start_ladder_steady [OF assms(1) resolver_ok_get [OF assms(2) get] this, of h]
  ultimately show ?thesis using assms(4) root get by (cases x) (simp_all add: launch_def)
qed

lemma window_steady:
  assumes "served K H opts p root ct wire lens b"
    and "steady_wait K H opts p root ct wire lens (AtWindow c base q st) a"
  shows "steady K H opts p root ct wire lens (resume K H (AtWindow c base q st) a R h)"
proof -
  obtain i h0 where c: "c_urn c = p" "q = root" "base = trim_end_matches CHR ''/'' (rpc_base opts)"
    and i: "i * unat RPC_WINDOW_BYTES < length ct" and st: "st = (window_state_at ct wire lens i)\<lparr>w_windows := Suc i\<rparr>"
    and a: "a = transport H h0 (window_request K base p root (w_offset st))"
    using assms(2) by (auto simp del: RPC_WINDOW_BYTES_nat)
  have ser: "b64_roundtrip K" "0 < length ct" "length ct \<le> 67108864"
    "honest_gateway K H base p root ct wire lens" "verify_and_decrypt K p ct wire root lens = Inr b"
    using assms(1) c(3) by (simp_all add: served_def)
  from one_window_honest [OF ser(1-4) i, of h0] st obtain st' h1 where
      one: "one_window K H base p root st h0 =
        (Inr (st', if Suc i * unat RPC_WINDOW_BYTES < length ct
                   then Some (window_state_at ct wire lens (Suc i)) else None), h1)"
    and fin: "\<not> Suc i * unat RPC_WINDOW_BYTES < length ct \<longrightarrow>
        w_buf st' = ct \<and> w_proof st' = wire \<and> w_chunk_lens st' = lens" by blast
  note answered = window_answered_one [OF one, folded a]
  show ?thesis
  proof (cases "Suc i * unat RPC_WINDOW_BYTES < length ct")
    case True
    from send_window_steady [OF assms(1) this c(1,3), of R h] answered True c
    show ?thesis by (auto simp: ask_window_def simp del: RPC_WINDOW_BYTES_nat)
  next
    case False
    have "\<exists>f. assembled K p root st' = Inr f" using fin False ser(5) by (simp add: assembled_def)
    with answered False c show ?thesis
      by (auto simp: settle_def simp del: RPC_WINDOW_BYTES_nat split: prod.split)
  qed
qed

lemma resume_steady:
  assumes "served K H opts p root ct wire lens b" and "steady_wait K H opts p root ct wire lens w a"
  shows "steady K H opts p root ct wire lens (resume K H w a R h)"
proof (cases w)
  case (AtProbe q tier tiers)
  with assms probe_next_steady [OF assms(1)] show ?thesis
    by (auto simp: failed_def simp del: probe_next.simps)
next
  case (AtNode c base)
  then have c: "c_urn c = p" "gateway_ahead K H opts (c_rest c)" "c_index c + length (c_rest c) = c_last c"
    and "failed a" using assms(2) by simp_all
  then obtain m where "a = Inl (TransportError m)" by (auto simp: failed_def)
  moreover have "c_index c \<noteq> c_last c" using c by (auto simp: gateway_ahead_def)
  ultimately show ?thesis
    using AtNode c enter_steady [OF assms(1) c(2), of "c_index c + 1" "c_last c" R h]
    by (simp add: settle_def tier_error_def)
next
  case (AtWindow c base q st)
  with window_steady assms show ?thesis by blast
qed

lemma poll_steady:
  assumes "served K H opts p root ct wire lens b" and "resolver_ok K H opts R" and "kept R"
    and "parse_urn K s = Inr p" and "steady_task K H opts p root ct wire lens t"
  shows "steady K H opts p root ct wire lens (poll K H s (t, R, h))"
  using assms(5) launch_steady [OF assms(1-4)] resume_steady [OF assms(1)]
  by (cases t) (simp_all del: resume.simps)

lemma late_steady:
  assumes "served K H opts p root ct wire lens b" and "steady_task K H opts p root ct wire lens t"
  shows "steady_task K H opts p root ct wire lens (late K H h t)"
proof (cases t)
  case (Waiting w a)
  have get: "no_local_node H" using assms(1) by (simp add: served_def)
  show ?thesis
  proof (cases w)
    case (AtWindow c base q st)
    then have "transport H h (request_of K w) = transport H h (window_request K base (c_urn c) q (w_offset st))"
      by (simp add: window_request_def)
    with assms(2) Waiting AtWindow show ?thesis by (simp del: request_of.simps) blast
  qed (use assms(2) Waiting failed_get [OF get] in simp_all)
qed (use assms(2) in simp_all)

section \<open>In a pool\<close>

lemma perform_kept:
  assumes "kept (po_resolver P)" and "gateway_last K H (r_options (po_resolver P))"
  shows "kept (po_resolver (perform K H P a))"
proof (cases a)
  case (Poll n)
  obtain s t where st: "po_tasks P ! n = (s, t)" by fastforce
  obtain t' R' h' where poll: "poll K H s (t, po_resolver P, po_history P) = (t', R', h')"
    by (metis prod_cases3)
  show ?thesis
    using perform_Poll [OF _ st poll] poll_keeps [OF assms poll] assms(1) Poll
    by (cases "n < length (po_tasks P)") simp_all
qed (use assms(1) in \<open>auto split: prod.splits\<close>)

lemma interleaved_options: "interleaved K H opts P \<Longrightarrow> r_options (po_resolver P) = opts"
  using interleaved_ok [of K H opts P] by (simp add: pool_ok_def resolver_ok_def)

lemma interleaved_kept:
  assumes "interleaved K H opts P" and "gateway_last K H opts" and "o_cache_path opts = None"
  shows "kept (po_resolver P)"
  using assms(1)
proof (induction rule: interleaved.induct)
  case (opened h R h')
  then show ?case using assms(3) by (auto simp: with_options_def kept_def)
next
  case (acted P a)
  from perform_kept [OF acted.IH] interleaved_options [OF acted.hyps] assms(2) show ?case by simp
qed

lemma perform_steady:
  assumes "served K H opts p root ct wire lens b" and "resolver_ok K H opts (po_resolver P)"
    and "kept (po_resolver P)" and "parse_urn K s = Inr p"
    and "i < length (po_tasks P)" and "po_tasks P ! i = (s, t)" and "steady_task K H opts p root ct wire lens t"
  shows "\<exists>t'. i < length (po_tasks (perform K H P a)) \<and> po_tasks (perform K H P a) ! i = (s, t') \<and>
    steady_task K H opts p root ct wire lens t'"
proof (cases a)
  case (Spawn u)
  with assms(5-7) show ?thesis by (simp add: nth_append)
next
  case (Outside e)
  with assms(5-7) show ?thesis by simp
next
  case (Cancel n)
  have "steady_task K H opts p root ct wire lens (case t of Ended r \<Rightarrow> Ended r | _ \<Rightarrow> Dropped)"
    using assms(7) by (cases t) simp_all
  with Cancel assms(5-7) show ?thesis by (cases "n = i") (auto split: prod.split)
next
  case (Late n h)
  from late_steady [OF assms(1,7), of h] Late assms(5-7) show ?thesis
    by (cases "n = i") (auto split: prod.split)
next
  case (Poll n)
  obtain u v where st: "po_tasks P ! n = (u, v)" by fastforce
  obtain t' R' h' where poll: "poll K H u (v, po_resolver P, po_history P) = (t', R', h')"
    by (metis prod_cases3)
  show ?thesis
  proof (cases "n = i")
    case True
    with st assms(6) have "u = s" "v = t" by simp_all
    with poll_steady [OF assms(1-4,7), of "po_history P"] poll
    have "steady_task K H opts p root ct wire lens t'" by simp
    with perform_Poll [OF _ st poll] Poll True assms(5,6) st show ?thesis by simp
  next
    case False
    with perform_Poll [OF _ st poll] Poll assms(5-7) show ?thesis
      by (cases "n < length (po_tasks P)") simp_all
  qed
qed

lemma run_steady:
  assumes "served K H opts p root ct wire lens b" and "interleaved K H opts P" and "o_cache_path opts = None"
    and "parse_urn K s = Inr p"
    and "i < length (po_tasks P)" and "po_tasks P ! i = (s, t)" and "steady_task K H opts p root ct wire lens t"
  shows "\<exists>t'. po_tasks (run_pool K H acts P) ! i = (s, t') \<and> steady_task K H opts p root ct wire lens t'"
  using assms(2,5-7)
proof (induction acts arbitrary: P t)
  case (Cons a acts)
  have ok: "resolver_ok K H opts (po_resolver P)" "kept (po_resolver P)"
    using interleaved_ok [OF Cons.prems(1)] interleaved_kept [OF Cons.prems(1) _ assms(3)] assms(1)
    by (simp_all add: pool_ok_def served_def)
  from perform_steady [OF assms(1) ok assms(4) Cons.prems(2-4), of a]
    Cons.IH [OF interleaved.acted [OF Cons.prems(1), of a]]
  show ?case by auto
qed simp



end
