(* ===== verification/Images.thy ===== *)
theory Images
  imports Resolver
begin

text \<open>
  \<open>src/src/images.rs\<close>: the branded error images of the \<open>img src\<close> path.  The five PNG files under
  \<open>src/assets\<close> are binary data embedded at build time, so what \<open>include_bytes!\<close> reads for a path is
  the argument \<open>assets\<close>.
\<close>

definition FONT :: string where
  "FONT = ''-apple-system,BlinkMacSystemFont,Segoe UI,Roboto,Helvetica,Arial,sans-serif''"

datatype error_image = Img_Integrity | Img_Unreachable | Img_NotFound | Img_InvalidUrn | Img_Generic

fun for_outcome :: "resolve_outcome \<Rightarrow> error_image" where
  "for_outcome (Success _) = Img_Generic"
| "for_outcome IntegrityFailure = Img_Integrity"
| "for_outcome Unreachable = Img_Unreachable"

fun for_error :: "resolve_error \<Rightarrow> error_image" where
  "for_error (Parse _) = Img_InvalidUrn"
| "for_error RootRequired = Img_InvalidUrn"
| "for_error NotFound = Img_NotFound"
| "for_error (Transport _) = Img_Unreachable"
| "for_error (VerifyFailed _) = Img_Integrity"
| "for_error DecryptFailed = Img_Integrity"
| "for_error (Rpc _) = Img_Generic"

text \<open>Accent, glow, glyph, title and subtitle; the glyph of the second is U+21BB in UTF-8.\<close>

fun treatment :: "error_image \<Rightarrow> string \<times> string \<times> string \<times> string \<times> string" where
  "treatment Img_Integrity =
     (''#e5484d'', ''#3a1416'', ''!'', ''Verification failed'', ''Content could not be trusted'')"
| "treatment Img_Unreachable =
     (''#3b6cf6'', ''#14213a'', [CHR 0xE2, CHR 0x86, CHR 0xBB], ''Network unreachable'', ''Connect a DIG node'')"
| "treatment Img_NotFound = (''#7f8db3'', ''#141a2e'', ''?'', ''Content not found'', [])"
| "treatment Img_InvalidUrn = (''#7f8db3'', ''#141a2e'', ''!'', ''Invalid DIG URN'', [])"
| "treatment Img_Generic = (''#7f8db3'', ''#141a2e'', ''!'', ''Something went wrong'', [])"

fun png :: "(string \<Rightarrow> bytes) \<Rightarrow> error_image \<Rightarrow> bytes" where
  "png assets Img_Integrity = assets ''../assets/error-integrity.png''"
| "png assets Img_Unreachable = assets ''../assets/error-unreachable.png''"
| "png assets Img_NotFound = assets ''../assets/error-not-found.png''"
| "png assets Img_InvalidUrn = assets ''../assets/error-invalid-urn.png''"
| "png assets Img_Generic = assets ''../assets/error-generic.png''"

definition data_uri :: "('u, 'm) crates \<Rightarrow> (string \<Rightarrow> bytes) \<Rightarrow> error_image \<Rightarrow> string" where
  "data_uri K assets kind = ''data:image/png;base64,'' @ b64_encode K (png assets kind)"

definition apos :: string where
  "apos = [CHR 0x27]"

definition svg :: "error_image \<Rightarrow> string" where
  "svg kind =
     (case treatment kind of (accent, glow, glyph, title, subtitle) \<Rightarrow>
       let subtitle_el = (if subtitle = [] then [] else
             ''<text x='256' y='372' text-anchor='middle' font-family='' @ apos @ FONT @ apos @ '' font-size='26' fill='#aeb7d4'>'' @ subtitle @ ''</text>'')
       in ''<svg xmlns='http://www.w3.org/2000/svg' viewBox='0 0 512 512' width='512' height='512' role='img' aria-label='DIG Network: '' @ title @ apos @ ''>'' @ [CHR 0x0A] @
        ''  <defs><radialGradient id='bg' cx='50%' cy='0%' r='120%'>'' @ [CHR 0x0A] @
        ''    <stop offset='0%' stop-color='' @ apos @ glow @ apos @ ''/><stop offset='60%' stop-color='#0a0f1e'/><stop offset='100%' stop-color='#070a14'/>'' @ [CHR 0x0A] @
        ''  </radialGradient></defs>'' @ [CHR 0x0A] @
        ''  <rect width='512' height='512' fill='url(#bg)'/>'' @ [CHR 0x0A] @
        ''  <circle cx='256' cy='190' r='68' fill='none' stroke='' @ apos @ accent @ apos @ '' stroke-width='8'/>'' @ [CHR 0x0A] @
        ''  <text x='256' y='226' text-anchor='middle' font-family='' @ apos @ FONT @ apos @ '' font-size='84' font-weight='700' fill='' @ apos @ accent @ apos @ ''>'' @ glyph @ ''</text>'' @ [CHR 0x0A] @
        ''  <text x='256' y='320' text-anchor='middle' font-family='' @ apos @ FONT @ apos @ '' font-size='40' font-weight='700' fill='#ffffff'>'' @ title @ ''</text>'' @ [CHR 0x0A] @
        ''  '' @ subtitle_el @ [CHR 0x0A] @
        ''  <text x='256' y='452' text-anchor='middle' font-family='' @ apos @ FONT @ apos @ '' font-size='22' font-weight='700' letter-spacing='6' fill='' @ apos @ accent @ apos @ ''>DIG NETWORK</text>'' @ [CHR 0x0A] @
        ''  <text x='256' y='478' text-anchor='middle' font-family='' @ apos @ FONT @ apos @ '' font-size='16' letter-spacing='2' fill='#7f8db3'>dig.net</text>'' @ [CHR 0x0A] @
        ''</svg>'')"

section \<open>Facts\<close>

lemma for_outcome_integrity: "for_outcome oc = Img_Integrity \<longleftrightarrow> oc = IntegrityFailure"
  by (cases oc) simp_all

lemma for_error_integrity: "for_error e = Img_Integrity \<longleftrightarrow> is_integrity e"
  by (cases e) simp_all

end
