(* ===== verification/NativeApi.thy ===== *)
theory NativeApi
  imports ResolverProps
begin

text \<open>
  \<open>src/src/native.rs\<close>: the \<open>reqwest\<close> transport and the entry points of the native build.  The
  \<open>reqwest\<close> client builder and the \<open>tokio\<close> runtime builder are parameters: a client is what sending
  a request comes to, and what reading the body of a response comes to.  A panic is the left value,
  with its message.
\<close>

section \<open>The client\<close>

text \<open>A \<open>reqwest::Response\<close>: a header value that is not visible ASCII has no string form.\<close>

record reqwest_response =
  rr_status :: u16
  rr_headers :: "(string \<times> string option) list"
  rr_bytes :: "string + bytes"

record reqwest_request =
  rq_method :: string
  rq_url :: string
  rq_headers :: "(string \<times> string) list"
  rq_body :: "string option"

type_synonym reqwest_client = "history \<Rightarrow> reqwest_request \<Rightarrow> string + reqwest_response"

text \<open>The client builder takes the connect timeout and the overall timeout, in seconds.\<close>

record native_runtime =
  client_build :: "nat \<Rightarrow> nat \<Rightarrow> string + reqwest_client"
  tokio_build :: "string + unit"

type_synonym 'a may_panic = "string + 'a"

text \<open>\<open>Result::expect\<close>; the error is given by its debug text.\<close>

definition expect :: "string + 'a \<Rightarrow> string \<Rightarrow> 'a may_panic" where
  "expect r msg = (case r of Inl e \<Rightarrow> Inl (msg @ '': '' @ e) | Inr x \<Rightarrow> Inr x)"

definition reqwest_new :: "native_runtime \<Rightarrow> reqwest_client may_panic" where
  "reqwest_new NR = expect (client_build NR 2 30) ''reqwest client builds with default TLS''"

definition reqwest_default :: "native_runtime \<Rightarrow> reqwest_client may_panic" where
  "reqwest_default NR = reqwest_new NR"

section \<open>The transport\<close>

definition collect_response :: "reqwest_response \<Rightarrow> transport_error + http_response" where
  "collect_response resp =
     (case rr_bytes resp of
        Inl e \<Rightarrow> Inl (TransportError e)
      | Inr b \<Rightarrow>
          Inr \<lparr>status = rr_status resp,
               headers = map (\<lambda>(k, v). (k, case v of Some s \<Rightarrow> s | None \<Rightarrow> [])) (rr_headers resp),
               body = b\<rparr>)"

definition send_collect :: "reqwest_client \<Rightarrow> reqwest_request \<Rightarrow> history \<Rightarrow> transport_error + http_response" where
  "send_collect client rq h =
     (case client h rq of
        Inl m \<Rightarrow> Inl (TransportError m)
      | Inr resp \<Rightarrow> collect_response resp)"

definition reqwest_get :: "reqwest_client \<Rightarrow> string \<Rightarrow> history \<Rightarrow> transport_error + http_response" where
  "reqwest_get client url =
     send_collect client \<lparr>rq_method = ''GET'', rq_url = url, rq_headers = [], rq_body = None\<rparr>"

definition reqwest_post_json ::
    "reqwest_client \<Rightarrow> string \<Rightarrow> string \<Rightarrow> history \<Rightarrow> transport_error + http_response" where
  "reqwest_post_json client url bdy =
     send_collect client \<lparr>rq_method = ''POST'', rq_url = url,
       rq_headers = [(''content-type'', ''application/json'')], rq_body = Some bdy\<rparr>"

text \<open>The \<open>impl HttpTransport\<close>; only the two request events reach a transport.\<close>

fun reqwest_transport :: "reqwest_client \<Rightarrow> transport" where
  "reqwest_transport client h (HttpGet url) = reqwest_get client url h"
| "reqwest_transport client h (HttpPost url bdy) = reqwest_post_json client url bdy h"
| "reqwest_transport client h _ = Inl (TransportError [])"

section \<open>The entry points\<close>

definition native_host :: "reqwest_client \<Rightarrow> host \<Rightarrow> host" where
  "native_host client H = H\<lparr>feature_native := True, transport := reqwest_transport client\<rparr>"

definition native_resolve_with ::
    "('u, 'm) crates \<Rightarrow> native_runtime \<Rightarrow> host \<Rightarrow> string \<Rightarrow> resolve_options \<Rightarrow> history
      \<Rightarrow> (resolve_error + resolve_outcome) may_panic \<times> history" where
  "native_resolve_with K NR H s opts h =
     (case reqwest_new NR of
        Inl m \<Rightarrow> (Inl m, h)
      | Inr client \<Rightarrow>
         (case with_options (native_host client H) opts h of
            (R, h1) \<Rightarrow>
              (case resolve K (native_host client H) R s h1 of (r, R', h2) \<Rightarrow> (Inr r, h2))))"

definition native_resolve ::
    "('u, 'm) crates \<Rightarrow> native_runtime \<Rightarrow> host \<Rightarrow> string \<Rightarrow> history
      \<Rightarrow> (resolve_error + resolve_outcome) may_panic \<times> history" where
  "native_resolve K NR H s h = native_resolve_with K NR H s default_options h"

definition resolve_blocking ::
    "('u, 'm) crates \<Rightarrow> native_runtime \<Rightarrow> host \<Rightarrow> string \<Rightarrow> history
      \<Rightarrow> (resolve_error + resolve_outcome) may_panic \<times> history" where
  "resolve_blocking K NR H s h =
     (case expect (tokio_build NR) ''current-thread tokio runtime builds'' of
        Inl m \<Rightarrow> (Inl m, h)
      | Inr rt \<Rightarrow> native_resolve K NR H s h)"

section \<open>Facts\<close>

lemma find_map_snd:
  "find (\<lambda>(k, v). P k) (map (\<lambda>(k, v). (k, f v)) xs) = map_option (\<lambda>(k, v). (k, f v)) (find (\<lambda>(k, v). P k) xs)"
  by (induction xs) auto

definition header_text :: "string option \<Rightarrow> string" where
  "header_text v = (case v of Some s \<Rightarrow> s | None \<Rightarrow> [])"

text \<open>
  The native transport loses no header: whatever name is looked up, in whatever case, the
  collected response gives the value of the first header of that name the server sent (the empty
  text when it is not visible ASCII), the status is the server's and so is the body.
\<close>

theorem native_transport_keeps_headers:
  assumes "reqwest_transport client h (HttpGet url) = Inr r"
  shows "\<exists>resp. client h \<lparr>rq_method = ''GET'', rq_url = url, rq_headers = [], rq_body = None\<rparr> = Inr resp \<and>
    status r = rr_status resp \<and> rr_bytes resp = Inr (body r) \<and>
    header r name = map_option (\<lambda>(k, v). header_text v)
      (find (\<lambda>(k, v). eq_ignore_ascii_case k (to_ascii_lowercase name)) (rr_headers resp))"
proof -
  let ?rq = "\<lparr>rq_method = ''GET'', rq_url = url, rq_headers = [], rq_body = None\<rparr>"
  from assms obtain resp b where resp: "client h ?rq = Inr resp" "rr_bytes resp = Inr b"
    and r: "r = \<lparr>status = rr_status resp, headers = map (\<lambda>(k, v). (k, header_text v)) (rr_headers resp), body = b\<rparr>"
    by (auto simp: reqwest_get_def send_collect_def collect_response_def header_text_def [abs_def] split: sum.splits)
  have "header r name = map_option (\<lambda>(k, v). header_text v)
      (find (\<lambda>(k, v). eq_ignore_ascii_case k (to_ascii_lowercase name)) (rr_headers resp))"
    unfolding header_def Let_def r http_response.select_convs find_map_snd option.map_comp
    by (simp add: comp_def case_prod_unfold)
  with resp r show ?thesis by simp
qed

definition demo_client :: reqwest_client where
  "demo_client h rq = Inr \<lparr>rr_status = 200, rr_headers = [(''X-Dig-Root'', Some ''bb''), (''x-odd'', None)],
     rr_bytes = Inr [1]\<rparr>"

lemma native_transport_keeps_headers_witness:
  "\<exists>r. reqwest_transport demo_client [] (HttpGet ''u'') = Inr r \<and> header r ''x-dig-root'' = Some ''bb''"
proof -
  obtain r where r: "reqwest_transport demo_client [] (HttpGet ''u'') = Inr r"
    by (simp add: reqwest_get_def send_collect_def demo_client_def collect_response_def)
  from native_transport_keeps_headers [OF r, of "''x-dig-root''"]
  have "header r ''x-dig-root'' = map_option (\<lambda>(k, v). header_text v)
      (find (\<lambda>(k, v). eq_ignore_ascii_case k (to_ascii_lowercase ''x-dig-root''))
        [(''X-Dig-Root'', Some ''bb''), (''x-odd'', None)])"
    by (simp add: demo_client_def)
  also have "\<dots> = Some ''bb''" by code_simp
  finally show ?thesis using r by blast
qed

text \<open>
  C35. The blocking entry point either panics, and then it asked nothing and only because a builder
  failed, or returns what a resolver with default options on the \<open>reqwest\<close> transport returns: no
  override, so content is authentic under the root or attested by a local node, and an error is
  one of the four a resolve reports.
\<close>

theorem resolve_blocking_safe:
  assumes "gate_contract K" and "decrypt_contract K" and "resolve_blocking K NR H s h = (res, h')"
  shows "case res of
      Inl m \<Rightarrow> h' = h \<and> (tokio_build NR \<noteq> Inr () \<or> (\<forall>client. client_build NR 2 30 \<noteq> Inr client))
    | Inr (Inl e) \<Rightarrow> (\<exists>m. e = Parse m \<or> e = Rpc m) \<or> e = RootRequired \<or> e = NotFound
    | Inr (Inr (Success d)) \<Rightarrow>
        (\<exists>client p p' root. client_build NR 2 30 = Inr client \<and> parse_urn K s = Inr p \<and>
           source_of K p p' root \<and>
           (authentic K p' root (rd_bytes d) \<or>
            attested_by_node K (native_host client H) default_options p' d))
    | _ \<Rightarrow> True"
proof (cases "\<exists>m. res = Inl m")
  case True
  with assms(3) show ?thesis
    by (auto simp: resolve_blocking_def native_resolve_def native_resolve_with_def reqwest_new_def expect_def
        split: sum.splits prod.splits)
next
  case False
  with assms(3) obtain client R h1 r R' where client: "client_build NR 2 30 = Inr client"
    and opts: "with_options (native_host client H) default_options h = (R, h1)"
    and res: "resolve K (native_host client H) R s h1 = (r, R', h')" and r: "res = Inr r"
    by (auto simp: resolve_blocking_def native_resolve_def native_resolve_with_def reqwest_new_def expect_def
        split: sum.splits prod.splits)
  show ?thesis
  proof (cases r)
    case (Inl e)
    with resolve_Inl [OF res [unfolded Inl]] r show ?thesis by auto
  next
    case (Inr oc)
    show ?thesis
    proof (cases oc)
      case (Success d)
      from resolve_ok(2) [OF with_options_ok [OF opts] res] Inr Success
      have "\<exists>p p' root. parse_urn K s = Inr p \<and> source_of K p p' root \<and>
          provenance K (native_host client H) default_options p' root d" by blast
      with verified_as_authentic [OF assms(1,2)] client r Inr Success show ?thesis
        unfolding provenance_def by fastforce
    qed (use r Inr in simp_all)
  qed
qed

lemma resolve_blocking_safe_witness:
  "\<exists>res h'. resolve_blocking demo_crates
       \<lparr>client_build = (\<lambda>c t. Inr demo_client), tokio_build = Inr ()\<rparr> (demo_host net_down) ''?'' [] = (res, h') \<and>
     res = Inr (Inl (Parse ''not a DIG URN'')) \<and> (\<exists>m. Parse ''not a DIG URN'' = Parse m)"
proof -
  let ?NR = "\<lparr>client_build = (\<lambda>c t. Inr demo_client), tokio_build = Inr ()\<rparr>"
  obtain res h' where r: "resolve_blocking demo_crates ?NR (demo_host net_down) ''?'' [] = (res, h')" by fastforce
  have "parse_urn demo_crates ''?'' = Inl (Parse ''not a DIG URN'')" by code_simp
  with r have res: "res = Inr (Inl (Parse ''not a DIG URN''))"
    by (auto simp: resolve_blocking_def native_resolve_def native_resolve_with_def reqwest_new_def expect_def
        resolve_def split: prod.splits)
  from resolve_blocking_safe [OF demo_gate demo_decrypt r] r res show ?thesis by simp
qed

end
