(* ===== verification/WasmApi.thy ===== *)
theory WasmApi
  imports Images HonestNetwork
begin

text \<open>
  \<open>src/src/wasm.rs\<close>: the browser transport and the JavaScript surface.  What belongs to the
  JavaScript runtime (\<open>fetch\<close>, \<open>Headers\<close>, \<open>Request\<close>, \<open>Blob\<close>, \<open>URL.createObjectURL\<close>) is the record
  \<open>js_runtime\<close>, a parameter; every call of it may throw.  An exception thrown to JavaScript by the
  crate itself is the left value, with its message.
\<close>

section \<open>The JavaScript runtime\<close>

text \<open>A thrown value: its string form if it is a string, its \<open>message\<close> if that is one.\<close>

record js_exception =
  ex_string :: "string option"
  ex_message :: "string option"

record js_init =
  in_method :: string
  in_mode :: string
  in_headers :: "(string \<times> string) list option"
  in_body :: "string option"

record js_request =
  jr_url :: string
  jr_init :: js_init

record js_response =
  js_status :: u16
  js_header :: "string \<Rightarrow> js_exception + string option"
  js_array_buffer :: "js_exception + js_exception + bytes"

text \<open>What a promise comes to: it rejects, or resolves to a \<open>Response\<close> or to something else.\<close>

datatype js_settled = Rejected js_exception | NotResponse | Resolved js_response

text \<open>What the call of \<open>fetch\<close> returns.\<close>

datatype js_called = Threw js_exception | NotPromise | Promise js_settled

record js_blob =
  bl_parts :: bytes
  bl_type :: string

record js_runtime =
  headers_new :: "js_exception option"
  headers_set :: "string \<Rightarrow> string \<Rightarrow> js_exception option"
  request_new :: "string \<Rightarrow> js_init \<Rightarrow> js_exception + js_request"
  global_fetch :: "(history \<Rightarrow> js_request \<Rightarrow> js_called) option"
  blob_new :: "bytes \<Rightarrow> string \<Rightarrow> js_exception + js_blob"
  create_object_url :: "js_blob \<Rightarrow> js_exception + string"

definition js_err :: "js_exception \<Rightarrow> transport_error" where
  "js_err v = TransportError
     (case ex_string v of
        Some s \<Rightarrow> s
      | None \<Rightarrow> (case ex_message v of Some m \<Rightarrow> m | None \<Rightarrow> ''fetch failed''))"

section \<open>The transport\<close>

text \<open>The headers of a request with a body; \<open>None\<close> without one.\<close>

definition json_headers ::
    "js_runtime \<Rightarrow> string option \<Rightarrow> transport_error + (string \<times> string) list option" where
  "json_headers J bdy =
     (case bdy of
        None \<Rightarrow> Inr None
      | Some b \<Rightarrow>
         (case headers_new J of
            Some v \<Rightarrow> Inl (js_err v)
          | None \<Rightarrow>
             (case headers_set J ''content-type'' ''application/json'' of
                Some v \<Rightarrow> Inl (js_err v)
              | None \<Rightarrow> Inr (Some [(''content-type'', ''application/json'')]))))"

definition send_request ::
    "js_runtime \<Rightarrow> string \<Rightarrow> string \<Rightarrow> string option \<Rightarrow> history \<Rightarrow> transport_error + js_response" where
  "send_request J mth url bdy h =
     (case json_headers J bdy of
        Inl e \<Rightarrow> Inl e
      | Inr hdrs \<Rightarrow>
     (case request_new J url \<lparr>in_method = mth, in_mode = ''cors'', in_headers = hdrs, in_body = bdy\<rparr> of
        Inl v \<Rightarrow> Inl (js_err v)
      | Inr request \<Rightarrow>
     (case global_fetch J of
        None \<Rightarrow> Inl (TransportError ''no global fetch available'')
      | Some fetch \<Rightarrow>
     (case fetch h request of
        Threw v \<Rightarrow> Inl (js_err v)
      | NotPromise \<Rightarrow> Inl (TransportError ''fetch did not return a Promise'')
      | Promise (Rejected v) \<Rightarrow> Inl (js_err v)
      | Promise NotResponse \<Rightarrow> Inl (TransportError ''fetch response was not a Response'')
      | Promise (Resolved resp) \<Rightarrow> Inr resp))))"

text \<open>A header is captured when reading it gives a value; an exception is ignored.\<close>

definition captured :: "js_response \<Rightarrow> string \<Rightarrow> (string \<times> string) list" where
  "captured resp name = (case js_header resp name of Inr (Some v) \<Rightarrow> [(name, v)] | _ \<Rightarrow> [])"

definition fetch_request ::
    "js_runtime \<Rightarrow> string \<Rightarrow> string \<Rightarrow> string option \<Rightarrow> history \<Rightarrow> transport_error + http_response" where
  "fetch_request J mth url bdy h =
     (case send_request J mth url bdy h of
        Inl e \<Rightarrow> Inl e
      | Inr resp \<Rightarrow>
         (let hdrs = captured resp ''content-type'' @ captured resp ''x-dig-verified''
          in case js_array_buffer resp of
               Inl v \<Rightarrow> Inl (js_err v)
             | Inr (Inl v) \<Rightarrow> Inl (js_err v)
             | Inr (Inr b) \<Rightarrow> Inr \<lparr>status = js_status resp, headers = hdrs, body = b\<rparr>))"

text \<open>The \<open>impl HttpTransport\<close>; only the two request events reach a transport.\<close>

fun fetch_transport :: "js_runtime \<Rightarrow> transport" where
  "fetch_transport J h (HttpGet url) = fetch_request J ''GET'' url None h"
| "fetch_transport J h (HttpPost url bdy) = fetch_request J ''POST'' url (Some bdy) h"
| "fetch_transport J h _ = Inl (TransportError [])"

definition wasm_host :: "js_runtime \<Rightarrow> host \<Rightarrow> host" where
  "wasm_host J H = H\<lparr>feature_native := False, feature_wasm := True, transport := fetch_transport J\<rparr>"

section \<open>Options\<close>

definition opt :: "string option \<Rightarrow> string option" where
  "opt s = (case s of Some v \<Rightarrow> if trim v = [] then None else Some v | None \<Rightarrow> None)"

definition options_of :: "string option \<Rightarrow> string option \<Rightarrow> string option \<Rightarrow> resolve_options" where
  "options_of ep cta dir = \<lparr>o_endpoint = opt ep, o_connect_url = opt cta, o_cache_path = opt dir\<rparr>"

definition resolve_once ::
    "('u, 'm) crates \<Rightarrow> host \<Rightarrow> string \<Rightarrow> resolve_options \<Rightarrow> history
      \<Rightarrow> (resolve_error + resolve_outcome) \<times> history" where
  "resolve_once K H s opts h =
     (case with_options H opts h of
        (R, h1) \<Rightarrow> (case resolve K H R s h1 of (r, R', h2) \<Rightarrow> (r, h2)))"

definition do_resolve ::
    "('u, 'm) crates \<Rightarrow> js_runtime \<Rightarrow> host \<Rightarrow> string \<Rightarrow> string option \<Rightarrow> string option \<Rightarrow> string option \<Rightarrow> history
      \<Rightarrow> (resolve_error + resolve_outcome) \<times> history" where
  "do_resolve K J H s ep cta dir h = resolve_once K (wasm_host J H) s (options_of ep cta dir) h"

definition connect_or_default :: "string option \<Rightarrow> string" where
  "connect_or_default cta = (case opt cta of Some u \<Rightarrow> u | None \<Rightarrow> DEFAULT_CONNECT_URL)"

section \<open>The client\<close>

record resolve_result =
  rr_outcome :: string
  rr_data :: bytes
  rr_content_type :: string

text \<open>The getters JavaScript reads.\<close>

definition result_outcome :: "resolve_result \<Rightarrow> string" where
  "result_outcome r = rr_outcome r"

definition result_bytes :: "resolve_result \<Rightarrow> bytes" where
  "result_bytes r = rr_data r"

definition result_content_type :: "resolve_result \<Rightarrow> string" where
  "result_content_type r = rr_content_type r"

definition outcome_to_result :: "resolve_outcome \<Rightarrow> string \<Rightarrow> resolve_result" where
  "outcome_to_result oc cta =
     (let rendered = render oc cta
      in \<lparr>rr_outcome = outcome_kind oc, rr_data = rd_bytes rendered,
          rr_content_type = rd_content_type rendered\<rparr>)"

text \<open>The options as deserialized, every field absent by default.\<close>

record parsed_options =
  op_endpoint :: "string option"
  op_connect_url :: "string option"
  op_cache_path :: "string option"

definition parsed_options_default :: parsed_options where
  "parsed_options_default = \<lparr>op_endpoint = None, op_connect_url = None, op_cache_path = None\<rparr>"

record dig_network =
  dn_endpoint :: "string option"
  dn_connect_url :: "string option"
  dn_cache_path :: "string option"

definition from_parts :: "string option \<Rightarrow> string option \<Rightarrow> string option \<Rightarrow> dig_network" where
  "from_parts ep cta dir = \<lparr>dn_endpoint = opt ep, dn_connect_url = opt cta, dn_cache_path = opt dir\<rparr>"

text \<open>The constructor; \<open>from_value\<close> is \<open>serde_wasm_bindgen::from_value\<close> on an options object.\<close>

definition dig_network_new :: "('o \<Rightarrow> string + parsed_options) \<Rightarrow> 'o option \<Rightarrow> dig_network" where
  "dig_network_new from_value options =
     (let parsed = (case options of
            Some ob \<Rightarrow> (case from_value ob of Inr po \<Rightarrow> po | Inl e \<Rightarrow> parsed_options_default)
          | None \<Rightarrow> parsed_options_default)
      in from_parts (op_endpoint parsed) (op_connect_url parsed) (op_cache_path parsed))"

definition client_endpoint :: "dig_network \<Rightarrow> string option" where
  "client_endpoint dn = dn_endpoint dn"

definition client_connect_url :: "dig_network \<Rightarrow> string option" where
  "client_connect_url dn = dn_connect_url dn"

definition client_cache_path :: "dig_network \<Rightarrow> string option" where
  "client_cache_path dn = dn_cache_path dn"

definition dn_resolve ::
    "('u, 'm) crates \<Rightarrow> js_runtime \<Rightarrow> host \<Rightarrow> dig_network \<Rightarrow> string \<Rightarrow> history
      \<Rightarrow> (string + resolve_result) \<times> history" where
  "dn_resolve K J H dn s h =
     (case do_resolve K J H s (dn_endpoint dn) (dn_connect_url dn) (dn_cache_path dn) h of
        (Inl e, h') \<Rightarrow> (Inl (error_display e), h')
      | (Inr oc, h') \<Rightarrow> (Inr (outcome_to_result oc (connect_or_default (dn_connect_url dn))), h'))"

section \<open>Image URLs\<close>

definition object_url :: "js_runtime \<Rightarrow> bytes \<Rightarrow> string \<Rightarrow> transport_error + string" where
  "object_url J b content_type =
     (case blob_new J b content_type of
        Inl v \<Rightarrow> Inl (js_err v)
      | Inr blob \<Rightarrow> (case create_object_url J blob of Inl v \<Rightarrow> Inl (js_err v) | Inr url \<Rightarrow> Inr url))"

definition data_url :: "('u, 'm) crates \<Rightarrow> bytes \<Rightarrow> string \<Rightarrow> string" where
  "data_url K b content_type = ''data:'' @ content_type @ '';base64,'' @ b64_encode K b"

definition img_url :: "('u, 'm) crates \<Rightarrow> js_runtime \<Rightarrow> bytes \<Rightarrow> string \<Rightarrow> string" where
  "img_url K J b content_type =
     (case object_url J b content_type of Inr url \<Rightarrow> url | Inl _ \<Rightarrow> data_url K b content_type)"

definition resolve_image_url ::
    "('u, 'm) crates \<Rightarrow> js_runtime \<Rightarrow> host \<Rightarrow> (string \<Rightarrow> bytes) \<Rightarrow> dig_network \<Rightarrow> string \<Rightarrow> history
      \<Rightarrow> (string + string) \<times> history" where
  "resolve_image_url K J H assets dn s h =
     (case do_resolve K J H s (dn_endpoint dn) (dn_connect_url dn) (dn_cache_path dn) h of
        (Inr (Success d), h') \<Rightarrow> (Inr (img_url K J (rd_bytes d) (rd_content_type d)), h')
      | (Inr oc, h') \<Rightarrow> (Inr (data_uri K assets (for_outcome oc)), h')
      | (Inl e, h') \<Rightarrow> (Inr (data_uri K assets (for_error e)), h'))"

section \<open>The free functions\<close>

definition wasm_resolve ::
    "('u, 'm) crates \<Rightarrow> js_runtime \<Rightarrow> host \<Rightarrow> string \<Rightarrow> string option \<Rightarrow> string option \<Rightarrow> history
      \<Rightarrow> (string + resolve_result) \<times> history" where
  "wasm_resolve K J H s ep cta h = dn_resolve K J H (from_parts ep cta None) s h"

definition resolve_object_url ::
    "('u, 'm) crates \<Rightarrow> js_runtime \<Rightarrow> host \<Rightarrow> (string \<Rightarrow> bytes) \<Rightarrow> string \<Rightarrow> string option \<Rightarrow> string option
      \<Rightarrow> history \<Rightarrow> (string + string) \<times> history" where
  "resolve_object_url K J H assets s ep cta h = resolve_image_url K J H assets (from_parts ep cta None) s h"

text \<open>The version of \<open>Cargo.toml\<close>, as \<open>lib.rs\<close> and \<open>wasm.rs\<close> report it.\<close>

definition crate_version :: string where
  "crate_version = ''0.5.4''"

definition version :: string where
  "version = crate_version"

section \<open>Facts\<close>

lemma opt_idem [simp]: "opt (opt s) = opt s"
  by (simp add: opt_def split: option.splits)

lemma opt_None [simp]: "opt None = None"
  by (simp add: opt_def)

lemma fetch_request_headers:
  assumes "fetch_request J mth url bdy h = Inr resp"
  shows "fst ` set (headers resp) \<subseteq> {''content-type'', ''x-dig-verified''}"
  using assms
  by (auto simp: fetch_request_def captured_def Let_def split: sum.splits option.splits)

lemma fetch_request_no_header:
  assumes "fetch_request J mth url bdy h = Inr resp"
    and "to_ascii_lowercase name \<noteq> ''content-type''" and "to_ascii_lowercase name \<noteq> ''x-dig-verified''"
  shows "header resp name = None"
proof -
  have "to_ascii_lowercase ''content-type'' = ''content-type''"
    "to_ascii_lowercase ''x-dig-verified'' = ''x-dig-verified''" by code_simp+
  then show ?thesis
    using fetch_request_headers [OF assms(1)] assms(2,3)
    unfolding header_None_iff by (force simp: eq_ignore_ascii_case_def)
qed

text \<open>
  C38. Through the browser transport the ciphertext answer of a node is out of reach: the transport
  keeps only the content type and the attestation, so a node's successful response that does not
  attest plaintext is always a verification failure, whatever proof it carries.
\<close>

theorem wasm_node_ciphertext_rejected:
  assumes "fetch_transport J h (HttpGet url) = Inr resp" and "is_success resp" and "\<not> header_true resp ''x-dig-verified''"
  shows "node_answer K p resp = Inl (VerifyFailed
    ''node response was neither X-Dig-Verified plaintext nor decryptable ciphertext'')"
proof -
  have get: "fetch_request J ''GET'' url None h = Inr resp" using assms(1) by simp
  have "header resp ''x-dig-encrypted'' = None" "header resp ''x-dig-inclusion-proof'' = None"
    by (rule fetch_request_no_header [OF get], code_simp, code_simp)+
  moreover have "status resp \<noteq> 404" using assms(2) by (auto simp: is_success_def)
  ultimately show ?thesis using assms(2,3) by (simp add: node_answer_def header_true_def)
qed

text \<open>
  A runtime whose every \<open>GET\<close> answers \<open>g\<close> and every \<open>POST\<close> answers \<open>p\<close>, and which has no \<open>Blob\<close>,
  as Node.js of old.
\<close>

definition demo_js :: "js_settled \<Rightarrow> js_settled \<Rightarrow> js_runtime" where
  "demo_js g p =
     \<lparr>headers_new = None, headers_set = (\<lambda>k v. None),
      request_new = (\<lambda>url i. Inr \<lparr>jr_url = url, jr_init = i\<rparr>),
      global_fetch = Some (\<lambda>h rq. Promise (if in_method (jr_init rq) = ''GET'' then g else p)),
      blob_new = (\<lambda>b ct. Inl \<lparr>ex_string = None, ex_message = Some ''no Blob''\<rparr>),
      create_object_url = (\<lambda>b. Inl \<lparr>ex_string = None, ex_message = None\<rparr>)\<rparr>"

definition demo_refused :: js_settled where
  "demo_refused = Rejected \<lparr>ex_string = None, ex_message = Some ''connection refused''\<rparr>"

definition demo_answer :: "(string \<times> string) list \<Rightarrow> bytes \<Rightarrow> js_settled" where
  "demo_answer hs b = Resolved \<lparr>js_status = 200, js_header = (\<lambda>n. Inr (map_of hs n)), js_array_buffer = Inr (Inr b)\<rparr>"

lemma demo_js_get: "fetch_transport (demo_js g p) h (HttpGet url) =
    (case g of Rejected v \<Rightarrow> Inl (js_err v)
     | NotResponse \<Rightarrow> Inl (TransportError ''fetch response was not a Response'')
     | Resolved resp \<Rightarrow> fetch_request (demo_js (Resolved resp) p) ''GET'' url None h)"
  by (cases g) (simp_all add: fetch_request_def send_request_def json_headers_def demo_js_def)

lemma wasm_node_ciphertext_rejected_witness:
  "\<exists>resp m. fetch_transport (demo_js
       (demo_answer [(''x-dig-inclusion-proof'', demo_b64_encode [0xBB, 0, 1, 2])] [0, 1, 2]) demo_refused)
       [] (HttpGet ''u'') = Inr resp \<and>
     node_answer demo_crates (demo_urn_of ''r:x'') resp = Inl (VerifyFailed m)"
proof -
  let ?J = "demo_js (demo_answer [(''x-dig-inclusion-proof'', demo_b64_encode [0xBB, 0, 1, 2])] [0, 1, 2]) demo_refused"
  let ?r = "\<lparr>status = 200, headers = [], body = [0, 1, 2]\<rparr>"
  have r: "fetch_transport ?J [] (HttpGet ''u'') = Inr ?r"
    by (simp add: demo_answer_def demo_js_def fetch_request_def send_request_def json_headers_def captured_def)
  have "is_success ?r" "\<not> header_true ?r ''x-dig-verified''"
    by (simp_all add: is_success_def header_true_def)
  from wasm_node_ciphertext_rejected [OF r this] r show ?thesis by blast
qed

section \<open>Images\<close>

lemma do_resolve_resolve:
  "do_resolve K J H s ep cta dir h = (r, h') \<Longrightarrow>
   \<exists>R h1 R'. with_options (wasm_host J H) (options_of ep cta dir) h = (R, h1) \<and>
     resolve K (wasm_host J H) R s h1 = (r, R', h')"
  by (auto simp: do_resolve_def resolve_once_def split: prod.splits)

lemma do_resolve_success:
  assumes "gate_contract K" and "decrypt_contract K" and "do_resolve K J H s ep cta dir h = (Inr (Success d), h')"
  shows "\<exists>p p' root. parse_urn K s = Inr p \<and> source_of K p p' root \<and>
    (authentic K p' root (rd_bytes d) \<or> attested_by_node K (wasm_host J H) (options_of ep cta dir) p' d)"
proof -
  from do_resolve_resolve [OF assms(3)] obtain R h0 R'
    where opts: "with_options (wasm_host J H) (options_of ep cta dir) h = (R, h0)"
      and res: "resolve K (wasm_host J H) R s h0 = (Inr (Success d), R', h')" by blast
  from resolve_ok(2) [OF with_options_ok [OF opts] res refl] verified_as_authentic [OF assms(1,2)]
  show ?thesis unfolding provenance_def by blast
qed

text \<open>
  C33. An image URL is always produced and never carries unverified bytes: the call does not throw,
  and the URL is either that of bytes which were released by the gate or attested by a loopback
  node for this URN's identity, or one of the five constant error images; after an integrity
  failure it is the security image.
\<close>

theorem image_url_fail_closed:
  assumes "gate_contract K" and "decrypt_contract K"
    and "resolve_image_url K J H assets dn s h = (res, h')"
  shows "((\<exists>kind. res = Inr (data_uri K assets kind)) \<or>
      (\<exists>d p p' root. res = Inr (img_url K J (rd_bytes d) (rd_content_type d)) \<and>
         parse_urn K s = Inr p \<and> source_of K p p' root \<and>
         (authentic K p' root (rd_bytes d) \<or>
          attested_by_node K (wasm_host J H) (options_of (dn_endpoint dn) (dn_connect_url dn) (dn_cache_path dn)) p' d)))
    \<and> (fst (do_resolve K J H s (dn_endpoint dn) (dn_connect_url dn) (dn_cache_path dn) h) = Inr IntegrityFailure
         \<longrightarrow> res = Inr (data_uri K assets Img_Integrity))"
proof -
  let ?opts = "options_of (dn_endpoint dn) (dn_connect_url dn) (dn_cache_path dn)"
  obtain r h1 where did: "do_resolve K J H s (dn_endpoint dn) (dn_connect_url dn) (dn_cache_path dn) h = (r, h1)"
    by fastforce
  show ?thesis
  proof (cases "\<exists>d. r = Inr (Success d)")
    case False
    then show ?thesis
      using assms(3) did by (auto simp: resolve_image_url_def split: sum.splits resolve_outcome.splits)
  next
    case True
    then obtain d where r: "r = Inr (Success d)" by blast
    from did r have "\<exists>p p' root. parse_urn K s = Inr p \<and> source_of K p p' root \<and>
       (authentic K p' root (rd_bytes d) \<or> attested_by_node K (wasm_host J H) ?opts p' d)"
      by (blast dest: do_resolve_success [OF assms(1,2)])
    moreover have "res = Inr (img_url K J (rd_bytes d) (rd_content_type d))"
      using assms(3) did r by (simp add: resolve_image_url_def)
    ultimately show ?thesis using did r by auto
  qed
qed

text \<open>A client whose page runs no node and whose gateway is down.\<close>

definition demo_dn :: dig_network where
  "demo_dn = from_parts None None None"

lemma image_url_fail_closed_witness:
  "\<exists>res h'. resolve_image_url demo_crates (demo_js demo_refused demo_refused) (demo_host net_down) (\<lambda>k. [1]) demo_dn ''?'' []
      = (res, h') \<and> res = Inr (data_uri demo_crates (\<lambda>k. [1]) Img_InvalidUrn)"
proof -
  obtain res h' where r: "resolve_image_url demo_crates (demo_js demo_refused demo_refused) (demo_host net_down) (\<lambda>k. [1])
      demo_dn ''?'' [] = (res, h')" by fastforce
  have "parse_urn demo_crates ''?'' = Inl (Parse ''not a DIG URN'')" by code_simp
  then have bad: "fst (resolve_image_url demo_crates (demo_js demo_refused demo_refused) (demo_host net_down) (\<lambda>k. [1])
      demo_dn ''?'' []) = Inr (data_uri demo_crates (\<lambda>k. [1]) Img_InvalidUrn)"
    by (simp add: resolve_image_url_def do_resolve_def resolve_once_def resolve_def split: prod.splits)
  from image_url_fail_closed [OF demo_gate demo_decrypt r]
  have "\<exists>kind. res = Inr (data_uri demo_crates (\<lambda>k. [1]) kind)"
    using \<open>parse_urn demo_crates ''?'' = Inl (Parse ''not a DIG URN'')\<close> by auto
  with r bad show ?thesis by simp
qed

text \<open>
  What JavaScript is handed is consistent: the outcome tag is \<open>success\<close> exactly when the
  resolve succeeded, and then bytes and type are the content's; otherwise the type is
  \<open>text/html\<close> and the bytes are the constant security page or the unreachable page with the
  client's connect URL.
\<close>

lemma result_matches_outcome:
  "let r = outcome_to_result oc cta
   in (result_outcome r = ''success'' \<longleftrightarrow> outcome_is_success oc) \<and>
      (case oc of
         Success d \<Rightarrow> result_bytes r = rd_bytes d \<and> result_content_type r = rd_content_type d
       | IntegrityFailure \<Rightarrow> result_content_type r = ''text/html'' \<and> bytes_str (result_bytes r) = integrity_failure_html
       | Unreachable \<Rightarrow> result_content_type r = ''text/html'' \<and> bytes_str (result_bytes r) = unreachable_html cta)"
  by (cases oc) (simp_all add: outcome_to_result_def HTML_CONTENT_TYPE_def result_outcome_def
      result_bytes_def result_content_type_def)

text \<open>
  C32. Every result JavaScript receives is one of four shapes, and the shape says what the bytes
  are.  Tagged \<open>success\<close>: content that is authentic under the root or was attested by a loopback
  node.  Tagged \<open>integrity_failure\<close>: the constant security page.  Tagged \<open>unreachable\<close>: the page
  with the client's connect URL.  Both pages are typed \<open>text/html\<close>.  A rejected call carries the
  message of a malformed URN, an RPC error, an absent resource or a missing root, and of nothing else.
\<close>

theorem dig_resolve_result_typed:
  assumes "gate_contract K" and "decrypt_contract K" and "dn_resolve K J H dn s h = (res, h')"
  shows "case res of
      Inl msg \<Rightarrow> (\<exists>e. msg = error_display e \<and> ((\<exists>m. e = Parse m \<or> e = Rpc m) \<or> e = NotFound \<or> e = RootRequired))
    | Inr q \<Rightarrow>
       (result_outcome q = ''success'' \<and>
         (\<exists>d p p' root. result_bytes q = rd_bytes d \<and> result_content_type q = rd_content_type d \<and>
            parse_urn K s = Inr p \<and> source_of K p p' root \<and>
            (authentic K p' root (rd_bytes d) \<or>
             attested_by_node K (wasm_host J H)
               (options_of (dn_endpoint dn) (dn_connect_url dn) (dn_cache_path dn)) p' d))) \<or>
       (result_outcome q = ''integrity_failure'' \<and> result_content_type q = ''text/html'' \<and>
         bytes_str (result_bytes q) = integrity_failure_html) \<or>
       (result_outcome q = ''unreachable'' \<and> result_content_type q = ''text/html'' \<and>
         bytes_str (result_bytes q) = unreachable_html (connect_or_default (client_connect_url dn)))"
proof -
  let ?do = "do_resolve K J H s (dn_endpoint dn) (dn_connect_url dn) (dn_cache_path dn) h"
  obtain r h1 where did: "?do = (r, h1)" by fastforce
  show ?thesis
  proof (cases r)
    case (Inl e)
    with do_resolve_resolve [OF did] resolve_Inl [of K "wasm_host J H" _ s _ e]
    have "(\<exists>m. e = Parse m \<or> e = Rpc m) \<or> e = NotFound \<or> e = RootRequired" by blast
    moreover have "res = Inl (error_display e)" using assms(3) did Inl by (simp add: dn_resolve_def)
    ultimately show ?thesis by (simp del: error_display.simps) blast
  next
    case (Inr oc)
    with assms(3) did
    have res: "res = Inr (outcome_to_result oc (connect_or_default (client_connect_url dn)))"
      by (simp add: dn_resolve_def client_connect_url_def)
    show ?thesis
    proof (cases oc)
      case (Success d)
      with did Inr have "?do = (Inr (Success d), h1)" by simp
      from do_resolve_success [OF assms(1,2) this] res Success
      show ?thesis
        using result_matches_outcome [of oc "connect_or_default (client_connect_url dn)"]
        by (simp add: Let_def) blast
    qed (use res in \<open>simp_all add: outcome_to_result_def HTML_CONTENT_TYPE_def result_outcome_def
          result_bytes_def result_content_type_def\<close>)
  qed
qed

lemma dig_resolve_result_typed_witness:
  "\<exists>msg h' e. dn_resolve demo_crates (demo_js demo_refused demo_refused) (demo_host net_down) demo_dn ''?'' []
      = (Inl msg, h') \<and> msg = error_display e \<and> (\<exists>m. e = Parse m \<or> e = Rpc m \<or> e = NotFound \<or> e = RootRequired)"
proof -
  have bad: "parse_urn demo_crates ''?'' = Inl (Parse ''not a DIG URN'')" by code_simp
  obtain res h' where r: "dn_resolve demo_crates (demo_js demo_refused demo_refused) (demo_host net_down) demo_dn ''?'' []
      = (res, h')" by fastforce
  with bad obtain msg where "res = Inl msg"
    by (auto simp: dn_resolve_def do_resolve_def resolve_once_def resolve_def split: prod.splits)
  with dig_resolve_result_typed [OF demo_gate demo_decrypt r] r show ?thesis by auto
qed

section \<open>No cache outlives a call\<close>

lemma fetch_from_asks:
  assumes "fetch_from K H ep p h = (Inr f, h')"
  shows "length (filter is_http h) < length (filter is_http h')"
proof (cases "ep_kind ep")
  case NodeKind
  with assms have "h' = h @ [HttpGet (serve_url K (ep_base ep) p)]"
    by (simp add: fetch_from_def node_fetch_eq)
  then show ?thesis by simp
next
  case RpcKind
  let ?b = "trim_end_matches CHR ''/'' (ep_base ep)"
  from assms RpcKind have "rpc_fetch K H (ep_base ep) p h = (Inr f, h')" by (simp add: fetch_from_def)
  then obtain root st where "window_loop K H ?b p root window_start h = (Inr st, h')"
    by (rule rpc_fetch_InrD)
  from window_loop_asks [OF this] window_loop_requests [OF this] obtain offs
    where "h' = h @ map (window_request K ?b p root) offs" and "offs \<noteq> []"
    by (auto simp: window_start_def MAX_WINDOWS_nat)
  then show ?thesis by (cases offs) (simp_all add: window_request_def)
qed

lemma prefix_requests: "prefix h h' \<Longrightarrow> length (filter is_http h) \<le> length (filter is_http h')"
  by (auto simp: prefix_def)

lemma disk_get_verified_prefix: "disk_get_verified K H R p i h = (oc, h') \<Longrightarrow> prefix h h'"
  using disk_get_verified_events(1) grows_prefix by blast

text \<open>
  C37. The memory cache of the JavaScript client never serves anything: every call builds a
  resolver of its own, so without a disk cache every successful call, repeated or not, makes at
  least one request.
\<close>

theorem wasm_every_success_asks_network:
  assumes "do_resolve K J H s ep cta None h = (Inr (Success d), h')"
  shows "length (filter is_http h) < length (filter is_http h')"
proof -
  let ?opts = "options_of ep cta None"
  from assms obtain R h0 R' where opts: "with_options (wasm_host J H) ?opts h = (R, h0)"
      and res: "resolve K (wasm_host J H) R s h0 = (Inr (Success d), R', h')"
    using do_resolve_resolve by blast
  from opts have R: "h0 = h" "r_disk R = None" "mc_stored (r_memory R) = Map.empty"
    by (auto simp: with_options_def options_of_def)
  have ok: "resolver_ok K (wasm_host J H) ?opts R" by (rule with_options_ok [OF opts])
  have ladder: "length (filter is_http h1) < length (filter is_http h')"
    if ok': "resolver_ok K (wasm_host J H) ?opts R1" and lad: "resolve_ladder K (wasm_host J H) p R1 h1 = (Inr (Success d), R', h')"
    for p R1 h1
  proof -
    from ladder_success [OF ok' lad] obtain ep h2 h3 f where "fetch_from K (wasm_host J H) ep p h2 = (Inr f, h3)"
        and "prefix h1 h2" "prefix h3 h'" by blast
    with fetch_from_asks prefix_requests show ?thesis by (meson le_less_trans less_le_trans)
  qed
  show ?thesis
    using res
  proof (cases rule: resolve_cases)
    case (rootless p)
    with ladder [OF ok] R show ?thesis by simp
  next
    case (hit p root x m)
    then show ?thesis using R fst_mc_get [of "r_memory R" "cache_id K p root"] by simp
  next
    case (disk p root m oc)
    then show ?thesis using R by (simp add: disk_get_verified_def split: if_splits)
  next
    case (missed p root m h1)
    from ladder [OF resolver_ok_get [OF ok missed(3)] missed(5)]
      prefix_requests [OF disk_get_verified_prefix [OF missed(4)]] R show ?thesis by simp
  qed simp
qed

text \<open>In this runtime no node answers and the gateway is the one of the witnesses.\<close>

definition demo_js_gateway :: js_runtime where
  "demo_js_gateway = demo_js demo_refused (demo_answer [] (body demo_gateway))"

lemma demo_js_post: "fetch_transport demo_js_gateway h (HttpPost url bdy) = Inr demo_gateway"
  by (simp add: demo_js_gateway_def demo_js_def demo_answer_def fetch_request_def send_request_def
      json_headers_def captured_def demo_gateway_def demo_response_def)

lemma demo_js_honest:
  "honest_gateway demo_crates (wasm_host demo_js_gateway H) base demo_urn_r ''bb''
     [0, 1, 2] (demo_b64_encode [0xBB, 0, 1, 2]) []"
  using demo_honest_gateway [of base]
  by (simp add: honest_gateway_def rpc_call_eq wasm_host_def demo_js_post demo_host_def del: fetch_transport.simps)

lemma demo_js_resolves:
  "fst (do_resolve demo_crates demo_js_gateway (demo_host net_down) ''r:x'' None None None []) =
     Inr (Success (resolved_data_new [1, 2] (derive (resource_key demo_crates demo_urn_r) [1, 2])))"
proof -
  let ?H = "wasm_host demo_js_gateway (demo_host net_down)" and ?opts = "options_of None None None"
  let ?R = "\<lparr>r_options = ?opts, r_plan_cache = None,
     r_memory = mc_new DEFAULT_MEMORY_ENTRIES DEFAULT_MEMORY_BYTES, r_disk = None\<rparr>"
  have new: "with_options ?H ?opts [] = (?R, [])"
    by (simp add: with_options_def options_of_def)
  have "gateway_last demo_crates ?H ?opts" by (simp add: gateway_last_def options_of_def)
  moreover have "no_local_node ?H"
    by (simp add: no_local_node_def wasm_host_def demo_js_gateway_def demo_js_get demo_refused_def js_err_def
        del: fetch_transport.simps)
  moreover have "parse_urn demo_crates ''r:x'' = Inr demo_urn_r" using demo_urn_parse by (simp add: demo_urn_r_eq)
  ultimately have "fst (resolve demo_crates ?H ?R ''r:x'' []) =
      Inr (Success (resolved_data_new [1, 2] (derive (resource_key demo_crates demo_urn_r) [1, 2])))"
    by (intro gateway_resolves [OF session.opened [OF new] _ _ _ demo_root_r _ _ demo_b64 _ _ demo_js_honest demo_verified])
      simp_all
  with new show ?thesis by (simp add: do_resolve_def resolve_once_def split_beta)
qed

lemma wasm_every_success_asks_network_witness:
  "\<exists>d h'. do_resolve demo_crates demo_js_gateway (demo_host net_down) ''r:x'' None None None [] = (Inr (Success d), h')
     \<and> 0 < length (filter is_http h')"
proof -
  obtain d h' where ok: "do_resolve demo_crates demo_js_gateway (demo_host net_down) ''r:x'' None None None []
      = (Inr (Success d), h')" using demo_js_resolves by (metis prod.collapse)
  from wasm_every_success_asks_network [OF ok] ok show ?thesis by auto
qed

section \<open>The browser has no disk\<close>

text \<open>Two resolvers that differ in their disk cache alone.\<close>

definition same_but_disk :: "resolver \<Rightarrow> resolver \<Rightarrow> bool" where
  "same_but_disk R1 R2 \<longleftrightarrow> r_plan_cache R1 = r_plan_cache R2 \<and> r_memory R1 = r_memory R2 \<and>
     o_endpoint (r_options R1) = o_endpoint (r_options R2)"

definition browser :: "host \<Rightarrow> bool" where
  "browser H \<longleftrightarrow> \<not> feature_native H \<and> injected_fs H = None"

lemma browser_disk:
  assumes "browser H"
  shows "disk_get K H dir i h = (None, h)" and "disk_put K H dir i a h = h" and "snd (disk_new H dir h) = h"
  using assms
  by (simp_all add: browser_def disk_defs wasm_defs node_fs_defs Let_def split: option.splits)

lemma browser_disk_get_verified:
  "browser H \<Longrightarrow> disk_get_verified K H R p i h = (None, h)"
  by (simp add: disk_get_verified_def browser_disk split: option.splits)

lemma browser_cache_success:
  assumes "browser H" and "same_but_disk R1 R2"
  shows "snd (cache_success K H R1 p f h) = h"
    and "same_but_disk (fst (cache_success K H R1 p f h)) (fst (cache_success K H R2 p f h))"
  using assms
  by (auto simp: cache_success_def Let_def browser_disk same_but_disk_def split: option.splits)

definition agree ::
    "(resolve_error + resolve_outcome) \<times> resolver \<times> history \<Rightarrow> (resolve_error + resolve_outcome) \<times> resolver \<times> history \<Rightarrow> bool" where
  "agree x y \<longleftrightarrow> fst x = fst y \<and> snd (snd x) = snd (snd y) \<and> same_but_disk (fst (snd x)) (fst (snd y))"

lemma browser_walk:
  "browser H \<Longrightarrow> same_but_disk R1 R2 \<Longrightarrow> agree (walk K H p lst i plan R1 h) (walk K H p lst i plan R2 h)"
proof (induction plan arbitrary: i h)
  case Nil
  then show ?case by (simp add: walk.simps agree_def)
next
  case (Cons ep eps)
  obtain a h1 where fetch: "fetch_from K H ep p h = (a, h1)" by fastforce
  show ?case
  proof (cases a)
    case (Inl e)
    with fetch Cons.IH [OF Cons.prems] Cons.prems(2) show ?thesis
      by (cases e) (simp_all add: walk.simps agree_def)
  next
    case (Inr f)
    have "same_but_disk R2 R2" by (simp add: same_but_disk_def)
    note same = browser_cache_success(1) [OF Cons.prems(1) this] browser_cache_success [OF Cons.prems]
    from Inr fetch show ?thesis by (simp add: walk.simps agree_def split_beta same)
  qed
qed

lemma browser_ladder:
  assumes "browser H" and "same_but_disk R1 R2"
  shows "agree (resolve_ladder K H p R1 h) (resolve_ladder K H p R2 h)"
proof -
  obtain plan R1' h1 where p1: "plan_of K H R1 h = (plan, R1', h1)" by (metis prod_cases3)
  have "\<exists>R2'. plan_of K H R2 h = (plan, R2', h1) \<and> same_but_disk R1' R2'"
    using p1 assms(2) by (auto simp: plan_of_def same_but_disk_def split: option.splits prod.splits)
  then obtain R2' where "plan_of K H R2 h = (plan, R2', h1)" "same_but_disk R1' R2'" by blast
  with p1 browser_walk [OF assms(1)] show ?thesis by (simp add: resolve_ladder_def)
qed

lemma browser_resolve:
  assumes "browser H" and "same_but_disk R1 R2"
  shows "agree (resolve K H R1 s h) (resolve K H R2 s h)"
proof (cases "parse_urn K s")
  case (Inl e)
  with assms(2) show ?thesis by (simp add: resolve_def agree_def)
next
  case (Inr p)
  show ?thesis
  proof (cases "root_hex K p")
    case None
    with Inr browser_ladder [OF assms] show ?thesis by (simp add: resolve_def)
  next
    case (Some root)
    obtain x m where get: "mc_get (r_memory R1) (cache_id K p root) = (x, m)" by fastforce
    have mem: "r_memory R2 = r_memory R1" using assms(2) by (simp add: same_but_disk_def)
    have same: "same_but_disk (R1\<lparr>r_memory := m\<rparr>) (R2\<lparr>r_memory := m\<rparr>)"
      using assms(2) by (simp add: same_but_disk_def)
    show ?thesis
    proof (cases x)
      case None
      with Inr Some get mem browser_ladder [OF assms(1) same] show ?thesis
        by (simp add: resolve_def Let_def browser_disk_get_verified [OF assms(1)])
    next
      case (Some d)
      with Inr \<open>root_hex K p = Some root\<close> get mem same show ?thesis
        by (simp add: resolve_def agree_def)
    qed
  qed
qed

text \<open>
  In a browser \<open>cachePath\<close> is a no-op: without an injected file system a call with a cache
  directory gives the same result and causes the same events, in the same order, as one without.
\<close>

theorem browser_cache_path_no_op:
  assumes "injected_fs H = None"
  shows "do_resolve K J H s ep cta dir h = do_resolve K J H s ep cta None h"
proof -
  let ?H = "wasm_host J H"
  have b: "browser ?H" using assms by (simp add: browser_def wasm_host_def)
  obtain R1 where o1: "with_options ?H (options_of ep cta dir) h = (R1, h)"
    and o2: "same_but_disk R1 (fst (with_options ?H (options_of ep cta None) h))"
    using browser_disk(3) [OF b]
    by (auto simp: with_options_def options_of_def same_but_disk_def split_beta split: option.splits)
  have o3: "snd (with_options ?H (options_of ep cta None) h) = h"
    by (simp add: with_options_def options_of_def)
  from browser_resolve [OF b o2, of K s h] o1 o3 show ?thesis
    by (simp add: do_resolve_def resolve_once_def agree_def split_beta prod_eq_iff)
qed

lemma browser_cache_path_no_op_witness:
  "do_resolve demo_crates demo_js_gateway (demo_host net_down) ''r:x'' None None (Some ''/tmp'') []
     = do_resolve demo_crates demo_js_gateway (demo_host net_down) ''r:x'' None None None []"
  by (rule browser_cache_path_no_op) (simp add: demo_host_def)

end
