(* ===== verification/ClientOptions.thy ===== *)
theory ClientOptions
  imports WasmApi
begin

text \<open>
  The options object of the JavaScript constructor (\<open>src/src/wasm.rs\<close>): what its TypeScript
  declaration offers, what \<open>DigNetwork::new\<close> reads of it, and what a client built from it asks for.
  The reader \<open>serde_wasm_bindgen::from_value\<close> is a parameter; \<open>reads_options\<close> is its documented
  behaviour on a struct of optional strings whose every field defaults to absent.
\<close>

section \<open>The object\<close>

text \<open>A property: absent or \<open>undefined\<close>, \<open>null\<close>, a string, or a value of another type.\<close>

datatype js_prop = JsUndefined | JsNull | JsText string | JsOtherType

text \<open>The extern type \<open>DigNetworkOptions\<close> is opaque: JavaScript may pass any value for it.\<close>

datatype js_options = JsNoObject | JsObject "string \<Rightarrow> js_prop"

text \<open>The members of the interface: the name, whether it may be left out, and the type.\<close>

definition TS_DIG_NETWORK_OPTIONS :: "(string \<times> bool \<times> string) list" where
  "TS_DIG_NETWORK_OPTIONS =
     [(''endpoint'', True, ''string''), (''connectUrl'', True, ''string''), (''cachePath'', True, ''string'')]"

definition declared_options :: "string list" where
  "declared_options = map fst TS_DIG_NETWORK_OPTIONS"

text \<open>A value that TypeScript accepts where \<open>name?: string\<close> is declared.\<close>

fun fits :: "js_prop \<Rightarrow> bool" where
  "fits JsUndefined = True"
| "fits JsNull = False"
| "fits (JsText s) = True"
| "fits JsOtherType = False"

fun prop_text :: "js_prop \<Rightarrow> string option" where
  "prop_text (JsText s) = Some s"
| "prop_text _ = None"

definition typed_options :: "(string \<Rightarrow> js_prop) \<Rightarrow> bool" where
  "typed_options f \<longleftrightarrow> list_all (\<lambda>name. fits (f name)) declared_options"

section \<open>The reader\<close>

text \<open>
  \<open>serde\<close>: the fields of \<open>ParsedOptions\<close> go by their camel-case names, an absent, undefined or null
  one is \<open>None\<close>, other properties are ignored, and a field of another type is an error of the whole
  object, as is a value that is no object.
\<close>

definition reads_options :: "(js_options \<Rightarrow> string + parsed_options) \<Rightarrow> bool" where
  "reads_options from_value \<longleftrightarrow>
     (\<exists>e. from_value JsNoObject = Inl e) \<and>
     (\<forall>f. if JsOtherType \<in> {f ''endpoint'', f ''connectUrl'', f ''cachePath''}
          then \<exists>e. from_value (JsObject f) = Inl e
          else from_value (JsObject f) =
            Inr \<lparr>op_endpoint = prop_text (f ''endpoint''), op_connect_url = prop_text (f ''connectUrl''),
                 op_cache_path = prop_text (f ''cachePath'')\<rparr>)"

lemma read_typed:
  assumes "reads_options from_value" and "typed_options f"
  shows "from_value (JsObject f) =
    Inr \<lparr>op_endpoint = prop_text (f ''endpoint''), op_connect_url = prop_text (f ''connectUrl''),
         op_cache_path = prop_text (f ''cachePath'')\<rparr>"
proof -
  from assms(2) have "JsOtherType \<notin> {f ''endpoint'', f ''connectUrl'', f ''cachePath''}"
    by (auto simp: typed_options_def declared_options_def TS_DIG_NETWORK_OPTIONS_def)
  with assms(1) show ?thesis unfolding reads_options_def by metis
qed

lemma read_ill_typed:
  assumes "reads_options from_value" and "JsOtherType \<in> f ` set declared_options"
  shows "\<exists>e. from_value (JsObject f) = Inl e"
proof -
  from assms(2) have "JsOtherType \<in> {f ''endpoint'', f ''connectUrl'', f ''cachePath''}"
    by (auto simp: declared_options_def TS_DIG_NETWORK_OPTIONS_def)
  with assms(1) show ?thesis unfolding reads_options_def by metis
qed

section \<open>The client\<close>

text \<open>What \<open>DigNetwork::resolve\<close> makes of the outcome of a resolve, for a client with this connect URL.\<close>

definition js_answer ::
    "string option \<Rightarrow> (resolve_error + resolve_outcome) \<times> history \<Rightarrow> (string + resolve_result) \<times> history" where
  "js_answer cta = (\<lambda>(r, h).
     (case r of
        Inl e \<Rightarrow> Inl (error_display e)
      | Inr oc \<Rightarrow> Inr (outcome_to_result oc (connect_or_default cta)), h))"

lemma connect_or_default_opt [simp]: "connect_or_default (opt cta) = connect_or_default cta"
  by (simp add: connect_or_default_def)

lemma parts_resolve:
  "dn_resolve K J H (from_parts ep cta dir) s h =
     js_answer cta (resolve_once K (wasm_host J H) s (options_of ep cta dir) h)"
  by (simp add: dn_resolve_def do_resolve_def from_parts_def options_of_def js_answer_def split: prod.split sum.split)

lemmas client_getters = client_endpoint_def client_connect_url_def client_cache_path_def from_parts_def

lemma refused_is_default:
  assumes "from_value ob = Inl e"
  shows "dig_network_new from_value (Some ob) = from_parts None None None"
  using assms by (simp add: dig_network_new_def parsed_options_default_def Let_def)

text \<open>
  C34. The options of the JavaScript client are taken as a whole or not at all.  Of an object that fits
  the TypeScript declaration every declared member is read back from the client, blank ones as unset,
  and they are what its resolves run with; nothing else in the object matters.  One declared
  member of another type, and all of them are dropped: the client resolves as \<open>new DigNetwork()\<close>
  does, with the default options and so along the automatic ladder, even where an endpoint override
  was given.
\<close>

theorem client_options_all_or_nothing:
  assumes "reads_options from_value" and "dn = dig_network_new from_value (Some (JsObject f))"
  shows "(typed_options f \<longrightarrow>
      client_endpoint dn = opt (prop_text (f ''endpoint'')) \<and>
      client_connect_url dn = opt (prop_text (f ''connectUrl'')) \<and>
      client_cache_path dn = opt (prop_text (f ''cachePath'')) \<and>
      dn_resolve K J H dn s h = js_answer (prop_text (f ''connectUrl'')) (resolve_once K (wasm_host J H) s
        (options_of (prop_text (f ''endpoint'')) (prop_text (f ''connectUrl'')) (prop_text (f ''cachePath''))) h))
    \<and> (JsOtherType \<in> f ` set declared_options \<longrightarrow>
      client_endpoint dn = None \<and> client_connect_url dn = None \<and> client_cache_path dn = None \<and>
      dn_resolve K J H dn s h = js_answer None (resolve_once K (wasm_host J H) s default_options h))"
    (is "(_ \<longrightarrow> ?kept) \<and> (_ \<longrightarrow> ?dropped)")
proof (intro conjI [where P = "_ \<longrightarrow> _"] impI)
  assume "typed_options f"
  from read_typed [OF assms(1) this]
  have "dn = from_parts (prop_text (f ''endpoint'')) (prop_text (f ''connectUrl'')) (prop_text (f ''cachePath''))"
    by (simp add: assms(2) dig_network_new_def)
  then show ?kept by (simp add: parts_resolve) (simp add: client_getters)
next
  assume "JsOtherType \<in> f ` set declared_options"
  from read_ill_typed [OF assms(1) this] have "dn = from_parts None None None"
    using refused_is_default assms(2) by metis
  moreover have "options_of None None None = default_options"
    by (simp add: options_of_def default_options_def)
  ultimately show ?dropped by (simp add: parts_resolve) (simp add: client_getters)
qed

text \<open>A reader that does what \<open>serde\<close> documents.\<close>

fun demo_read :: "js_options \<Rightarrow> string + parsed_options" where
  "demo_read JsNoObject = Inl ''invalid type''"
| "demo_read (JsObject f) =
     (if JsOtherType \<in> {f ''endpoint'', f ''connectUrl'', f ''cachePath''} then Inl ''invalid type''
      else Inr \<lparr>op_endpoint = prop_text (f ''endpoint''), op_connect_url = prop_text (f ''connectUrl''),
                op_cache_path = prop_text (f ''cachePath'')\<rparr>)"

lemma demo_reads: "reads_options demo_read"
  by (simp add: reads_options_def)

text \<open>Node of old, the documented endpoint with a cache directory that is a number.\<close>

definition demo_props :: "js_prop \<Rightarrow> string \<Rightarrow> js_prop" where
  "demo_props dir = (\<lambda>name.
     if name = ''endpoint'' then JsText ''http://127.0.0.1:9778''
     else if name = ''cachePath'' then dir else JsUndefined)"

lemma client_options_all_or_nothing_witness:
  "client_endpoint (dig_network_new demo_read (Some (JsObject (demo_props JsUndefined)))) = Some ''http://127.0.0.1:9778'' \<and>
   client_endpoint (dig_network_new demo_read (Some (JsObject (demo_props JsOtherType)))) = None \<and>
   dn_resolve demo_crates demo_js_gateway (demo_host net_down)
       (dig_network_new demo_read (Some (JsObject (demo_props JsOtherType)))) ''r:x'' [] =
     js_answer None
       (resolve_once demo_crates (wasm_host demo_js_gateway (demo_host net_down)) ''r:x'' default_options [])"
proof -
  have typed: "typed_options (demo_props JsUndefined)" and ill: "JsOtherType \<in> demo_props JsOtherType ` set declared_options"
    by (simp_all add: typed_options_def declared_options_def TS_DIG_NETWORK_OPTIONS_def demo_props_def)
  have kept: "opt (prop_text (demo_props JsUndefined ''endpoint'')) = Some ''http://127.0.0.1:9778''" by code_simp
  note law = client_options_all_or_nothing [OF demo_reads refl, where K = demo_crates and J = demo_js_gateway
      and H = "demo_host net_down" and s = "''r:x''" and h = "[]"]
  from law [THEN conjunct1, THEN mp, OF typed] law [THEN conjunct2, THEN mp, OF ill] kept show ?thesis by metis
qed

end
