(* ===== verification/CrateRoot.thy ===== *)
theory CrateRoot
  imports WasmApi
begin

text \<open>
  \<open>src/src/lib.rs\<close>: the modules of the crate and the build features they are compiled under, and
  the names the root exports.  The lemmas say that every combination of features gives a closed crate:
  what a compiled module imports is compiled, and the optional libraries it uses are enabled.
\<close>

section \<open>Conditional compilation\<close>

datatype feature = F_native | F_wasm

datatype cfg = Always | Feature feature | CfgNot cfg | CfgAll cfg cfg | CfgAny cfg cfg

primrec enabled :: "host \<Rightarrow> feature \<Rightarrow> bool" where
  "enabled H F_native = feature_native H"
| "enabled H F_wasm = feature_wasm H"

primrec cfg_holds :: "host \<Rightarrow> cfg \<Rightarrow> bool" where
  "cfg_holds H Always = True"
| "cfg_holds H (Feature f) = enabled H f"
| "cfg_holds H (CfgNot c) = (\<not> cfg_holds H c)"
| "cfg_holds H (CfgAll c d) = (cfg_holds H c \<and> cfg_holds H d)"
| "cfg_holds H (CfgAny c d) = (cfg_holds H c \<or> cfg_holds H d)"

abbreviation wasm_only :: cfg where
  "wasm_only \<equiv> CfgAll (Feature F_wasm) (CfgNot (Feature F_native))"

abbreviation any_surface :: cfg where
  "any_surface \<equiv> CfgAny (Feature F_native) (Feature F_wasm)"

section \<open>Modules\<close>

datatype crate_module =
    M_cache | M_content_type | M_crypto | M_error | M_images | M_ladder | M_node | M_node_fs | M_pages
  | M_resolver | M_rpc | M_transport | M_urn | M_native | M_wasm

text \<open>The \<open>mod\<close> items of the root, in its order, each under its \<open>cfg\<close>.\<close>

definition declared_modules :: "(crate_module \<times> cfg) list" where
  "declared_modules =
     [(M_cache, Always), (M_content_type, Always), (M_crypto, Always), (M_error, Always),
      (M_images, Always), (M_ladder, Always), (M_node, Always), (M_node_fs, wasm_only),
      (M_pages, Always), (M_resolver, Always), (M_rpc, Always), (M_transport, Always), (M_urn, Always),
      (M_native, Feature F_native), (M_wasm, Feature F_wasm)]"

definition compiled :: "host \<Rightarrow> crate_module \<Rightarrow> bool" where
  "compiled H m \<longleftrightarrow> list_ex (\<lambda>(m', c). m' = m \<and> cfg_holds H c) declared_modules"

text \<open>The \<open>pub use\<close> items of the root: the module and the names taken from it.\<close>

definition re_exports :: "(crate_module \<times> string list) list" where
  "re_exports =
     [(M_error, [''ResolveError'', ''Result'']),
      (M_ladder, [''Endpoint'', ''EndpointKind'', ''DIG_LOCAL_BASE'', ''DIG_NODE_PORT'', ''LOCALHOST_BASE'',
        ''RPC_DEFAULT_BASE'']),
      (M_pages, [''DEFAULT_CONNECT_URL'']),
      (M_resolver, [''ResolveOptions'', ''ResolveOutcome'', ''ResolvedData'', ''Resolver'']),
      (M_transport, [''HttpResponse'', ''HttpTransport'', ''TransportError'']),
      (M_urn, [''ParsedUrn''])]"

text \<open>What each module imports of the crate, as its \<open>use\<close> items and its paths into the crate say.\<close>

primrec imports_of :: "crate_module \<Rightarrow> (crate_module \<times> cfg) list" where
  "imports_of M_cache = [(M_resolver, Always), (M_node_fs, wasm_only)]"
| "imports_of M_content_type = []"
| "imports_of M_crypto = [(M_error, Always), (M_urn, Always)]"
| "imports_of M_error = []"
| "imports_of M_images = [(M_error, Always), (M_resolver, Always)]"
| "imports_of M_ladder = [(M_transport, Always)]"
| "imports_of M_node =
     [(M_cache, Always), (M_content_type, Always), (M_crypto, Always), (M_error, Always),
      (M_resolver, Always), (M_transport, Always), (M_urn, Always)]"
| "imports_of M_node_fs = []"
| "imports_of M_pages = []"
| "imports_of M_resolver =
     [(M_cache, Always), (M_error, Always), (M_ladder, Always), (M_pages, Always), (M_transport, Always),
      (M_urn, Always), (M_node, Always), (M_rpc, Always), (M_content_type, any_surface), (M_crypto, any_surface)]"
| "imports_of M_rpc =
     [(M_cache, Always), (M_content_type, Always), (M_crypto, Always), (M_error, Always),
      (M_resolver, Always), (M_transport, Always), (M_urn, Always)]"
| "imports_of M_transport = []"
| "imports_of M_urn = [(M_error, Always)]"
| "imports_of M_native = [(M_error, Always), (M_resolver, Always), (M_transport, Always)]"
| "imports_of M_wasm =
     [(M_error, Always), (M_resolver, Always), (M_transport, Always), (M_pages, Always), (M_images, Always)]"

lemmas compiled_simps = compiled_def declared_modules_def

text \<open>Closed: no combination of features leaves an import without its module.\<close>

lemma imports_compiled:
  assumes "compiled H m" and "(m', c) \<in> set (imports_of m)" and "cfg_holds H c"
  shows "compiled H m'"
  using assms by (cases m) (auto simp: compiled_simps)

lemma exports_compiled:
  assumes "(m, names) \<in> set re_exports"
  shows "compiled H m"
  using assms by (auto simp: re_exports_def compiled_simps)

lemma declared_once: "distinct (map fst declared_modules)"
  by (simp add: declared_modules_def)

text \<open>
  The Node file system is compiled exactly where the disk cache of the build is the Node backend, so
  the selection of \<open>DiskCache\<close> never names a missing module and never names two backends.
\<close>

lemma node_fs_iff_node_backend:
  "compiled H M_node_fs \<longleftrightarrow> has_disk H \<and> \<not> feature_native H"
  by (auto simp: compiled_simps has_disk_def)

lemma surface_has_disk: "compiled H M_native \<or> compiled H M_wasm \<longleftrightarrow> has_disk H"
  by (auto simp: compiled_simps has_disk_def)

section \<open>Optional libraries\<close>

datatype library =
    L_reqwest | L_tokio | L_url | L_wasm_bindgen | L_wasm_bindgen_futures | L_js_sys | L_web_sys
  | L_serde_wasm_bindgen

text \<open>The libraries a feature of \<open>Cargo.toml\<close> enables.\<close>

primrec feature_libraries :: "feature \<Rightarrow> library list" where
  "feature_libraries F_native = [L_reqwest, L_tokio, L_url]"
| "feature_libraries F_wasm =
     [L_wasm_bindgen, L_wasm_bindgen_futures, L_js_sys, L_web_sys, L_serde_wasm_bindgen]"

definition library_enabled :: "host \<Rightarrow> library \<Rightarrow> bool" where
  "library_enabled H l \<longleftrightarrow>
     (feature_native H \<and> l \<in> set (feature_libraries F_native)) \<or> (feature_wasm H \<and> l \<in> set (feature_libraries F_wasm))"

text \<open>The optional libraries a module uses, under the \<open>cfg\<close> at the use.\<close>

fun libraries_of :: "crate_module \<Rightarrow> (library \<times> cfg) list" where
  "libraries_of M_ladder = [(L_url, Feature F_native), (L_web_sys, wasm_only)]"
| "libraries_of M_node_fs = [(L_js_sys, Always), (L_wasm_bindgen, Always)]"
| "libraries_of M_native = [(L_reqwest, Always), (L_tokio, Always)]"
| "libraries_of M_wasm =
     [(L_wasm_bindgen, Always), (L_wasm_bindgen_futures, Always), (L_js_sys, Always), (L_web_sys, Always),
      (L_serde_wasm_bindgen, Always)]"
| "libraries_of _ = []"

lemma libraries_are_enabled:
  assumes "compiled H m" and "(l, c) \<in> set (libraries_of m)" and "cfg_holds H c"
  shows "library_enabled H l"
  using assms by (cases m) (auto simp: compiled_simps library_enabled_def)

end
