(* ===== verification/Examples.thy ===== *)
theory Examples
  imports Images HonestNetwork
begin

text \<open>
  The two example programs under \<open>src/examples\<close>: the authoring tool that writes the SVG sources of
  the error images, and the demo of the NFT image path, which resolves a URN against a gateway of
  its own.
\<close>

section \<open>Rendering the error images\<close>

text \<open>
  \<open>render_error_images.rs\<close>.  A file operation either works or fails with an error text, which may
  depend on everything before it; a failure panics.  Lines printed are not modelled.
\<close>

type_synonym fs_try = "history \<Rightarrow> event \<Rightarrow> string option"

definition try_fs :: "fs_try \<Rightarrow> event \<Rightarrow> string \<Rightarrow> history \<Rightarrow> string option \<times> history" where
  "try_fs fs e msg h = (map_option (\<lambda>err. msg @ '': '' @ err) (fs h e), h @ [e])"

definition image_slugs :: "(error_image \<times> string) list" where
  "image_slugs =
     [(Img_Integrity, ''integrity''), (Img_Unreachable, ''unreachable''), (Img_NotFound, ''not-found''),
      (Img_InvalidUrn, ''invalid-urn''), (Img_Generic, ''generic'')]"

definition svg_path :: "string \<Rightarrow> string" where
  "svg_path slug = ''assets/error-'' @ slug @ ''.svg''"

fun write_images :: "fs_try \<Rightarrow> (error_image \<times> string) list \<Rightarrow> history \<Rightarrow> string option \<times> history" where
  "write_images fs [] h = (None, h)"
| "write_images fs ((kind, slug) # rest) h =
     (case try_fs fs (FsWrite (svg_path slug) (str_bytes (svg kind))) ''write svg'' h of
        (Some panic, h') \<Rightarrow> (Some panic, h')
      | (None, h') \<Rightarrow> write_images fs rest h')"

definition render_error_images :: "fs_try \<Rightarrow> history \<Rightarrow> string option \<times> history" where
  "render_error_images fs h =
     (case try_fs fs (FsMkdir ''assets'') ''create assets/'' h of
        (Some panic, h') \<Rightarrow> (Some panic, h')
      | (None, h') \<Rightarrow> write_images fs image_slugs h')"

lemma write_images_done:
  "write_images fs ks h = (None, h') \<Longrightarrow>
     h' = h @ map (\<lambda>(kind, slug). FsWrite (svg_path slug) (str_bytes (svg kind))) ks"
proof (induction ks arbitrary: h)
  case Nil
  then show ?case by simp
next
  case (Cons x ks)
  obtain kind slug where x: "x = (kind, slug)" by fastforce
  let ?e = "FsWrite (svg_path slug) (str_bytes (svg kind))"
  have "write_images fs ks (h @ [?e]) = (None, h')"
    using Cons.prems x by (auto simp: try_fs_def split: option.splits)
  from Cons.IH [OF this] x show ?case by simp
qed

definition asset_stem :: "error_image \<Rightarrow> string" where
  "asset_stem kind = ''assets/error-'' @ the (map_of image_slugs kind)"

text \<open>
  The authoring tool and the crate agree on the asset names: when the tool ends without a
  panic, then for every kind of error image the file \<open>assets/error-<slug>.svg\<close> holds exactly
  that kind's SVG, and what the crate embeds for the kind is the PNG of the same stem.
\<close>

theorem rendered_sources_match_assets:
  assumes "render_error_images fs h = (None, h')"
  shows "files_after h' (asset_stem kind @ ''.svg'') = Some (str_bytes (svg kind)) \<and>
    (\<forall>assets. png assets kind = assets (''../'' @ asset_stem kind @ ''.png''))"
proof
  have "h' = (h @ [FsMkdir ''assets'']) @ map (\<lambda>(kind, slug). FsWrite (svg_path slug) (str_bytes (svg kind))) image_slugs"
    using assms write_images_done [of fs image_slugs "h @ [FsMkdir ''assets'']" h']
    by (auto simp: render_error_images_def try_fs_def split: option.splits)
  then show "files_after h' (asset_stem kind @ ''.svg'') = Some (str_bytes (svg kind))"
    by (cases kind) (simp_all add: files_after_def image_slugs_def asset_stem_def svg_path_def)
  show "\<forall>assets. png assets kind = assets (''../'' @ asset_stem kind @ ''.png'')"
    by (cases kind) (simp_all add: asset_stem_def image_slugs_def)
qed

lemma rendered_sources_match_assets_witness:
  "\<exists>h'. render_error_images (\<lambda>h e. None) [] = (None, h') \<and>
     files_after h' (''assets/error-generic'' @ ''.svg'') = Some (str_bytes (svg Img_Generic))"
proof -
  obtain h' where h': "render_error_images (\<lambda>h e. None) [] = (None, h')"
    by (simp add: render_error_images_def try_fs_def image_slugs_def)
  from rendered_sources_match_assets [OF h', of Img_Generic] h' show ?thesis
    by (simp add: asset_stem_def image_slugs_def)
qed

section \<open>The NFT image demo\<close>

text \<open>
  \<open>sage_nft_image.rs\<close>.  The functions of \<open>digstore_core\<close> that only the demo calls are parameters:
  encryption of a chunk, and the root and a proof of the merkle tree of some leaves.
\<close>

record demo_store =
  ds_encrypt_chunk :: "bytes \<Rightarrow> bytes \<Rightarrow> bytes"
  ds_root_hex :: "bytes list \<Rightarrow> string"
  ds_prove :: "bytes list \<Rightarrow> nat \<Rightarrow> bytes option"

definition STORE_HEX :: string where
  "STORE_HEX = ''abababababababababababababababababababababababababababababababab''"

definition KEY :: string where
  "KEY = ''nft/image.png''"

definition PNG :: bytes where
  "PNG = [0x89, 0x50, 0x4E, 0x47, 0x0D, 0x0A, 0x1A, 0x0A, 97, 114, 116]"

record sage_transport =
  dt_ciphertext_b64 :: string
  dt_proof_b64 :: string
  dt_total :: u64

definition sage_get :: "transport_error + http_response" where
  "sage_get = Inl (TransportError ''no local dig-node (connection refused)'')"

definition sage_document :: "u64 \<Rightarrow> string \<Rightarrow> string \<Rightarrow> json" where
  "sage_document tot ct pf =
     JObject [(''jsonrpc'', JString ''2.0''), (''id'', JNumber (PosInt 1)),
       (''result'', JObject
         [(''total_length'', JNumber (PosInt tot)), (''offset'', JNumber (PosInt 0)),
          (''next_offset'', JNull), (''complete'', JBool True), (''ciphertext'', JString ct),
          (''inclusion_proof'', JString pf), (''chunk_lens'', JArray [JNumber (PosInt tot)])])]"

definition sage_post_json :: "('u, 'm) crates \<Rightarrow> sage_transport \<Rightarrow> transport_error + http_response" where
  "sage_post_json K D =
     Inr \<lparr>status = 200, headers = [(''content-type'', ''application/json'')],
          body = str_bytes (sj_to_string K (sage_document (dt_total D) (dt_ciphertext_b64 D) (dt_proof_b64 D)))\<rparr>"

fun sage_net :: "('u, 'm) crates \<Rightarrow> sage_transport \<Rightarrow> transport" where
  "sage_net K D h (HttpGet url) = sage_get"
| "sage_net K D h (HttpPost url bdy) = sage_post_json K D"
| "sage_net K D h _ = Inl (TransportError [])"

text \<open>How the demo can end: with the content, or with one of its panics.\<close>

datatype sage_end =
    Resolved_as resolved_data
  | No_proof
  | Wrong_bytes resolved_data
  | Not_resolved resolve_outcome
  | Resolve_failed resolve_error

definition sage_canonical :: string where
  "sage_canonical = ''urn:dig:chia:'' @ STORE_HEX @ ''/'' @ KEY"

definition sage_urn :: "string \<Rightarrow> string" where
  "sage_urn root = ''urn:dig:chia:'' @ STORE_HEX @ '':'' @ root @ ''/'' @ KEY"

definition sage_main :: "('u, 'm) crates \<Rightarrow> demo_store \<Rightarrow> host \<Rightarrow> history \<Rightarrow> sage_end" where
  "sage_main K S H h =
     (let key = dc_derive_decryption_key K sage_canonical None;
          ct = ds_encrypt_chunk S key PNG;
          leaves = [dc_resource_leaf K ct]
      in case ds_prove S leaves 0 of
           None \<Rightarrow> No_proof
         | Some proof \<Rightarrow>
            (let D = \<lparr>dt_ciphertext_b64 = b64_encode K ct, dt_proof_b64 = b64_encode K proof,
                      dt_total = word_of_nat (length ct)\<rparr>;
                 H' = H\<lparr>transport := sage_net K D\<rparr>
             in case resolver_new H' h of
                  (R, h1) \<Rightarrow>
                    (case fst (resolve K H' R (sage_urn (ds_root_hex S leaves)) h1) of
                       Inr (Success d) \<Rightarrow> if rd_bytes d = PNG then Resolved_as d else Wrong_bytes d
                     | Inr oc \<Rightarrow> Not_resolved oc
                     | Inl e \<Rightarrow> Resolve_failed e)))"

section \<open>What the demo relies on\<close>

definition hex64 :: "string \<Rightarrow> bool" where
  "hex64 s \<longleftrightarrow> length s = 64 \<and> list_all is_hex_digit s"

text \<open>A resource key of letters, digits, slashes, dots, dashes and underscores only.\<close>

definition plain_key :: "string \<Rightarrow> bool" where
  "plain_key key \<longleftrightarrow> key \<noteq> [] \<and>
     list_all (\<lambda>c. c \<in> set ''abcdefghijklmnopqrstuvwxyzABCDEFGHIJKLMNOPQRSTUVWXYZ0123456789/.-_'') key"

text \<open>\<open>dig_urn_protocol\<close> reads a pinned URN: its parts, and the rootless canonical form.\<close>

definition pinned_urn_contract :: "('u, 'm) crates \<Rightarrow> bool" where
  "pinned_urn_contract K \<longleftrightarrow>
     (\<forall>store root key. hex64 store \<and> hex64 root \<and> plain_key key \<longrightarrow>
        (\<exists>u. du_parse_with_salt K (''urn:dig:chia:'' @ store @ '':'' @ root @ ''/'' @ key) = Inr (u, None) \<and>
           du_root_hex K u = Some root \<and> du_effective_resource_key K u = key \<and>
           du_canonical K (du_canonical_rootless K u) = ''urn:dig:chia:'' @ store @ ''/'' @ key))"

text \<open>The merkle tree of one leaf: its root in hex, and a proof that decodes, folds, and names both.\<close>

definition merkle_contract :: "('u, 'm) crates \<Rightarrow> demo_store \<Rightarrow> bool" where
  "merkle_contract K S \<longleftrightarrow>
     (\<forall>leaf. hex64 (ds_root_hex S [leaf]) \<and>
        (\<exists>wire m. ds_prove S [leaf] 0 = Some wire \<and> mp_from_bytes K wire = Some m \<and> mp_verify K m \<and>
           mp_leaf K m = leaf \<and> b32_from_hex K (trim (ds_root_hex S [leaf])) = Some (mp_root K m)))"

text \<open>Authenticated encryption: a chunk opens under its key, and grows by at most 64 bytes.\<close>

definition chunk_contract :: "('u, 'm) crates \<Rightarrow> demo_store \<Rightarrow> bool" where
  "chunk_contract K S \<longleftrightarrow>
     (\<forall>key pt. let ct = ds_encrypt_chunk S key pt
        in dc_decrypt_chunk K key ct = Some pt \<and> length pt \<le> length ct \<and> length ct \<le> length pt + 64)"

text \<open>The gate accepts what is included under the root and opens, as a single chunk of its length.\<close>

definition gate_complete :: "('u, 'm) crates \<Rightarrow> bool" where
  "gate_complete K \<longleftrightarrow>
     (\<forall>C u s ct wire f pt.
        cc_decode_and_fold C wire = Some f \<and> fp_leaf f = dc_resource_leaf K ct \<and>
        cc_decrypt_chunk C u s ct = Some pt \<and> length ct < 2 ^ 32 \<longrightarrow>
        pv_verify_and_decrypt K C u s ct wire (fp_root f) [word_of_nat (length ct)] = Inr pt)"

text \<open>\<open>serde_json\<close> reads back the document it wrote, with the fields it was given.\<close>

definition document_contract :: "('u, 'm) crates \<Rightarrow> bool" where
  "document_contract K \<longleftrightarrow>
     (\<forall>tot ct pf. tot < 2 ^ 32 \<longrightarrow>
        (\<exists>env r. sj_value_from_slice K (str_bytes (sj_to_string K (sage_document tot ct pf))) = Inr env \<and>
           json_get ''error'' env = None \<and> json_get ''result'' env = Some r \<and>
           sj_get_content K r = Inr \<lparr>gc_total_length = tot, gc_offset = 0, gc_next_offset = None,
             gc_complete = Some True, gc_ciphertext = Some ct, gc_inclusion_proof = Some pf,
             gc_chunk_lens = Some [ucast tot]\<rparr>))"

lemma store_hex64: "hex64 STORE_HEX"
  by (simp add: hex64_def STORE_HEX_def is_hex_digit_def)

lemma key_plain: "plain_key KEY"
  by (simp add: plain_key_def KEY_def)

lemma sage_honest:
  assumes "document_contract K" and "0 < length ct" and "length ct \<le> 75"
    and "transport H = sage_net K \<lparr>dt_ciphertext_b64 = b64_encode K ct, dt_proof_b64 = wire,
           dt_total = word_of_nat (length ct)\<rparr>"
  shows "honest_gateway K H base p root ct wire [word_of_nat (length ct)]"
proof -
  let ?n = "word_of_nat (length ct) :: u64"
  let ?r = "\<lparr>gc_total_length = ?n, gc_offset = 0, gc_next_offset = None, gc_complete = Some True,
      gc_ciphertext = Some (b64_encode K ct), gc_inclusion_proof = Some wire, gc_chunk_lens = Some [ucast ?n]\<rparr>"
  have n: "unat ?n = length ct" using assms(3) by (intro unat_small) simp
  have small: "?n < 2 ^ 32" using n assms(3) by (simp add: word_less_nat_alt)
  have cast: "(ucast ?n :: u32) = word_of_nat (length ct)"
    using n by (metis of_nat_unat)
  from assms(1) small obtain env r where
      "sj_value_from_slice K (str_bytes (sj_to_string K (sage_document ?n (b64_encode K ct) wire))) = Inr env"
      "json_get ''error'' env = None" "json_get ''result'' env = Some r" "sj_get_content K r = Inr ?r"
    unfolding document_contract_def by blast
  then have "rpc_result K (sj_get_content K) ''dig.getContent''
      \<lparr>status = 200, headers = [(''content-type'', ''application/json'')],
       body = str_bytes (sj_to_string K (sage_document ?n (b64_encode K ct) wire))\<rparr> = Inr ?r"
    by (simp add: rpc_result_def is_success_def)
  then have call: "fst (rpc_call K H (sj_get_content K) base ''dig.getContent'' params h) = Inr ?r" for params h
    using assms(4) by (simp add: rpc_call_eq sage_post_json_def)
  have "honest_window K ct wire [word_of_nat (length ct)] 0 ?r"
    using assms(3) cast by (simp add: honest_window_def)
  moreover have "i * unat RPC_WINDOW_BYTES < length ct \<longleftrightarrow> i = 0" for i
    using assms(2,3) by auto
  ultimately show ?thesis unfolding honest_gateway_def call by simp
qed

lemma sage_gate:
  assumes "b64_roundtrip K" and "gate_complete K" and "mp_from_bytes K wire = Some m" and "mp_verify K m"
    and "mp_leaf K m = dc_resource_leaf K ct" and "b32_from_hex K (trim root) = Some (mp_root K m)"
    and "salt p = None" and "dc_decrypt_chunk K (urn_key K p None) ct = Some pt" and "length ct < 2 ^ 32"
  shows "verify_and_decrypt K p ct (b64_encode K wire) root [word_of_nat (length ct)] = Inr pt"
proof -
  let ?C = "digstore_crypto K" and ?f = "\<lparr>fp_leaf = mp_leaf K m, fp_root = mp_root K m\<rparr>"
  have "cc_decode_and_fold ?C wire = Some ?f" using assms(3,4) by (simp add: digstore_fold_Some)
  moreover have "cc_decrypt_chunk ?C (urn p) None ct = Some pt"
    using assms(8) by (simp add: digstore_crypto_def urn_key_def Let_def)
  ultimately have "pv_verify_and_decrypt K ?C (urn p) None ct wire (fp_root ?f) [word_of_nat (length ct)] = Inr pt"
    using assms(2,5,9) unfolding gate_complete_def by fastforce
  then show ?thesis
    using assms(1,6,7)
    by (simp add: verify_and_decrypt_def parse_salt_def parse_trusted_root_def decode_proof_b64_def
        map_result_def b64_roundtrip_def)
qed

lemma sage_ciphertext:
  assumes "chunk_contract K S"
  shows "0 < length (ds_encrypt_chunk S key PNG)" and "length (ds_encrypt_chunk S key PNG) \<le> 75"
    and "dc_decrypt_chunk K key (ds_encrypt_chunk S key PNG) = Some PNG"
proof -
  let ?ct = "ds_encrypt_chunk S key PNG"
  have "dc_decrypt_chunk K key ?ct = Some PNG \<and> length PNG \<le> length ?ct \<and> length ?ct \<le> length PNG + 64"
    using assms unfolding chunk_contract_def Let_def by blast
  moreover have "length PNG = 11" by (simp add: PNG_def)
  ultimately show "0 < length ?ct" "length ?ct \<le> 75" "dc_decrypt_chunk K key ?ct = Some PNG" by linarith+
qed

lemma sage_parsed:
  assumes "pinned_urn_contract K" and "hex64 root"
  obtains u where "parse_urn K (sage_urn root) = Inr \<lparr>urn = u, salt = None\<rparr>"
    and "root_hex K \<lparr>urn = u, salt = None\<rparr> = Some root" and "resource_key K \<lparr>urn = u, salt = None\<rparr> = KEY"
    and "du_canonical K (du_canonical_rootless K u) = sage_canonical"
proof -
  from assms store_hex64 key_plain obtain u where "du_parse_with_salt K (sage_urn root) = Inr (u, None)"
    "du_root_hex K u = Some root" "du_effective_resource_key K u = KEY"
    "du_canonical K (du_canonical_rootless K u) = sage_canonical"
    unfolding pinned_urn_contract_def sage_urn_def sage_canonical_def by blast
  then show thesis by (intro that) (simp_all add: parse_urn_def root_hex_def resource_key_def)
qed

text \<open>
  C36. The demo does what it says: with no local node, its root-pinned URN resolves through the
  gateway it plays, the client verifies and decrypts what the demo encrypted, and the program
  ends with the image bytes, typed as a PNG by the name of the resource, and not in a panic.
\<close>

theorem sage_demo_resolves:
  assumes "pinned_urn_contract K" and "merkle_contract K S" and "chunk_contract K S" and "gate_complete K"
    and "document_contract K" and "b64_roundtrip K"
  shows "sage_main K S H h = Resolved_as \<lparr>rd_bytes = PNG, rd_content_type = ''image/png''\<rparr>"
proof -
  let ?key = "dc_derive_decryption_key K sage_canonical None"
  let ?ct = "ds_encrypt_chunk S ?key PNG"
  let ?leaves = "[dc_resource_leaf K ?ct]"
  let ?root = "ds_root_hex S ?leaves"
  obtain wire m where prove: "ds_prove S ?leaves 0 = Some wire" and root: "hex64 ?root"
    and m: "mp_from_bytes K wire = Some m" "mp_verify K m" "mp_leaf K m = dc_resource_leaf K ?ct"
      "b32_from_hex K (trim ?root) = Some (mp_root K m)"
    using assms(2) unfolding merkle_contract_def by blast
  let ?D = "\<lparr>dt_ciphertext_b64 = b64_encode K ?ct, dt_proof_b64 = b64_encode K wire, dt_total = word_of_nat (length ?ct)\<rparr>"
  let ?H = "H\<lparr>transport := sage_net K ?D\<rparr>"
  note ct = sage_ciphertext [OF assms(3), of ?key]
  obtain u where p: "parse_urn K (sage_urn ?root) = Inr \<lparr>urn = u, salt = None\<rparr>"
    "root_hex K \<lparr>urn = u, salt = None\<rparr> = Some ?root" "resource_key K \<lparr>urn = u, salt = None\<rparr> = KEY"
    and key: "du_canonical K (du_canonical_rootless K u) = sage_canonical"
    by (rule sage_parsed [OF assms(1) root])
  let ?p = "\<lparr>urn = u, salt = None\<rparr>"
  have "verify_and_decrypt K ?p ?ct (b64_encode K wire) ?root [word_of_nat (length ?ct)] = Inr PNG"
    by (rule sage_gate [OF assms(6,4) m]) (use ct key in \<open>simp_all add: urn_key_def\<close>)
  moreover have "honest_gateway K ?H base ?p ?root ?ct (b64_encode K wire) [word_of_nat (length ?ct)]" for base
    by (rule sage_honest [OF assms(5) ct(1,2)]) simp
  moreover obtain R where new: "resolver_new ?H h = (R, h)" and ses: "session K ?H default_options R h"
    and empty: "mc_stored (r_memory R) = Map.empty" "r_disk R = None"
    using session.opened [of ?H default_options h] 
    by (auto simp: resolver_new_def with_options_def default_options_def)
  moreover have "gateway_last K ?H default_options" by (simp add: gateway_last_def default_options_def)
  moreover have "no_local_node ?H" by (simp add: no_local_node_def sage_get_def)
  ultimately have "fst (resolve K ?H R (sage_urn ?root) h) =
      Inr (Success (resolved_data_new PNG (derive (resource_key K ?p) PNG)))"
    using ct(1,2) p(1,2) by (intro gateway_resolves [OF ses _ _ p(1,2) _ _ assms(6)]) auto
  moreover have "derive (resource_key K ?p) PNG = ''image/png''"
    unfolding p(3) by code_simp
  ultimately show ?thesis
    using prove new unfolding sage_main_def Let_def by (simp add: resolved_data_new_def)
qed

section \<open>An instance\<close>

text \<open>
  The crates of the witnesses, with a URN parser for the canonical form, a one-leaf merkle tree
  whose root is \<open>bb...b\<close>, an encryption that puts the first key byte in front, and a document
  format of three fields.
\<close>

definition sage_parse :: "string \<Rightarrow> string + demo_urn \<times> string option" where
  "sage_parse s =
     Inr (\<lparr>d_chain = ''chia'', d_store = take 64 (drop 13 s), d_root = Some (take 64 (drop 78 s)),
           d_key = drop 143 s\<rparr>, None)"

definition first_byte :: "bytes \<Rightarrow> bytes" where
  "first_byte key = take 1 (key @ [0])"

definition sage_open :: "bytes \<Rightarrow> bytes \<Rightarrow> bytes option" where
  "sage_open key ct = (if take 1 ct = first_byte key then Some (drop 1 ct) else None)"

definition enc_u64 :: "u64 \<Rightarrow> bytes" where
  "enc_u64 w = map (\<lambda>i. if bit w i then 1 else 0) [0..<64]"

definition dec_u64 :: "bytes \<Rightarrow> u64" where
  "dec_u64 b = horner_sum of_bool 2 (map (\<lambda>x. x \<noteq> 0) b)"

definition sage_write :: "json \<Rightarrow> string" where
  "sage_write j =
     (case Option.bind (json_get ''result'' j) (\<lambda>r.
         Some (json_get ''total_length'' r, json_get ''ciphertext'' r, json_get ''inclusion_proof'' r)) of
        Some (Some (JNumber (PosInt n)), Some (JString c), Some (JString p)) \<Rightarrow>
          bytes_str (enc_lists [enc_u64 n, str_bytes c, str_bytes p])
      | _ \<Rightarrow> [])"

definition sage_read :: "bytes \<Rightarrow> string + json" where
  "sage_read b =
     (case dec_lists [] b of
        [n, c, p] \<Rightarrow> Inr (JObject [(''result'',
          JArray [JNumber (PosInt (dec_u64 n)), JString (bytes_str c), JString (bytes_str p)])])
      | _ \<Rightarrow> Inl ''EOF'')"

fun sage_get_content :: "json \<Rightarrow> string + get_content" where
  "sage_get_content (JArray [JNumber (PosInt n), JString c, JString p]) =
     Inr \<lparr>gc_total_length = n, gc_offset = 0, gc_next_offset = None, gc_complete = Some True,
          gc_ciphertext = Some c, gc_inclusion_proof = Some p, gc_chunk_lens = Some [ucast n]\<rparr>"
| "sage_get_content _ = Inl ''invalid type''"

definition sage_root :: string where
  "sage_root = replicate 64 CHR ''b''"

definition sage_crates :: "(demo_urn, bytes) crates" where
  "sage_crates = demo_crates
     \<lparr>du_parse_with_salt := sage_parse,
      du_canonical := (\<lambda>u. ''urn:dig:chia:'' @ d_store u @ ''/'' @ d_key u),
      b32_from_hex := (\<lambda>s. if s = sage_root then Some [0xBB] else None),
      dc_decrypt_chunk := sage_open,
      sj_value_from_slice := sage_read,
      sj_to_string := sage_write,
      sj_get_content := sage_get_content\<rparr>"

definition sage_store :: demo_store where
  "sage_store =
     \<lparr>ds_encrypt_chunk = (\<lambda>key pt. first_byte key @ pt), ds_root_hex = (\<lambda>leaves. sage_root),
      ds_prove = (\<lambda>leaves n. Some (0xBB # leaves ! n))\<rparr>"

lemma dec_enc_u64: "dec_u64 (enc_u64 w) = w"
proof -
  have "map (\<lambda>x. x \<noteq> 0) (enc_u64 w) = map (bit w) [0..<64]"
    by (auto simp: enc_u64_def)
  then show ?thesis
    by (simp add: dec_u64_def horner_sum_bit_eq_take_bit take_bit_word_eq_self)
qed

lemma first_byte_length [simp]: "length (first_byte key) = 1"
  by (cases key) (simp_all add: first_byte_def)

lemma sage_pinned: "pinned_urn_contract sage_crates"
  unfolding pinned_urn_contract_def
proof (intro allI impI)
  fix store root key :: string
  assume a: "hex64 store \<and> hex64 root \<and> plain_key key"
  let ?s = "''urn:dig:chia:'' @ store @ '':'' @ root @ ''/'' @ key"
  have "sage_parse ?s = Inr (\<lparr>d_chain = ''chia'', d_store = store, d_root = Some root, d_key = key\<rparr>, None)"
    using a by (simp add: sage_parse_def hex64_def)
  with a show "\<exists>u. du_parse_with_salt sage_crates ?s = Inr (u, None) \<and> du_root_hex sage_crates u = Some root \<and>
      du_effective_resource_key sage_crates u = key \<and>
      du_canonical sage_crates (du_canonical_rootless sage_crates u) = ''urn:dig:chia:'' @ store @ ''/'' @ key"
    by (simp add: sage_crates_def demo_crates_def plain_key_def)
qed

lemma sage_merkle: "merkle_contract sage_crates sage_store"
proof -
  have "hex64 sage_root" by (simp add: hex64_def sage_root_def is_hex_digit_def list_all_iff)
  moreover have "trim sage_root = sage_root"
    by (rule trim_plain) (simp add: sage_root_def plain_host_def plain_char_def list_all_iff)
  ultimately show ?thesis
    by (simp add: merkle_contract_def sage_store_def sage_crates_def demo_crates_def)
qed

lemma sage_chunk: "chunk_contract sage_crates sage_store"
  by (simp add: chunk_contract_def sage_store_def sage_crates_def sage_open_def)

lemma sage_gate_complete: "gate_complete sage_crates"
  by (auto simp: gate_complete_def sage_crates_def demo_crates_def demo_pv_verify_and_decrypt_def
      demo_pv_verify_def demo_pv_decrypt_def unat_of_nat take_bit_nat_eq_self)

lemma sage_json: "document_contract sage_crates"
proof -
  have "sage_read (str_bytes (sage_write (sage_document tot ct pf))) =
      Inr (JObject [(''result'', JArray [JNumber (PosInt tot), JString ct, JString pf])])" for tot ct pf
    by (simp add: sage_write_def sage_document_def sage_read_def dec_enc_lists dec_enc_u64)
  then show ?thesis by (simp add: document_contract_def sage_crates_def)
qed

lemma sage_b64: "b64_roundtrip sage_crates"
  using demo_b64 by (simp add: b64_roundtrip_def sage_crates_def)

lemma sage_demo_resolves_witness:
  "\<exists>d. sage_main sage_crates sage_store (demo_host net_down) [] = Resolved_as d \<and> rd_bytes d = PNG"
  using sage_demo_resolves [OF sage_pinned sage_merkle sage_chunk sage_gate_complete sage_json sage_b64,
      of "demo_host net_down" "[]"] by simp

end
