(* ===== verification/TestKit.thy ===== *)
theory TestKit
  imports Transparent HonestNetwork Examples UnitTests
begin

text \<open>
  What the integration tests share: the programmable transport and the fixtures of
  \<open>src/tests/common/mod.rs\<close>, a run of one resolve over it, and the documented behaviour of the
  libraries the tests go through.  A closure that panics is a request without an answer, and a run
  in which one is made has no result.
\<close>

section \<open>The mock transport\<close>

record mock_transport =
  get_fn :: "string \<Rightarrow> (transport_error + http_response) option"
  post_fn :: "string \<Rightarrow> string \<Rightarrow> (transport_error + http_response) option"

fun mock_call :: "mock_transport \<Rightarrow> event \<Rightarrow> (transport_error + http_response) option" where
  "mock_call M (HttpGet url) = get_fn M url"
| "mock_call M (HttpPost url bdy) = post_fn M url bdy"
| "mock_call M _ = None"

definition transport_err :: transport_error where
  "transport_err = TransportError ''connection refused''"

definition mock_net :: "mock_transport \<Rightarrow> transport" where
  "mock_net M h e = (case mock_call M e of Some a \<Rightarrow> a | None \<Rightarrow> Inl transport_err)"

definition on_mock :: "host \<Rightarrow> mock_transport \<Rightarrow> host" where
  "on_mock H M = H\<lparr>transport := mock_net M\<rparr>"

text \<open>\<open>Resolver::with_options(t, opts).resolve(urn)\<close>, unless a closure panics on the way.\<close>

definition resolve_on ::
    "('u, 'm) crates \<Rightarrow> host \<Rightarrow> mock_transport \<Rightarrow> resolver \<Rightarrow> string \<Rightarrow> history
      \<Rightarrow> (outcome \<times> resolver \<times> history) option" where
  "resolve_on K H M R s h =
     (case resolve K (on_mock H M) R s h of
        (r, R', h') \<Rightarrow>
          if list_all (\<lambda>e. is_http e \<longrightarrow> mock_call M e \<noteq> None) (drop (length h) h') then Some (r, R', h') else None)"

definition run_mock ::
    "('u, 'm) crates \<Rightarrow> host \<Rightarrow> mock_transport \<Rightarrow> resolve_options \<Rightarrow> string \<Rightarrow> outcome option" where
  "run_mock K H M opts s =
     (case with_options (on_mock H M) opts [] of
        (R, h) \<Rightarrow> map_option fst (resolve_on K H M R s h))"

section \<open>Responses\<close>

definition mock_ok :: "bytes \<Rightarrow> string option \<Rightarrow> http_response" where
  "mock_ok b ct =
     \<lparr>status = 200, headers = (case ct of Some c \<Rightarrow> [(''content-type'', c)] | None \<Rightarrow> []), body = b\<rparr>"

definition node_response :: "bytes \<Rightarrow> string option \<Rightarrow> bool \<Rightarrow> http_response" where
  "node_response b ct verified =
     (let resp = mock_ok b ct
      in if verified then resp\<lparr>headers := headers resp @ [(''x-dig-verified'', ''true'')]\<rparr> else resp)"

definition mock_status :: "u16 \<Rightarrow> http_response" where
  "mock_status code = \<lparr>status = code, headers = [], body = []\<rparr>"

definition rpc_document :: "json \<Rightarrow> json" where
  "rpc_document result =
     JObject [(''jsonrpc'', JString ''2.0''), (''id'', JNumber (PosInt 1)), (''result'', result)]"

definition rpc_ok :: "('u, 'm) crates \<Rightarrow> json \<Rightarrow> http_response" where
  "rpc_ok K result = mock_ok (str_bytes (sj_to_string K (rpc_document result))) (Some ''application/json'')"

section \<open>Fixtures\<close>

record rpc_fixture =
  fx_root_hex :: string
  fx_ciphertext_b64 :: string
  fx_proof_b64 :: string
  fx_chunk_lens :: "u32 list"
  fx_total_length :: u64

definition canonical_of :: "string \<Rightarrow> string" where
  "canonical_of key = ''urn:dig:chia:'' @ STORE_HEX @ ''/'' @ key"

text \<open>\<open>None\<close> where the fixture builder unwraps an error: a salt that is not hex, or no proof.\<close>

definition build_fixture ::
    "('u, 'm) crates \<Rightarrow> demo_store \<Rightarrow> string \<Rightarrow> bytes \<Rightarrow> string option \<Rightarrow> rpc_fixture option" where
  "build_fixture K S key plaintext salt_hex =
     (case (case salt_hex of None \<Rightarrow> Some None | Some s \<Rightarrow> map_option Some (b32_from_hex K s)) of
        None \<Rightarrow> None
      | Some sl \<Rightarrow>
         (let ct = ds_encrypt_chunk S (dc_derive_decryption_key K (canonical_of key) sl) plaintext;
              leaves = [dc_resource_leaf K ct]
          in case ds_prove S leaves 0 of
               None \<Rightarrow> None
             | Some proof \<Rightarrow>
                 Some \<lparr>fx_root_hex = ds_root_hex S leaves, fx_ciphertext_b64 = b64_encode K ct,
                       fx_proof_b64 = b64_encode K proof, fx_chunk_lens = [word_of_nat (length ct)],
                       fx_total_length = word_of_nat (length ct)\<rparr>))"

definition get_content_result :: "rpc_fixture \<Rightarrow> json" where
  "get_content_result fx =
     JObject [(''total_length'', JNumber (PosInt (fx_total_length fx))), (''offset'', JNumber (PosInt 0)),
       (''next_offset'', JNull), (''complete'', JBool True), (''ciphertext'', JString (fx_ciphertext_b64 fx)),
       (''inclusion_proof'', JString (fx_proof_b64 fx)),
       (''chunk_lens'', JArray (map (\<lambda>n. JNumber (PosInt (ucast n))) (fx_chunk_lens fx)))]"

definition node_ciphertext_response :: "('u, 'm) crates \<Rightarrow> rpc_fixture \<Rightarrow> http_response option" where
  "node_ciphertext_response K fx =
     map_option (\<lambda>b.
       \<lparr>status = 200,
        headers = [(''x-dig-encrypted'', ''true''), (''x-dig-inclusion-proof'', fx_proof_b64 fx),
                   (''x-dig-root'', fx_root_hex fx), (''x-dig-chunk-lens'', show_chunk_lens (fx_chunk_lens fx))],
        body = b\<rparr>)
       (b64_decode K (str_bytes (trim (fx_ciphertext_b64 fx))))"

section \<open>The libraries\<close>

text \<open>\<open>dig_urn_protocol\<close> on the URNs of the tests: bare, rootless, pinned, with a salt, and no URN.\<close>

definition rootless_urn :: "string \<Rightarrow> string" where
  "rootless_urn key = ''urn:dig:chia:'' @ STORE_HEX @ ''/'' @ key"

definition root_pinned_urn :: "string \<Rightarrow> string \<Rightarrow> string" where
  "root_pinned_urn key root = ''urn:dig:chia:'' @ STORE_HEX @ '':'' @ root @ ''/'' @ key"

definition with_salt :: "string \<Rightarrow> string \<Rightarrow> string" where
  "with_salt u sl = u @ ''?salt='' @ sl"

definition reads_as :: "('u, 'm) crates \<Rightarrow> 'u \<Rightarrow> string option \<Rightarrow> string \<Rightarrow> bool" where
  "reads_as K u root key \<longleftrightarrow>
     du_store_id_hex K u = STORE_HEX \<and> du_root_hex K u = root \<and> du_effective_resource_key K u = key"

definition keyed_as :: "('u, 'm) crates \<Rightarrow> 'u \<Rightarrow> string \<Rightarrow> bool" where
  "keyed_as K u key \<longleftrightarrow> du_canonical K (du_canonical_rootless K u) = canonical_of key"

definition urn_contract :: "('u, 'm) crates \<Rightarrow> bool" where
  "urn_contract K \<longleftrightarrow>
     (\<exists>m. du_parse_with_salt K ''not-a-urn'' = Inl m) \<and>
     (\<exists>u. du_parse_with_salt K (''urn:dig:chia:'' @ STORE_HEX) = Inr (u, None) \<and> reads_as K u None ''index.html'') \<and>
     (\<forall>root key sl. hex64 root \<and> plain_key key \<and> hex64 sl \<longrightarrow>
        (\<exists>u v. reads_as K u (Some root) key \<and> keyed_as K u key \<and> reads_as K v None key \<and> keyed_as K v key \<and>
           du_parse_with_salt K (root_pinned_urn key root) = Inr (u, None) \<and>
           du_parse_with_salt K (with_salt (root_pinned_urn key root) sl) = Inr (u, Some sl) \<and>
           du_parse_with_salt K (rootless_urn key) = Inr (v, None)))"

definition salt_contract :: "('u, 'm) crates \<Rightarrow> bool" where
  "salt_contract K \<longleftrightarrow> (\<forall>sl. hex64 sl \<longrightarrow> (\<exists>b. du_salt_bytes K sl = Some b \<and> b32_from_hex K sl = Some b))"

text \<open>
  \<open>digstore_core\<close>, idealised: a salt changes the key, and a chunk opens under no other key than its
  own.  Real key derivation and encryption fail this with negligible probability.
\<close>

definition sealed :: "('u, 'm) crates \<Rightarrow> demo_store \<Rightarrow> bool" where
  "sealed K S \<longleftrightarrow>
     (\<forall>c b. dc_derive_decryption_key K c (Some b) \<noteq> dc_derive_decryption_key K c None) \<and>
     (\<forall>c s s' pt. dc_derive_decryption_key K c s \<noteq> dc_derive_decryption_key K c s' \<longrightarrow>
        dc_decrypt_chunk K (dc_derive_decryption_key K c s')
          (ds_encrypt_chunk S (dc_derive_decryption_key K c s) pt) = None)"

text \<open>
  \<open>serde_json\<close> on the documents of the tests: it reads back the method of a request, a result with
  the fields of a fixture, a result with a total alone, and an error object.
\<close>

definition serde_contract :: "('u, 'm) crates \<Rightarrow> bool" where
  "serde_contract K \<longleftrightarrow>
     (\<forall>method params. \<exists>v. sj_value_from_slice K (str_bytes (rpc_body K method params)) = Inr v \<and>
        json_get ''method'' v = Some (JString method)) \<and>
     (\<forall>fx. \<exists>env r. sj_value_from_slice K (str_bytes (sj_to_string K (rpc_document (get_content_result fx)))) = Inr env \<and>
        json_get ''error'' env = None \<and> json_get ''result'' env = Some r \<and>
        sj_get_content K r = Inr \<lparr>gc_total_length = fx_total_length fx, gc_offset = 0, gc_next_offset = None,
          gc_complete = Some True, gc_ciphertext = Some (fx_ciphertext_b64 fx),
          gc_inclusion_proof = Some (fx_proof_b64 fx), gc_chunk_lens = Some (fx_chunk_lens fx)\<rparr>) \<and>
     (\<forall>n. \<exists>env r. sj_value_from_slice K (str_bytes (sj_to_string K
            (rpc_document (JObject [(''total_length'', JNumber (PosInt n))])))) = Inr env \<and>
        json_get ''error'' env = None \<and> json_get ''result'' env = Some r \<and>
        sj_get_content K r = Inr \<lparr>gc_total_length = n, gc_offset = 0, gc_next_offset = None,
          gc_complete = None, gc_ciphertext = None, gc_inclusion_proof = None, gc_chunk_lens = None\<rparr>) \<and>
     (\<forall>err. err \<noteq> JNull \<longrightarrow>
        (\<exists>env err'. sj_value_from_slice K (str_bytes (sj_to_string K
            (JObject [(''jsonrpc'', JString ''2.0''), (''id'', JNumber (PosInt 1)), (''error'', err)]))) = Inr env \<and>
          json_get ''error'' env = Some err' \<and> err' \<noteq> JNull))"

text \<open>The bases of the tests, for the native URL parser.\<close>

definition base_hosts :: "(string \<times> string) list" where
  "base_hosts =
     [(DIG_LOCAL_BASE, ''dig.local''), (LOCALHOST_BASE, ''localhost''),
      (''http://127.0.0.1:9778'', ''127.0.0.1''), (''http://evil.example.com'', ''evil.example.com''),
      (''http://my-node.example.com:1234'', ''my-node.example.com'')]"

definition native_build :: "('u, 'm) crates \<Rightarrow> host \<Rightarrow> bool" where
  "native_build K H \<longleftrightarrow> feature_native H \<and>
     list_all (\<lambda>(u, n). url_parse K u = Some (''http'', Some n)) base_hosts"

definition libraries :: "('u, 'm) crates \<Rightarrow> demo_store \<Rightarrow> bool" where
  "libraries K S \<longleftrightarrow> urn_contract K \<and> salt_contract K \<and> sealed K S \<and> serde_contract K \<and>
     merkle_contract K S \<and> chunk_contract K S \<and> gate_contract K \<and> decrypt_contract K \<and> gate_refusals K \<and>
     gate_complete K \<and> b64_roundtrip K"

section \<open>Running\<close>

lemma on_mock_sel [simp]:
  "transport (on_mock H M) = mock_net M" "feature_native (on_mock H M) = feature_native H"
  "lookup_host (on_mock H M) = lookup_host H"
  by (simp_all add: on_mock_def)

lemma on_mock_loopback [simp]: "is_loopback_base K (on_mock H M) b = is_loopback_base K H b"
  by (auto simp: is_loopback_base_def parsed_host_def is_loopback_host_def resolves_to_loopback_def on_mock_def
      split: option.splits)

lemma mock_stable: "stable_net (on_mock H M)"
  by (simp add: stable_net_def mock_net_def)

lemma mock_reply: "reply (on_mock H M) e = (case mock_call M e of Some a \<Rightarrow> a | None \<Rightarrow> Inl transport_err)"
  by (simp add: reply_def mock_net_def)

lemma run_mock_specified:
  assumes "o_cache_path opts = None"
    and quiet: "\<And>p e. parse_urn K s = Inr p \<Longrightarrow> is_http e \<Longrightarrow> allowed_request K (on_mock H M) opts p True e \<Longrightarrow>
      mock_call M e \<noteq> None"
  shows "run_mock K H M opts s = Some (specified K (on_mock H M) opts s)"
proof -
  let ?H = "on_mock H M"
  obtain R h where opened: "with_options ?H opts [] = (R, h)" by fastforce
  then have h: "h = []" and plan: "r_plan_cache R = None" using assms(1) by (auto simp: with_options_def)
  obtain r R' h' where res: "resolve K ?H R s h = (r, R', h')" by (metis prod_cases3)
  have r: "r = specified K ?H opts s"
    using fresh_resolve_specified [OF mock_stable assms(1) opened, of K s h] res by simp
  have "list_all (\<lambda>e. is_http e \<longrightarrow> mock_call M e \<noteq> None) h'"
  proof (cases "parse_urn K s")
    case (Inl e)
    with res h show ?thesis by (simp add: resolve_def)
  next
    case (Inr p)
    from resolve_allowed [OF with_options_ok [OF opened] res Inr] plan h quiet [OF Inr]
    show ?thesis by (auto simp: grows_def list_all_iff)
  qed
  with res r opened h show ?thesis by (simp add: run_mock_def resolve_on_def)
qed

lemma trim_gateway_base: "trim_end_matches CHR ''/'' RPC_DEFAULT_BASE = RPC_DEFAULT_BASE"
  by (rule trim_end_matches_id) (simp add: RPC_DEFAULT_BASE_def)

text \<open>Without an override a request is a probe, a read or a window at one of three bases.\<close>

lemma plain_requests:
  assumes "o_endpoint opts = None" and "allowed_request K H opts p True e"
  obtains (get) b where "b \<in> {DIG_LOCAL_BASE, LOCALHOST_BASE}" "e = HttpGet (health_url b) \<or> e = HttpGet (serve_url K b p)"
  | (window) root off where "root_hex K p = Some root" "e = window_request K RPC_DEFAULT_BASE p root off"
  using assms trim_gateway_base
  by (auto simp: allowed_request_def is_health_probe_def node_base_def node_request_def rpc_request_def rpc_base_def)

section \<open>Serving a fixture\<close>

lemma served_gateway:
  assumes "serde_contract K" and "fx_ciphertext_b64 fx = b64_encode K ct"
    and "fx_total_length fx = word_of_nat (length ct)" and "0 < length ct" and "length ct \<le> 3145728"
    and "\<And>off. post_fn M base (rpc_body K ''dig.getContent'' (window_params K p root off)) =
      Some (Inr (rpc_ok K (get_content_result fx)))"
  shows "honest_gateway K (on_mock H M) base p root ct (fx_proof_b64 fx) (fx_chunk_lens fx)"
proof -
  let ?r = "\<lparr>gc_total_length = fx_total_length fx, gc_offset = 0, gc_next_offset = None, gc_complete = Some True,
      gc_ciphertext = Some (fx_ciphertext_b64 fx), gc_inclusion_proof = Some (fx_proof_b64 fx),
      gc_chunk_lens = Some (fx_chunk_lens fx)\<rparr>"
  from assms(1) obtain env r where
      "sj_value_from_slice K (str_bytes (sj_to_string K (rpc_document (get_content_result fx)))) = Inr env"
      "json_get ''error'' env = None" "json_get ''result'' env = Some r" "sj_get_content K r = Inr ?r"
    unfolding serde_contract_def by blast
  then have "rpc_result K (sj_get_content K) ''dig.getContent'' (rpc_ok K (get_content_result fx)) = Inr ?r"
    by (simp add: rpc_result_def is_success_def rpc_ok_def mock_ok_def)
  then have call: "fst (rpc_call K (on_mock H M) (sj_get_content K) base ''dig.getContent''
      (window_params K p root off) h) = Inr ?r" for off h
    using assms(6) [of off] by (simp add: rpc_call_eq mock_net_def)
  have "honest_window K ct (fx_proof_b64 fx) (fx_chunk_lens fx) 0 ?r"
    using assms(2,3,5) by (simp add: honest_window_def)
  moreover have "i * unat RPC_WINDOW_BYTES < length ct \<longleftrightarrow> i = 0" for i
    using assms(4,5) by auto
  ultimately show ?thesis unfolding honest_gateway_def call by simp
qed

lemma served_verdict:
  assumes "b64_roundtrip K" and "serde_contract K" and "root_hex K p = Some root"
    and "trim_end_matches CHR ''/'' base = base"
    and "fx_ciphertext_b64 fx = b64_encode K ct"
    and "fx_total_length fx = word_of_nat (length ct)" and "0 < length ct" and "length ct \<le> 3145728"
    and "\<And>off. post_fn M base (rpc_body K ''dig.getContent'' (window_params K p root off)) =
      Some (Inr (rpc_ok K (get_content_result fx)))"
  shows "verdict (gateway_says K (on_mock H M) base p) =
    (case verify_and_decrypt K p ct (fx_proof_b64 fx) root (fx_chunk_lens fx) of
       Inl e \<Rightarrow> verdict (Inl e)
     | Inr b \<Rightarrow> Inr (Success (resolved_data_new b (derive (resource_key K p) b))))"
proof -
  have "gateway_says K (on_mock H M) base p = fst (fetch_from K (on_mock H M) (endpoint_rpc base) p [])"
    by (simp add: fetch_from_says(2) [OF mock_stable])
  moreover have "length ct \<le> 67108864" using assms(8) by simp
  note honest_fetch [OF assms(1,3,7) this, of "on_mock H M" base]
  ultimately show ?thesis using served_gateway [OF assms(2,5-9)] assms(4) by simp
qed

section \<open>The gate on a fixture\<close>

lemma hex64_trim: "hex64 s \<Longrightarrow> trim s = s \<and> s \<noteq> []"
proof
  assume hex: "hex64 s"
  have "plain_char c" if "is_hex_digit c" for c
    using that by (cases c rule: char.exhaust) (auto simp: is_hex_digit_def plain_char_def)
  with hex show "trim s = s" by (intro trim_plain) (auto simp: plain_host_def hex64_def list_all_iff)
  show "s \<noteq> []" using hex by (auto simp: hex64_def)
qed

definition is_fixture ::
    "('u, 'm) crates \<Rightarrow> demo_store \<Rightarrow> string \<Rightarrow> bytes option \<Rightarrow> bytes \<Rightarrow> rpc_fixture \<Rightarrow> bytes \<Rightarrow> bool" where
  "is_fixture K S key sb pt fx ct \<longleftrightarrow>
     ct = ds_encrypt_chunk S (dc_derive_decryption_key K (canonical_of key) sb) pt \<and>
     0 < length ct \<and> length ct \<le> 1024 \<and> hex64 (fx_root_hex fx) \<and>
     fx_ciphertext_b64 fx = b64_encode K ct \<and> fx_chunk_lens fx = [word_of_nat (length ct)] \<and>
     fx_total_length fx = word_of_nat (length ct) \<and>
     (\<exists>wire m. fx_proof_b64 fx = b64_encode K wire \<and> mp_from_bytes K wire = Some m \<and> mp_verify K m \<and>
        mp_leaf K m = dc_resource_leaf K ct \<and> b32_from_hex K (trim (fx_root_hex fx)) = Some (mp_root K m))"

lemma build_is_fixture:
  assumes "libraries K S" and "pt \<noteq> []" and "length pt \<le> 960"
    and "sb = None \<and> sl = None \<or> (\<exists>x b. sl = Some x \<and> b32_from_hex K x = Some b \<and> sb = Some b)"
  shows "\<exists>fx ct. build_fixture K S key pt sl = Some fx \<and> is_fixture K S key sb pt fx ct"
proof -
  let ?ct = "ds_encrypt_chunk S (dc_derive_decryption_key K (canonical_of key) sb) pt"
  have "merkle_contract K S" "chunk_contract K S" using assms(1) by (simp_all add: libraries_def)
  then obtain wire m where "ds_prove S [dc_resource_leaf K ?ct] 0 = Some wire"
      "hex64 (ds_root_hex S [dc_resource_leaf K ?ct])" "mp_from_bytes K wire = Some m" "mp_verify K m"
      "mp_leaf K m = dc_resource_leaf K ?ct"
      "b32_from_hex K (trim (ds_root_hex S [dc_resource_leaf K ?ct])) = Some (mp_root K m)"
    and "length pt \<le> length ?ct" "length ?ct \<le> length pt + 64"
    unfolding merkle_contract_def chunk_contract_def Let_def by metis
  with assms(2-4) show ?thesis
    by (intro exI [of _ "\<lparr>fx_root_hex = ds_root_hex S [dc_resource_leaf K ?ct], fx_ciphertext_b64 = b64_encode K ?ct,
          fx_proof_b64 = b64_encode K wire, fx_chunk_lens = [word_of_nat (length ?ct)],
          fx_total_length = word_of_nat (length ?ct)\<rparr>"] exI [of _ ?ct])
      (auto simp: build_fixture_def is_fixture_def Let_def Suc_le_eq dest!: length_0_conv [THEN iffD2]
        simp flip: length_greater_0_conv)
qed

lemma fixture_accepted:
  assumes "libraries K S" and "is_fixture K S key sb pt fx ct" and "keyed_as K (urn p) key"
    and "parse_salt K (salt p) = Inr sb"
  shows "verify_and_decrypt K p ct (fx_proof_b64 fx) (fx_root_hex fx) (fx_chunk_lens fx) = Inr pt"
proof -
  let ?C = "digstore_crypto K"
  obtain wire m where wire: "fx_proof_b64 fx = b64_encode K wire" and m: "mp_from_bytes K wire = Some m" "mp_verify K m"
      "mp_leaf K m = dc_resource_leaf K ct" "b32_from_hex K (trim (fx_root_hex fx)) = Some (mp_root K m)"
    using assms(2) by (auto simp: is_fixture_def)
  let ?f = "\<lparr>fp_leaf = mp_leaf K m, fp_root = mp_root K m\<rparr>"
  have lib: "b64_roundtrip K" "gate_complete K" "chunk_contract K S" using assms(1) by (simp_all add: libraries_def)
  have fold: "cc_decode_and_fold ?C wire = Some ?f" using m by (simp add: digstore_fold_Some)
  have "cc_decrypt_chunk ?C (urn p) sb ct = Some pt"
    using assms(2,3) lib(3) by (simp add: digstore_crypto_def keyed_as_def is_fixture_def chunk_contract_def Let_def)
  moreover have "length ct \<le> 1024" using assms(2) unfolding is_fixture_def by blast
  then have "length ct < 2 ^ 32" by simp
  ultimately have "pv_verify_and_decrypt K ?C (urn p) sb ct wire (fp_root ?f) [word_of_nat (length ct)] = Inr pt"
    using lib(2) fold m(3) unfolding gate_complete_def by (metis folded_proof.select_convs(1))
  then show ?thesis
    using lib(1) wire m(4) assms(2,4)
    by (simp add: verify_and_decrypt_def parse_trusted_root_def decode_proof_b64_def map_result_def b64_roundtrip_def
        is_fixture_def)
qed

text \<open>A refused fixture gives IntegrityFailure; it is refused when nothing is released for it.\<close>

lemma fixture_refused:
  assumes "libraries K S" and "parse_salt K (salt p) = Inr s" and "\<And>b. verify_and_decrypt K p ct wire root lens \<noteq> Inr b"
  shows "\<exists>e. verify_and_decrypt K p ct wire root lens = Inl e \<and> verdict (Inl e) = Inr IntegrityFailure"
proof -
  obtain e where "verify_and_decrypt K p ct wire root lens = Inl e"
    using assms(3) by (cases "verify_and_decrypt K p ct wire root lens") auto
  moreover have "gate_refusals K" using assms(1) by (simp add: libraries_def)
  ultimately show ?thesis using refusal_verdict [OF _ assms(2)] by blast
qed

lemma released_single_chunk:
  assumes "libraries K S" and "parse_salt K (salt p) = Inr s"
    and "verify_and_decrypt K p ct wire root lens = Inr b"
  shows "sum_list (map unat lens) = length ct \<or> lens = []"
    and "lens = [word_of_nat (length ct)] \<Longrightarrow> length ct < 2 ^ 32 \<Longrightarrow>
      dc_decrypt_chunk K (urn_key K p s) ct = Some b"
proof -
  from assms(2,3) obtain w r where
      "pv_verify_and_decrypt K (digstore_crypto K) (urn p) s ct w r lens = Inr b"
    by (auto elim: verify_and_decrypt_InrD)
  moreover have "decrypt_contract K" using assms(1) by (simp add: libraries_def)
  ultimately obtain cs ps where cs: "concat cs = ct"
      "map length cs = (if lens = [] then [length ct] else map unat lens)"
      and opened: "chunks_open (digstore_crypto K) (urn p) s cs ps" and ps: "b = concat ps"
    unfolding decrypt_contract_def by blast
  have "sum_list (map length cs) = length ct" using cs(1) by (simp flip: length_concat)
  with cs(2) show "sum_list (map unat lens) = length ct \<or> lens = []" by (metis map_map)
  assume "lens = [word_of_nat (length ct)]" and "length ct < 2 ^ 32"
  with cs(2) obtain c where "cs = [c]" by (cases cs) auto
  with cs(1) opened ps show "dc_decrypt_chunk K (urn_key K p s) ct = Some b"
    by (auto simp: chunks_open_def digstore_crypto_def urn_key_def Let_def list_all2_Cons1)
qed

lemma wrong_salt_refused:
  assumes "libraries K S" and "is_fixture K S key None pt fx ct" and "keyed_as K (urn p) key"
    and "parse_salt K (salt p) = Inr (Some sb)"
  shows "\<exists>e. verify_and_decrypt K p ct (fx_proof_b64 fx) (fx_root_hex fx) (fx_chunk_lens fx) = Inl e \<and>
    verdict (Inl e) = Inr IntegrityFailure"
proof (rule fixture_refused [OF assms(1,4)])
  fix b
  let ?c = "canonical_of key"
  have "sealed K S" using assms(1) by (simp add: libraries_def)
  then have "dc_decrypt_chunk K (dc_derive_decryption_key K ?c (Some sb)) ct = None"
    using assms(2) unfolding sealed_def is_fixture_def by metis
  moreover have "urn_key K p (Some sb) = dc_derive_decryption_key K ?c (Some sb)"
    using assms(3) by (simp add: urn_key_def keyed_as_def)
  ultimately show "verify_and_decrypt K p ct (fx_proof_b64 fx) (fx_root_hex fx) (fx_chunk_lens fx) \<noteq> Inr b"
    using released_single_chunk(2) [OF assms(1,4)] assms(2) by (fastforce simp: is_fixture_def)
qed

lemma tampered_refused:
  assumes "libraries K S" and "is_fixture K S key sb pt fx ct" and "parse_salt K (salt p) = Inr s"
    and "dc_resource_leaf K ct' \<noteq> dc_resource_leaf K ct"
  shows "\<exists>e. verify_and_decrypt K p ct' (fx_proof_b64 fx) (fx_root_hex fx) lens = Inl e \<and>
    verdict (Inl e) = Inr IntegrityFailure"
proof (rule fixture_refused [OF assms(1,3)])
  fix b
  have lib: "gate_contract K" "b64_roundtrip K" using assms(1) by (simp_all add: libraries_def)
  have "\<not> included_under K ct' (fx_proof_b64 fx) (fx_root_hex fx)"
    using assms(2,4) lib(2) by (auto simp: included_under_def is_fixture_def b64_roundtrip_def)
  with verify_and_decrypt_included [OF lib(1)]
  show "verify_and_decrypt K p ct' (fx_proof_b64 fx) (fx_root_hex fx) lens \<noteq> Inr b" by blast
qed

end
