(* ===== verification/IntegrationTests.thy ===== *)
theory IntegrationTests
  imports TestKit
begin

text \<open>
  The end-to-end tests of \<open>src/tests/resolve.rs\<close>, each a predicate of the model: the mock transport
  it scripts, the URN it resolves and what it asserts.  The lemmas show that each holds, for every
  host of the native build and all libraries with the documented behaviour of \<open>TestKit\<close>.
\<close>

section \<open>Helpers of the file\<close>

definition IMG_KEY :: string where
  "IMG_KEY = ''img/logo.png''"

definition DUMMY_ROOT :: string where
  "DUMMY_ROOT = ''cccccccccccccccccccccccccccccccccccccccccccccccccccccccccccccccc''"

definition pinned :: "string \<Rightarrow> string" where
  "pinned key = root_pinned_urn key DUMMY_ROOT"

definition gives_bytes ::
    "('u, 'm) crates \<Rightarrow> host \<Rightarrow> mock_transport \<Rightarrow> resolve_options \<Rightarrow> string \<Rightarrow> bytes \<Rightarrow> bool" where
  "gives_bytes K H M opts s b \<longleftrightarrow>
     (case run_mock K H M opts s of Some (Inr (Success d)) \<Rightarrow> rd_bytes d = b | _ \<Rightarrow> False)"

text \<open>The closures that recur: no node, a healthy node that answers \<open>r\<close>, and the gateway down or serving.\<close>

definition no_node :: "string \<Rightarrow> (transport_error + http_response) option" where
  "no_node url = Some (Inl transport_err)"

definition healthy_node :: "http_response \<Rightarrow> string \<Rightarrow> (transport_error + http_response) option" where
  "healthy_node r url = Some (Inr (if suffix ''/health'' url then mock_status 200 else r))"

definition gateway_down :: "string \<Rightarrow> string \<Rightarrow> (transport_error + http_response) option" where
  "gateway_down url bdy = Some (Inl transport_err)"

definition gateway_serving ::
    "('u, 'm) crates \<Rightarrow> rpc_fixture \<Rightarrow> string \<Rightarrow> string \<Rightarrow> (transport_error + http_response) option" where
  "gateway_serving K fx url bdy =
     (case sj_value_from_slice K (str_bytes bdy) of
        Inr v \<Rightarrow> if json_get ''method'' v = Some (JString ''dig.getContent'')
                 then Some (Inr (rpc_ok K (get_content_result fx))) else None
      | Inl _ \<Rightarrow> None)"

definition gateway_empty :: "('u, 'm) crates \<Rightarrow> string \<Rightarrow> string \<Rightarrow> (transport_error + http_response) option" where
  "gateway_empty K url bdy = Some (Inr (rpc_ok K (JObject [(''total_length'', JNumber (PosInt 0))])))"

definition node_serving :: "bytes \<Rightarrow> string \<Rightarrow> mock_transport" where
  "node_serving pt ct =
     \<lparr>get_fn = (\<lambda>url.
        if suffix ''/health'' url then Some (Inr (mock_status 200))
        else if contains ''/s/'' url then Some (Inr (node_response pt (Some ct) True))
        else Some (Inl transport_err)),
      post_fn = gateway_down\<rparr>"

definition rpc_serving :: "('u, 'm) crates \<Rightarrow> rpc_fixture \<Rightarrow> mock_transport" where
  "rpc_serving K fx = \<lparr>get_fn = no_node, post_fn = gateway_serving K fx\<rparr>"

definition with_endpoint :: "string \<Rightarrow> resolve_options" where
  "with_endpoint base = default_options\<lparr>o_endpoint := Some base\<rparr>"

text \<open>A test on a fixture fails when the builder panics.\<close>

definition on_fixture ::
    "('u, 'm) crates \<Rightarrow> demo_store \<Rightarrow> bytes \<Rightarrow> string option \<Rightarrow> (rpc_fixture \<Rightarrow> bool) \<Rightarrow> bool" where
  "on_fixture K S pt salt_hex test =
     (case build_fixture K S IMG_KEY pt salt_hex of Some fx \<Rightarrow> test fx | None \<Rightarrow> False)"

section \<open>URN parsing\<close>

definition rejects_non_urn :: "('u, 'm) crates \<Rightarrow> host \<Rightarrow> bool" where
  "rejects_non_urn K H \<longleftrightarrow>
     (case run_mock K H (node_serving [] ''text/plain'') default_options ''not-a-urn'' of
        Some (Inl (Parse m)) \<Rightarrow> True | _ \<Rightarrow> False)"

definition bare_store_urn_defaults_to_index_html :: "('u, 'm) crates \<Rightarrow> host \<Rightarrow> bool" where
  "bare_store_urn_defaults_to_index_html K H \<longleftrightarrow>
     gives_bytes K H
       \<lparr>get_fn = (\<lambda>url.
          if suffix ''/health'' url then Some (Inr (mock_status 200))
          else if suffix ''/index.html'' url
          then Some (Inr (node_response (str_bytes ''landing'') (Some ''text/html'') True)) else None),
        post_fn = gateway_down\<rparr>
       default_options (''urn:dig:chia:'' @ STORE_HEX) (str_bytes ''landing'')"

section \<open>The ladder: a healthy node\<close>

definition node_tier_serves_when_healthy :: "('u, 'm) crates \<Rightarrow> host \<Rightarrow> bool" where
  "node_tier_serves_when_healthy K H \<longleftrightarrow>
     (case run_mock K H (node_serving (str_bytes ''hello world'') ''text/plain'') default_options
             (rootless_urn ''index.html'') of
        Some (Inr (Success d)) \<Rightarrow> rd_bytes d = str_bytes ''hello world'' \<and> rd_content_type d = ''text/plain''
      | _ \<Rightarrow> False)"

definition node_content_type_falls_back_to_extension_when_header_absent :: "('u, 'm) crates \<Rightarrow> host \<Rightarrow> bool" where
  "node_content_type_falls_back_to_extension_when_header_absent K H \<longleftrightarrow>
     (case run_mock K H \<lparr>get_fn = healthy_node (node_response [1, 2, 3] None True), post_fn = gateway_down\<rparr>
             default_options (rootless_urn IMG_KEY) of
        Some (Inr (Success d)) \<Rightarrow> rd_content_type d = ''image/png'' | _ \<Rightarrow> False)"

definition node_404_falls_through_to_rpc_which_serves :: "('u, 'm) crates \<Rightarrow> demo_store \<Rightarrow> host \<Rightarrow> bool" where
  "node_404_falls_through_to_rpc_which_serves K S H \<longleftrightarrow>
     on_fixture K S (str_bytes ''gateway has it'') None (\<lambda>fx.
       gives_bytes K H \<lparr>get_fn = healthy_node (mock_status 404), post_fn = gateway_serving K fx\<rparr>
         default_options (root_pinned_urn IMG_KEY (fx_root_hex fx)) (str_bytes ''gateway has it''))"

definition all_tiers_not_found_is_branded_final_not_found :: "('u, 'm) crates \<Rightarrow> host \<Rightarrow> bool" where
  "all_tiers_not_found_is_branded_final_not_found K H \<longleftrightarrow>
     run_mock K H \<lparr>get_fn = healthy_node (mock_status 404), post_fn = gateway_empty K\<rparr> default_options
       (pinned IMG_KEY) = Some (Inl NotFound)"

definition unverified :: http_response where
  "unverified = node_response (str_bytes ''unverified'') (Some ''text/plain'') False"

definition integrity_failure_at_node_tier_never_queries_rpc :: "('u, 'm) crates \<Rightarrow> host \<Rightarrow> bool" where
  "integrity_failure_at_node_tier_never_queries_rpc K H \<longleftrightarrow>
     run_mock K H \<lparr>get_fn = healthy_node unverified, post_fn = (\<lambda>url bdy. None)\<rparr> default_options
       (rootless_urn IMG_KEY) = Some (Inr IntegrityFailure)"

section \<open>The ladder: no node\<close>

definition rootless_urn_over_rpc_is_rejected :: "('u, 'm) crates \<Rightarrow> demo_store \<Rightarrow> host \<Rightarrow> bool" where
  "rootless_urn_over_rpc_is_rejected K S H \<longleftrightarrow>
     on_fixture K S (str_bytes ''whatever'') None (\<lambda>fx.
       run_mock K H (rpc_serving K fx) default_options (rootless_urn IMG_KEY) = Some (Inl RootRequired))"

definition rpc_tier_resolves_root_pinned :: "('u, 'm) crates \<Rightarrow> demo_store \<Rightarrow> host \<Rightarrow> bool" where
  "rpc_tier_resolves_root_pinned K S H \<longleftrightarrow>
     on_fixture K S (str_bytes ''pinned bytes'') None (\<lambda>fx.
       gives_bytes K H (rpc_serving K fx) default_options (root_pinned_urn IMG_KEY (fx_root_hex fx))
         (str_bytes ''pinned bytes''))"

definition test_salt :: "string \<Rightarrow> string" where
  "test_salt two = concat (replicate 32 two)"

definition rpc_private_store_salt_decrypts_root_pinned :: "('u, 'm) crates \<Rightarrow> demo_store \<Rightarrow> host \<Rightarrow> bool" where
  "rpc_private_store_salt_decrypts_root_pinned K S H \<longleftrightarrow>
     on_fixture K S (str_bytes ''secret art'') (Some (test_salt ''cd'')) (\<lambda>fx.
       gives_bytes K H (rpc_serving K fx) default_options
         (with_salt (root_pinned_urn IMG_KEY (fx_root_hex fx)) (test_salt ''cd'')) (str_bytes ''secret art''))"

definition rpc_not_found_when_content_empty :: "('u, 'm) crates \<Rightarrow> host \<Rightarrow> bool" where
  "rpc_not_found_when_content_empty K H \<longleftrightarrow>
     run_mock K H \<lparr>get_fn = no_node, post_fn = gateway_empty K\<rparr> default_options (pinned IMG_KEY) =
       Some (Inl NotFound)"

section \<open>Integrity failures\<close>

text \<open>The fixture with another ciphertext in it, and its proof and root as they were.\<close>

definition tampered_with :: "('u, 'm) crates \<Rightarrow> bytes \<Rightarrow> rpc_fixture \<Rightarrow> rpc_fixture" where
  "tampered_with K b fx =
     fx\<lparr>fx_ciphertext_b64 := b64_encode K b, fx_total_length := word_of_nat (length b),
        fx_chunk_lens := [word_of_nat (length b)]\<rparr>"

definition tampered_ciphertext_is_integrity_failure_not_data ::
    "('u, 'm) crates \<Rightarrow> demo_store \<Rightarrow> host \<Rightarrow> bool" where
  "tampered_ciphertext_is_integrity_failure_not_data K S H \<longleftrightarrow>
     on_fixture K S (str_bytes ''authentic'') None (\<lambda>fx.
       (case run_mock K H (rpc_serving K (tampered_with K (str_bytes ''tampered ciphertext bytes!!'') fx))
               default_options (root_pinned_urn IMG_KEY (fx_root_hex fx)) of
          Some (Inr oc) \<Rightarrow> oc = IntegrityFailure \<and> outcome_data oc = None
        | _ \<Rightarrow> False))"

definition wrong_salt_is_integrity_failure :: "('u, 'm) crates \<Rightarrow> demo_store \<Rightarrow> host \<Rightarrow> bool" where
  "wrong_salt_is_integrity_failure K S H \<longleftrightarrow>
     on_fixture K S (str_bytes ''art'') None (\<lambda>fx.
       run_mock K H (rpc_serving K fx) default_options
         (with_salt (root_pinned_urn IMG_KEY (fx_root_hex fx)) (test_salt ''ef'')) = Some (Inr IntegrityFailure))"

text \<open>The same run through \<open>resolve_rendered\<close>.\<close>

definition render_mock ::
    "('u, 'm) crates \<Rightarrow> host \<Rightarrow> mock_transport \<Rightarrow> resolve_options \<Rightarrow> string \<Rightarrow> resolved_data option" where
  "render_mock K H M opts s =
     (case with_options (on_mock H M) opts [] of
        (R, h) \<Rightarrow>
          (case resolve_rendered K (on_mock H M) R s h of
             (Inr d, R', h') \<Rightarrow>
               if list_all (\<lambda>e. is_http e \<longrightarrow> mock_call M e \<noteq> None) (drop (length h) h') then Some d else None
           | _ \<Rightarrow> None))"

definition page_with :: "resolved_data option \<Rightarrow> string list \<Rightarrow> string list \<Rightarrow> bool" where
  "page_with r ins outs \<longleftrightarrow>
     (case r of
        Some d \<Rightarrow> rd_content_type d = ''text/html'' \<and> list_all (\<lambda>t. contains t (bytes_str (rd_bytes d))) ins \<and>
          list_all (\<lambda>t. \<not> contains t (bytes_str (rd_bytes d))) outs
      | None \<Rightarrow> False)"

definition integrity_failure_renders_security_page_never_the_bytes ::
    "('u, 'm) crates \<Rightarrow> demo_store \<Rightarrow> host \<Rightarrow> bool" where
  "integrity_failure_renders_security_page_never_the_bytes K S H \<longleftrightarrow>
     on_fixture K S (str_bytes ''authentic'') None (\<lambda>fx.
       page_with (render_mock K H (rpc_serving K (tampered_with K (str_bytes ''evil'') fx)) default_options
           (root_pinned_urn IMG_KEY (fx_root_hex fx)))
         [''Integrity Verification Failed''] [''evil'', ''Connect to Node''])"

definition rpc_protocol_error_is_hard_error_not_unreachable :: "('u, 'm) crates \<Rightarrow> host \<Rightarrow> bool" where
  "rpc_protocol_error_is_hard_error_not_unreachable K H \<longleftrightarrow>
     (case run_mock K H
         \<lparr>get_fn = no_node,
          post_fn = (\<lambda>url bdy. Some (Inr (mock_ok (str_bytes (sj_to_string K
            (JObject [(''jsonrpc'', JString ''2.0''), (''id'', JNumber (PosInt 1)),
              (''error'', JObject [(''code'', JNumber (NegInt (- 32000))), (''message'', JString ''boom'')])])))
            (Some ''application/json''))))\<rparr>
         default_options (pinned IMG_KEY) of
        Some (Inl (Rpc m)) \<Rightarrow> True | _ \<Rightarrow> False)"

section \<open>Unreachable\<close>

definition all_down :: mock_transport where
  "all_down = \<lparr>get_fn = no_node, post_fn = gateway_down\<rparr>"

definition both_tiers_unreachable_is_unreachable_outcome :: "('u, 'm) crates \<Rightarrow> host \<Rightarrow> bool" where
  "both_tiers_unreachable_is_unreachable_outcome K H \<longleftrightarrow>
     run_mock K H all_down default_options (pinned IMG_KEY) = Some (Inr Unreachable) \<and>
     page_with (Some (render Unreachable ''https://dig.net''))
       [''DIG Network unreachable'', ''Connect to Node'', ''https://dig.net''] [''Integrity Verification Failed'']"

definition unreachable_connect_url_is_overridable :: "('u, 'm) crates \<Rightarrow> host \<Rightarrow> bool" where
  "unreachable_connect_url_is_overridable K H \<longleftrightarrow>
     (let opts = default_options\<lparr>o_connect_url := Some ''dig://home''\<rparr>
      in page_with (render_mock K H all_down opts (pinned IMG_KEY)) [''dig://home''] [])"

section \<open>Node trust is loopback only\<close>

definition node_without_x_dig_verified_is_fail_closed :: "('u, 'm) crates \<Rightarrow> host \<Rightarrow> bool" where
  "node_without_x_dig_verified_is_fail_closed K H \<longleftrightarrow>
     run_mock K H \<lparr>get_fn = healthy_node unverified, post_fn = gateway_down\<rparr> default_options
       (rootless_urn IMG_KEY) = Some (Inr IntegrityFailure)"

definition override_remote_host_uses_verified_rpc_not_node ::
    "('u, 'm) crates \<Rightarrow> demo_store \<Rightarrow> host \<Rightarrow> bool" where
  "override_remote_host_uses_verified_rpc_not_node K S H \<longleftrightarrow>
     on_fixture K S (str_bytes ''verified art'') None (\<lambda>fx.
       gives_bytes K H
         \<lparr>get_fn = (\<lambda>url. None),
          post_fn = (\<lambda>url bdy. if prefix ''http://evil.example.com'' url then gateway_serving K fx url bdy else None)\<rparr>
         (with_endpoint ''http://evil.example.com'') (root_pinned_urn IMG_KEY (fx_root_hex fx))
         (str_bytes ''verified art''))"

definition override_loopback_host_may_use_node :: "('u, 'm) crates \<Rightarrow> host \<Rightarrow> bool" where
  "override_loopback_host_may_use_node K H \<longleftrightarrow>
     gives_bytes K H
       \<lparr>get_fn = (\<lambda>url. if prefix ''http://127.0.0.1:9778'' url
           then Some (Inr (node_response (str_bytes ''local'') (Some ''text/plain'') True)) else None),
        post_fn = gateway_down\<rparr>
       (with_endpoint ''http://127.0.0.1:9778'') (rootless_urn ''index.html'') (str_bytes ''local'')"

definition override_remote_unreachable_does_not_leak_to_public_rpc :: "('u, 'm) crates \<Rightarrow> host \<Rightarrow> bool" where
  "override_remote_unreachable_does_not_leak_to_public_rpc K H \<longleftrightarrow>
     run_mock K H
       \<lparr>get_fn = no_node,
        post_fn = (\<lambda>url bdy. if contains ''rpc.dig.net'' url then None else Some (Inl transport_err))\<rparr>
       (with_endpoint ''http://my-node.example.com:1234'') (pinned IMG_KEY) = Some (Inr Unreachable)"

section \<open>Outcome accessors\<close>

definition outcome_accessors :: bool where
  "outcome_accessors \<longleftrightarrow>
     (let ok = Success (resolved_data_new [1, 2] ''image/png'')
      in outcome_is_success ok \<and> outcome_kind ok = ''success'' \<and>
         map_option rd_bytes (outcome_data ok) = Some [1, 2] \<and>
         outcome_kind IntegrityFailure = ''integrity_failure'' \<and> \<not> outcome_is_success IntegrityFailure \<and>
         outcome_kind Unreachable = ''unreachable'' \<and>
         rd_bytes (render ok ''https://dig.net'') = [1, 2] \<and>
         rd_content_type (render ok ''https://dig.net'') = ''image/png'')"

section \<open>A node that answers with ciphertext\<close>

definition ciphertext_node :: "('u, 'm) crates \<Rightarrow> rpc_fixture \<Rightarrow> mock_transport" where
  "ciphertext_node K fx =
     \<lparr>get_fn = (\<lambda>url. if suffix ''/health'' url then Some (Inr (mock_status 200))
        else map_option Inr (node_ciphertext_response K fx)),
      post_fn = gateway_down\<rparr>"

definition PNG_CIPHERTEXT :: bytes where
  "PNG_CIPHERTEXT = 0x89 # str_bytes ''PNG node ciphertext''"

definition node_ciphertext_response_is_verified_and_decrypted ::
    "('u, 'm) crates \<Rightarrow> demo_store \<Rightarrow> host \<Rightarrow> bool" where
  "node_ciphertext_response_is_verified_and_decrypted K S H \<longleftrightarrow>
     on_fixture K S PNG_CIPHERTEXT None (\<lambda>fx.
       gives_bytes K H (ciphertext_node K fx) default_options (root_pinned_urn IMG_KEY (fx_root_hex fx))
         PNG_CIPHERTEXT)"

definition salted_urn_decrypts_on_node_ciphertext_path :: "('u, 'm) crates \<Rightarrow> demo_store \<Rightarrow> host \<Rightarrow> bool" where
  "salted_urn_decrypts_on_node_ciphertext_path K S H \<longleftrightarrow>
     on_fixture K S (str_bytes ''salted node art'') (Some (test_salt ''cd'')) (\<lambda>fx.
       gives_bytes K H (ciphertext_node K fx) default_options
         (with_salt (root_pinned_urn IMG_KEY (fx_root_hex fx)) (test_salt ''cd'')) (str_bytes ''salted node art''))"

definition wrong_salt_on_node_ciphertext_path_is_integrity_failure ::
    "('u, 'm) crates \<Rightarrow> demo_store \<Rightarrow> host \<Rightarrow> bool" where
  "wrong_salt_on_node_ciphertext_path_is_integrity_failure K S H \<longleftrightarrow>
     on_fixture K S (str_bytes ''art'') None (\<lambda>fx.
       run_mock K H (ciphertext_node K fx) default_options
         (with_salt (root_pinned_urn IMG_KEY (fx_root_hex fx)) (test_salt ''ef'')) = Some (Inr IntegrityFailure))"

definition rootless_urn_over_node_ciphertext_derives_root_from_header ::
    "('u, 'm) crates \<Rightarrow> demo_store \<Rightarrow> host \<Rightarrow> bool" where
  "rootless_urn_over_node_ciphertext_derives_root_from_header K S H \<longleftrightarrow>
     on_fixture K S (str_bytes ''rootless node ciphertext art'') None (\<lambda>fx.
       gives_bytes K H (ciphertext_node K fx) default_options (rootless_urn IMG_KEY)
         (str_bytes ''rootless node ciphertext art''))"

definition rootless_urn_falls_to_rpc_root_required_when_node_unhealthy ::
    "('u, 'm) crates \<Rightarrow> demo_store \<Rightarrow> host \<Rightarrow> bool" where
  "rootless_urn_falls_to_rpc_root_required_when_node_unhealthy K S H \<longleftrightarrow>
     on_fixture K S (str_bytes ''unused'') None (\<lambda>fx.
       run_mock K H (rpc_serving K fx) default_options (rootless_urn IMG_KEY) = Some (Inl RootRequired))"

section \<open>Caching\<close>

text \<open>Two resolves on one resolver, over a transport that may have become another in between.\<close>

definition resolve_twice ::
    "('u, 'm) crates \<Rightarrow> host \<Rightarrow> mock_transport \<Rightarrow> mock_transport \<Rightarrow> string
      \<Rightarrow> (outcome \<times> outcome \<times> history) option" where
  "resolve_twice K H M1 M2 s =
     (case resolver_new (on_mock H M1) [] of
        (R, h) \<Rightarrow>
          (case resolve_on K H M1 R s h of
             None \<Rightarrow> None
           | Some (r1, R1, h1) \<Rightarrow> map_option (\<lambda>(r2, R2, h2). (r1, r2, h2)) (resolve_on K H M2 R1 s h1)))"

text \<open>The counter of calls to the gateway is the number of posts in the history.\<close>

definition second_resolve_is_a_memory_cache_hit_no_network ::
    "('u, 'm) crates \<Rightarrow> demo_store \<Rightarrow> host \<Rightarrow> bool" where
  "second_resolve_is_a_memory_cache_hit_no_network K S H \<longleftrightarrow>
     on_fixture K S (str_bytes ''cached bytes'') None (\<lambda>fx.
       (case resolve_twice K H
           \<lparr>get_fn = no_node, post_fn = (\<lambda>url bdy. Some (Inr (rpc_ok K (get_content_result fx))))\<rparr>
           \<lparr>get_fn = no_node, post_fn = (\<lambda>url bdy. None)\<rparr>
           (root_pinned_urn IMG_KEY (fx_root_hex fx)) of
          Some (Inr (Success d1), Inr (Success d2), h) \<Rightarrow>
            rd_bytes d1 = str_bytes ''cached bytes'' \<and> rd_bytes d2 = str_bytes ''cached bytes'' \<and>
            length (filter is_post h) = 1
        | _ \<Rightarrow> False))"

definition failures_are_not_cached_and_recovery_retries :: "('u, 'm) crates \<Rightarrow> demo_store \<Rightarrow> host \<Rightarrow> bool" where
  "failures_are_not_cached_and_recovery_retries K S H \<longleftrightarrow>
     on_fixture K S (str_bytes ''recovered'') None (\<lambda>fx.
       (case resolve_twice K H all_down
           \<lparr>get_fn = no_node, post_fn = (\<lambda>url bdy. Some (Inr (rpc_ok K (get_content_result fx))))\<rparr>
           (root_pinned_urn IMG_KEY (fx_root_hex fx)) of
          Some (Inr Unreachable, Inr (Success d), h) \<Rightarrow> rd_bytes d = str_bytes ''recovered''
        | _ \<Rightarrow> False))"

section \<open>Crafted lengths and a browser\<close>

definition chunk_lens_overflow_is_integrity_failure_not_panic ::
    "('u, 'm) crates \<Rightarrow> demo_store \<Rightarrow> host \<Rightarrow> bool" where
  "chunk_lens_overflow_is_integrity_failure_not_panic K S H \<longleftrightarrow>
     on_fixture K S (str_bytes ''authentic bytes here!!'') None (\<lambda>fx.
       run_mock K H
         (rpc_serving K (fx\<lparr>fx_chunk_lens := [ucast (fx_total_length fx) + 2 ^ 31, 2 ^ 31]\<rparr>))
         default_options (root_pinned_urn IMG_KEY (fx_root_hex fx)) = Some (Inr IntegrityFailure))"

definition browser_cors_blocked_local_probe_falls_back_to_verified_rpc ::
    "('u, 'm) crates \<Rightarrow> demo_store \<Rightarrow> host \<Rightarrow> bool" where
  "browser_cors_blocked_local_probe_falls_back_to_verified_rpc K S H \<longleftrightarrow>
     on_fixture K S (str_bytes ''rpc bytes'') None (\<lambda>fx.
       gives_bytes K H (rpc_serving K fx) default_options (root_pinned_urn IMG_KEY (fx_root_hex fx))
         (str_bytes ''rpc bytes''))"

section \<open>What a mock makes of a resolve\<close>

lemma with_endpoint_sel [simp]:
  "o_endpoint (with_endpoint b) = Some b" "o_cache_path (with_endpoint b) = None"
  "o_endpoint default_options = None" "o_cache_path default_options = None" "o_connect_url default_options = None"
  by (simp_all add: with_endpoint_def default_options_def)

lemma contains_sublist: "contains n s \<longleftrightarrow> sublist n s"
  by (induction s) (auto simp: sublist_Cons_right)

lemma sublist_sep:
  assumes "c \<notin> set n" and "n \<noteq> []"
  shows "sublist n (a @ c # b) \<longleftrightarrow> sublist n a \<or> sublist n b"
proof
  assume "sublist n (a @ c # b)"
  then consider "sublist n a" | "sublist n (c # b)" | xs ys where "n = xs @ ys" "suffix xs a" "prefix ys (c # b)"
    by (auto simp: sublist_append)
  then show "sublist n a \<or> sublist n b"
  proof cases
    case 1
    then show ?thesis ..
  next
    case 2
    with assms show ?thesis by (cases n) (auto simp: sublist_Cons_right)
  next
    case 3
    with assms have "ys = []" by (cases ys) auto
    with 3 show ?thesis by (simp add: suffix_imp_sublist)
  qed
qed (use sublist_appendI [of a "[]" "c # b"] sublist_appendI [of b "a @ [c]" "[]"] in \<open>auto intro: sublist_order.order.trans\<close>)

text \<open>A text without a line break is found in a document when it is found in a line of it.\<close>

lemma contains_unlines:
  assumes "CHR 0x0A \<notin> set n" and "n \<noteq> []"
  shows "contains n (unlines ls) \<longleftrightarrow> (\<exists>l \<in> set ls. contains n l)"
  unfolding contains_sublist
  by (induction ls) (use assms in \<open>simp_all add: unlines_def sublist_sep\<close>)

lemma suffix_last: "suffix n s \<Longrightarrow> n \<noteq> [] \<Longrightarrow> last s = last n"
  by (auto simp: suffix_def)

lemma serve_url_not_health:
  "resource_key K p \<noteq> [] \<Longrightarrow> last (resource_key K p) \<noteq> CHR ''h'' \<Longrightarrow> \<not> suffix ''/health'' (serve_url K b p)"
  by (auto simp: serve_url_def Let_def dest!: suffix_last)

lemma serve_url_read: "contains ''/s/'' (serve_url K b p)"
  unfolding contains_sublist serve_url_def Let_def by (rule sublist_appendI)

lemma health_url_health [simp]: "suffix ''/health'' (health_url b)"
  by (simp add: health_url_def suffix_def)

lemma native_hosts:
  assumes "native_build K H"
  shows "is_loopback_base K H LOCALHOST_BASE" "is_loopback_base K H ''http://127.0.0.1:9778''"
    "\<not> is_loopback_base K H ''http://evil.example.com''" "\<not> is_loopback_base K H ''http://my-node.example.com:1234''"
proof -
  have "normal_host ''my-node.example.com'' = ''my-node.example.com''" by code_simp
  moreover have "parse_ip ''my-node.example.com'' = None"
    using no_ip [of "CHR ''y''" "''my-node.example.com''"] by (simp add: ip_chars_def)
  ultimately have "\<not> is_loopback_host H ''my-node.example.com''" by (simp add: is_loopback_host_def)
  with assms show "is_loopback_base K H LOCALHOST_BASE" "is_loopback_base K H ''http://127.0.0.1:9778''"
    "\<not> is_loopback_base K H ''http://evil.example.com''" "\<not> is_loopback_base K H ''http://my-node.example.com:1234''"
    by (simp_all add: native_build_def base_hosts_def is_loopback_base_def parsed_host_def known_hosts)
qed

definition local_bases :: "string set" where
  "local_bases = {DIG_LOCAL_BASE, LOCALHOST_BASE}"

definition window_body :: "('u, 'm) crates \<Rightarrow> 'u parsed_urn \<Rightarrow> string \<Rightarrow> u64 \<Rightarrow> string" where
  "window_body K p root off = rpc_body K ''dig.getContent'' (window_params K p root off)"

lemma run_plain:
  assumes "o_cache_path opts = None" and "o_endpoint opts = None" and "parse_urn K s = Inr p"
    and "\<And>b. b \<in> local_bases \<Longrightarrow> get_fn M (health_url b) \<noteq> None \<and> get_fn M (serve_url K b p) \<noteq> None"
    and "\<And>root off. root_hex K p = Some root \<Longrightarrow> post_fn M RPC_DEFAULT_BASE (window_body K p root off) \<noteq> None"
  shows "run_mock K H M opts s = Some (specified K (on_mock H M) opts s)"
proof (rule run_mock_specified [OF assms(1)])
  fix q e
  assume "parse_urn K s = Inr q" and "allowed_request K (on_mock H M) opts q True e"
  moreover from this assms(3) have "q = p" by simp
  ultimately show "mock_call M e \<noteq> None"
    using assms(4,5)
    by (auto elim!: plain_requests [OF assms(2)] simp: local_bases_def window_request_def window_body_def)
qed

lemma specified_no_node:
  assumes "get_fn M = no_node" and "o_endpoint opts = None" and "parse_urn K s = Inr p"
  shows "specified K (on_mock H M) opts s = verdict (gateway_says K (on_mock H M) RPC_DEFAULT_BASE p)"
  using assms by (simp add: specified_def local_node_def node_up_def mock_reply no_node_def)

lemma healthy_local_node:
  assumes "native_build K H" and "\<And>b. b \<in> local_bases \<Longrightarrow> get_fn M (health_url b) = Some (Inr (mock_status 200))"
  shows "\<exists>b \<in> local_bases. local_node K (on_mock H M) = Some b"
proof -
  have "node_up (on_mock H M) b" if "b \<in> local_bases" for b
    using assms(2) [OF that] by (simp add: node_up_def mock_reply is_success_def mock_status_def)
  then show ?thesis
    using native_hosts(1) [OF assms(1)] by (auto simp: local_node_def local_bases_def)
qed

lemma specified_node:
  assumes "native_build K H" and "o_endpoint opts = None" and "parse_urn K s = Inr p"
    and "\<And>b. b \<in> local_bases \<Longrightarrow> get_fn M (health_url b) = Some (Inr (mock_status 200)) \<and>
      get_fn M (serve_url K b p) = Some (Inr r)"
  shows "specified K (on_mock H M) opts s =
    verdict (or_else (node_answer K p r) (gateway_says K (on_mock H M) RPC_DEFAULT_BASE p))"
proof -
  from healthy_local_node [OF assms(1), of M] assms(4) obtain b where
      b: "b \<in> local_bases" "local_node K (on_mock H M) = Some b" by auto
  then have "node_says K (on_mock H M) b p = node_answer K p r"
    using assms(4) by (simp add: node_says_def mock_reply)
  with b assms(2,3) show ?thesis by (simp add: specified_def)
qed

lemma verdict_or_else:
  "verdict (or_else a b) = (case a of Inl e \<Rightarrow> if is_fall_through e then verdict b else verdict (Inl e) | Inr f \<Rightarrow> verdict a)"
  by (simp add: or_else_def split: sum.split)

text \<open>The three shapes of the tests: no node, a node that decides, and a node without the resource.\<close>

lemma run_gateway:
  assumes "get_fn M = no_node" and "o_cache_path opts = None" and "o_endpoint opts = None" and "parse_urn K s = Inr p"
    and "\<And>root off. root_hex K p = Some root \<Longrightarrow> post_fn M RPC_DEFAULT_BASE (window_body K p root off) \<noteq> None"
  shows "run_mock K H M opts s = Some (verdict (gateway_says K (on_mock H M) RPC_DEFAULT_BASE p))"
  using run_plain [OF assms(2-4) _ assms(5)] specified_no_node [OF assms(1,3,4)] assms(1)
  by (simp add: no_node_def)

lemma run_node:
  assumes "native_build K H" and "o_cache_path opts = None" and "o_endpoint opts = None" and "parse_urn K s = Inr p"
    and "\<And>b. b \<in> local_bases \<Longrightarrow> get_fn M (health_url b) = Some (Inr (mock_status 200)) \<and>
      get_fn M (serve_url K b p) = Some (Inr r)"
    and "\<And>root off. root_hex K p = Some root \<Longrightarrow> post_fn M RPC_DEFAULT_BASE (window_body K p root off) \<noteq> None"
  shows "run_mock K H M opts s =
    Some (case node_answer K p r of
            Inl e \<Rightarrow> if is_fall_through e then verdict (gateway_says K (on_mock H M) RPC_DEFAULT_BASE p) else verdict (Inl e)
          | Inr f \<Rightarrow> Inr (Success (f_data f)))"
proof -
  have "run_mock K H M opts s = Some (specified K (on_mock H M) opts s)"
    by (rule run_plain [OF assms(2-4) _ assms(6)]) (simp add: assms(5))
  with specified_node [OF assms(1,3,4,5)] show ?thesis by (simp add: verdict_or_else split: sum.split)
qed

lemma render_mock_page:
  assumes "run_mock K H M opts s = Some (Inr oc)"
  shows "render_mock K H M opts s =
    Some (render oc (case o_connect_url opts of Some u \<Rightarrow> u | None \<Rightarrow> DEFAULT_CONNECT_URL))"
proof -
  obtain R h where opened: "with_options (on_mock H M) opts [] = (R, h)" by fastforce
  obtain r R' h' where res: "resolve K (on_mock H M) R s h = (r, R', h')" by (metis prod_cases3)
  have "r_options R' = opts"
    using session_ok [OF session.resolved [OF session.opened [OF opened] res]] by (simp add: resolver_ok_def)
  with assms opened res show ?thesis
    by (auto simp: run_mock_def resolve_on_def render_mock_def resolve_rendered_def connect_url_def split: if_splits)
qed

section \<open>The URNs and the gateway of the tests\<close>

definition names :: "('u, 'm) crates \<Rightarrow> 'u parsed_urn \<Rightarrow> string option \<Rightarrow> string \<Rightarrow> string option \<Rightarrow> bool" where
  "names K p root key sl \<longleftrightarrow> root_hex K p = root \<and> resource_key K p = key \<and> keyed_as K (urn p) key \<and> salt p = sl"

lemma constants_ok:
  "plain_key IMG_KEY" "plain_key ''index.html''" "hex64 DUMMY_ROOT" "hex64 (test_salt ''cd'')" "hex64 (test_salt ''ef'')"
  by code_simp+

lemma parse_urns:
  assumes "libraries K S" and "hex64 root" and "plain_key key" and "hex64 sl"
  shows "\<exists>p. parse_urn K (root_pinned_urn key root) = Inr p \<and> names K p (Some root) key None"
    and "\<exists>p. parse_urn K (with_salt (root_pinned_urn key root) sl) = Inr p \<and> names K p (Some root) key (Some sl)"
    and "\<exists>p. parse_urn K (rootless_urn key) = Inr p \<and> names K p None key None"
proof -
  have "urn_contract K" using assms(1) by (simp add: libraries_def)
  with assms(2-4) obtain u v where "reads_as K u (Some root) key" "keyed_as K u key" "reads_as K v None key" "keyed_as K v key"
    and "du_parse_with_salt K (root_pinned_urn key root) = Inr (u, None)"
      "du_parse_with_salt K (with_salt (root_pinned_urn key root) sl) = Inr (u, Some sl)"
      "du_parse_with_salt K (rootless_urn key) = Inr (v, None)"
    unfolding urn_contract_def by blast
  then show "\<exists>p. parse_urn K (root_pinned_urn key root) = Inr p \<and> names K p (Some root) key None"
    and "\<exists>p. parse_urn K (with_salt (root_pinned_urn key root) sl) = Inr p \<and> names K p (Some root) key (Some sl)"
    and "\<exists>p. parse_urn K (rootless_urn key) = Inr p \<and> names K p None key None"
    by (simp_all add: parse_urn_def names_def reads_as_def root_hex_def resource_key_def)
qed

lemma parse_pinned:
  "libraries K S \<Longrightarrow> hex64 root \<Longrightarrow>
     \<exists>p. parse_urn K (root_pinned_urn IMG_KEY root) = Inr p \<and> names K p (Some root) IMG_KEY None"
  using parse_urns(1) constants_ok(1,4) by blast

lemma parse_salted:
  assumes "libraries K S" and "hex64 root" and "hex64 sl"
  obtains p b where "parse_urn K (with_salt (root_pinned_urn IMG_KEY root) sl) = Inr p"
    and "names K p (Some root) IMG_KEY (Some sl)" and "b32_from_hex K sl = Some b" and "parse_salt K (salt p) = Inr (Some b)"
proof -
  obtain p where p: "parse_urn K (with_salt (root_pinned_urn IMG_KEY root) sl) = Inr p"
    "names K p (Some root) IMG_KEY (Some sl)"
    using parse_urns(2) [OF assms(1,2) constants_ok(1) assms(3)] by blast
  have "salt_contract K" using assms(1) by (simp add: libraries_def)
  with assms(3) obtain b where "du_salt_bytes K sl = Some b" "b32_from_hex K sl = Some b"
    unfolding salt_contract_def by blast
  with p hex64_trim [OF assms(3)] show thesis by (intro that [of p b]) (simp_all add: parse_salt_def names_def)
qed

lemma parse_rootless:
  "libraries K S \<Longrightarrow> plain_key key \<Longrightarrow> \<exists>p. parse_urn K (rootless_urn key) = Inr p \<and> names K p None key None"
  using parse_urns(3) constants_ok(3,4) by blast

lemma names_no_salt: "names K p root key None \<Longrightarrow> parse_salt K (salt p) = Inr None"
  by (simp add: names_def parse_salt_def)

lemma serving:
  assumes "libraries K S"
  shows "gateway_serving K fx url (window_body K p root off) = Some (Inr (rpc_ok K (get_content_result fx)))"
proof -
  have "serde_contract K" using assms by (simp add: libraries_def)
  then obtain v where "sj_value_from_slice K (str_bytes (window_body K p root off)) = Inr v"
      "json_get ''method'' v = Some (JString ''dig.getContent'')"
    unfolding serde_contract_def window_body_def by blast
  then show ?thesis by (simp add: gateway_serving_def)
qed

lemma gateway_on:
  assumes "libraries K S" and "root_hex K p = Some root" and "trim_end_matches CHR ''/'' base = base"
    and "fx_ciphertext_b64 fx = b64_encode K ct"
    and "fx_total_length fx = word_of_nat (length ct)" and "0 < length ct" and "length ct \<le> 1024"
    and "\<And>off. post_fn M base (window_body K p root off) = Some (Inr (rpc_ok K (get_content_result fx)))"
  shows "verdict (gateway_says K (on_mock H M) base p) =
    (case verify_and_decrypt K p ct (fx_proof_b64 fx) root (fx_chunk_lens fx) of
       Inl e \<Rightarrow> verdict (Inl e)
     | Inr b \<Rightarrow> Inr (Success (resolved_data_new b (derive (resource_key K p) b))))"
proof -
  have "b64_roundtrip K" "serde_contract K" using assms(1) by (simp_all add: libraries_def)
  moreover have "length ct \<le> 3145728" using assms(7) by simp
  ultimately show ?thesis
    by (rule served_verdict [OF _ _ assms(2-6) _ assms(8) [unfolded window_body_def]])
qed

lemma gateway_gives:
  assumes "libraries K S" and "is_fixture K S key sb pt fx ct"
    and "names K p (Some (fx_root_hex fx)) key sl" and "parse_salt K (salt p) = Inr sb"
    and "trim_end_matches CHR ''/'' base = base"
    and "\<And>off. post_fn M base (window_body K p (fx_root_hex fx) off) = Some (Inr (rpc_ok K (get_content_result fx)))"
  shows "verdict (gateway_says K (on_mock H M) base p) = Inr (Success (resolved_data_new pt (derive key pt)))"
proof -
  have "verify_and_decrypt K p ct (fx_proof_b64 fx) (fx_root_hex fx) (fx_chunk_lens fx) = Inr pt"
    by (rule fixture_accepted [OF assms(1,2) _ assms(4)]) (use assms(3) in \<open>simp add: names_def\<close>)
  moreover have "root_hex K p = Some (fx_root_hex fx)" "resource_key K p = key"
    using assms(3) by (simp_all add: names_def)
  moreover have "fx_ciphertext_b64 fx = b64_encode K ct" "fx_total_length fx = word_of_nat (length ct)"
    "0 < length ct" "length ct \<le> 1024" using assms(2) unfolding is_fixture_def by blast+
  ultimately show ?thesis using gateway_on [OF assms(1) _ assms(5) _ _ _ _ assms(6)] by simp
qed

lemma gives_bytesI:
  "run_mock K H M opts s = Some (Inr (Success (resolved_data_new b ct))) \<Longrightarrow> gives_bytes K H M opts s b"
  by (simp add: gives_bytes_def)

lemma on_fixtureI:
  assumes "libraries K S" and "pt \<noteq> []" and "length pt \<le> 960"
    and "sb = None \<and> sl = None \<or> (\<exists>x b. sl = Some x \<and> b32_from_hex K x = Some b \<and> sb = Some b)"
    and "\<And>fx ct. is_fixture K S IMG_KEY sb pt fx ct \<Longrightarrow> test fx"
  shows "on_fixture K S pt sl test"
  using build_is_fixture [OF assms(1-4)] assms(5) unfolding on_fixture_def by fastforce

lemmas on_plain_fixtureI = on_fixtureI [where sb = None and sl = None, simplified]

section \<open>The tests hold: the gateway\<close>

lemma rpc_serving_gives:
  assumes "libraries K S" and "is_fixture K S IMG_KEY sb pt fx ct" and "parse_urn K s = Inr p"
    and "names K p (Some (fx_root_hex fx)) IMG_KEY sl" and "parse_salt K (salt p) = Inr sb"
  shows "gives_bytes K H (rpc_serving K fx) default_options s pt"
proof -
  have "run_mock K H (rpc_serving K fx) default_options s =
      Some (verdict (gateway_says K (on_mock H (rpc_serving K fx)) RPC_DEFAULT_BASE p))"
    by (rule run_gateway [OF _ _ _ assms(3)]) (simp_all add: rpc_serving_def serving [OF assms(1)])
  moreover have "verdict (gateway_says K (on_mock H (rpc_serving K fx)) RPC_DEFAULT_BASE p) =
      Inr (Success (resolved_data_new pt (derive IMG_KEY pt)))"
    by (rule gateway_gives [OF assms(1,2,4,5) trim_gateway_base]) (simp add: rpc_serving_def serving [OF assms(1)])
  ultimately show ?thesis by (intro gives_bytesI) simp
qed

lemma fixture_root: "is_fixture K S key sb pt fx ct \<Longrightarrow> hex64 (fx_root_hex fx)"
  by (simp add: is_fixture_def)

lemma rpc_tier_resolves_root_pinned_passes:
  assumes "libraries K S"
  shows "rpc_tier_resolves_root_pinned K S H"
  unfolding rpc_tier_resolves_root_pinned_def
proof (rule on_plain_fixtureI [OF assms])
  fix fx ct
  assume fx: "is_fixture K S IMG_KEY None (str_bytes ''pinned bytes'') fx ct"
  from parse_pinned [OF assms fixture_root [OF fx]] rpc_serving_gives [OF assms fx] names_no_salt
  show "gives_bytes K H (rpc_serving K fx) default_options (root_pinned_urn IMG_KEY (fx_root_hex fx)) (str_bytes ''pinned bytes'')"
    by blast
qed (simp_all add: str_bytes_def)

lemma rpc_private_store_salt_decrypts_root_pinned_passes:
  assumes "libraries K S"
  shows "rpc_private_store_salt_decrypts_root_pinned K S H"
proof -
  have "salt_contract K" using assms by (simp add: libraries_def)
  with constants_ok(4) obtain sb where sb: "b32_from_hex K (test_salt ''cd'') = Some sb"
    unfolding salt_contract_def by blast
  show ?thesis unfolding rpc_private_store_salt_decrypts_root_pinned_def
  proof (rule on_fixtureI [OF assms, where sb = "Some sb"])
    fix fx ct
    assume fx: "is_fixture K S IMG_KEY (Some sb) (str_bytes ''secret art'') fx ct"
    show "gives_bytes K H (rpc_serving K fx) default_options
        (with_salt (root_pinned_urn IMG_KEY (fx_root_hex fx)) (test_salt ''cd'')) (str_bytes ''secret art'')"
      by (rule parse_salted [OF assms fixture_root [OF fx] constants_ok(4)])
        (use sb in \<open>auto intro: rpc_serving_gives [OF assms fx]\<close>)
  qed (use sb in \<open>simp_all add: str_bytes_def\<close>)
qed

lemma browser_cors_blocked_local_probe_falls_back_to_verified_rpc_passes:
  assumes "libraries K S"
  shows "browser_cors_blocked_local_probe_falls_back_to_verified_rpc K S H"
  unfolding browser_cors_blocked_local_probe_falls_back_to_verified_rpc_def
proof (rule on_plain_fixtureI [OF assms])
  fix fx ct
  assume fx: "is_fixture K S IMG_KEY None (str_bytes ''rpc bytes'') fx ct"
  from parse_pinned [OF assms fixture_root [OF fx]] rpc_serving_gives [OF assms fx] names_no_salt
  show "gives_bytes K H (rpc_serving K fx) default_options (root_pinned_urn IMG_KEY (fx_root_hex fx)) (str_bytes ''rpc bytes'')"
    by blast
qed (simp_all add: str_bytes_def)

text \<open>What the gate refuses is an integrity failure.\<close>

lemma rpc_serving_refuses:
  assumes "libraries K S" and "parse_urn K s = Inr p" and "root_hex K p = Some root"
    and "fx_ciphertext_b64 fx = b64_encode K ct" and "fx_total_length fx = word_of_nat (length ct)"
    and "0 < length ct" and "length ct \<le> 1024"
    and "\<exists>e. verify_and_decrypt K p ct (fx_proof_b64 fx) root (fx_chunk_lens fx) = Inl e \<and>
      verdict (Inl e) = Inr IntegrityFailure"
  shows "run_mock K H (rpc_serving K fx) default_options s = Some (Inr IntegrityFailure)"
proof -
  have "run_mock K H (rpc_serving K fx) default_options s =
      Some (verdict (gateway_says K (on_mock H (rpc_serving K fx)) RPC_DEFAULT_BASE p))"
    by (rule run_gateway [OF _ _ _ assms(2)]) (simp_all add: rpc_serving_def serving [OF assms(1)])
  moreover have "verdict (gateway_says K (on_mock H (rpc_serving K fx)) RPC_DEFAULT_BASE p) = Inr IntegrityFailure"
    using gateway_on [OF assms(1,3) trim_gateway_base assms(4-7), of "rpc_serving K fx" H] assms(8)
    by (auto simp: rpc_serving_def serving [OF assms(1)])
  ultimately show ?thesis by simp
qed

lemma tampered_run:
  assumes "libraries K S" and "is_fixture K S IMG_KEY None pt fx ct" and "0 < length b" and "length b \<le> 1024"
    and "dc_resource_leaf K b \<noteq> dc_resource_leaf K ct"
  shows "run_mock K H (rpc_serving K (tampered_with K b fx)) default_options (root_pinned_urn IMG_KEY (fx_root_hex fx)) =
    Some (Inr IntegrityFailure)"
proof -
  obtain p where p: "parse_urn K (root_pinned_urn IMG_KEY (fx_root_hex fx)) = Inr p"
    "names K p (Some (fx_root_hex fx)) IMG_KEY None" using parse_pinned [OF assms(1) fixture_root [OF assms(2)]] by blast
  then have "root_hex K p = Some (fx_root_hex fx)" by (simp add: names_def)
  from rpc_serving_refuses [OF assms(1) p(1) this, of "tampered_with K b fx" b]
    tampered_refused [OF assms(1,2) names_no_salt [OF p(2)] assms(5)] assms(3,4)
  show ?thesis by (simp add: tampered_with_def)
qed

text \<open>The hash tells the ciphertexts of the tests from the bytes they put in their place.\<close>

definition tamper_shows :: "('u, 'm) crates \<Rightarrow> demo_store \<Rightarrow> bool" where
  "tamper_shows K S \<longleftrightarrow>
     (\<forall>b \<in> {str_bytes ''tampered ciphertext bytes!!'', str_bytes ''evil''}.
        dc_resource_leaf K b \<noteq> dc_resource_leaf K
          (ds_encrypt_chunk S (dc_derive_decryption_key K (canonical_of IMG_KEY) None) (str_bytes ''authentic'')))"

lemma tampered_authentic:
  assumes "libraries K S" and "tamper_shows K S" and "is_fixture K S IMG_KEY None (str_bytes ''authentic'') fx ct"
    and "b \<in> {str_bytes ''tampered ciphertext bytes!!'', str_bytes ''evil''}"
  shows "run_mock K H (rpc_serving K (tampered_with K b fx)) default_options (root_pinned_urn IMG_KEY (fx_root_hex fx)) =
    Some (Inr IntegrityFailure)"
proof (rule tampered_run [OF assms(1,3)])
  show "0 < length b" "length b \<le> 1024" using assms(4) by (auto simp: str_bytes_def)
  show "dc_resource_leaf K b \<noteq> dc_resource_leaf K ct" using assms(2-4) unfolding tamper_shows_def is_fixture_def by blast
qed

lemma tampered_ciphertext_is_integrity_failure_not_data_passes:
  assumes "libraries K S" and "tamper_shows K S"
  shows "tampered_ciphertext_is_integrity_failure_not_data K S H"
  unfolding tampered_ciphertext_is_integrity_failure_not_data_def
  by (rule on_plain_fixtureI [OF assms(1)]) (simp_all add: tampered_authentic [OF assms] str_bytes_def [of "''authentic''"])

lemma security_page:
  "page_with (Some (render IntegrityFailure cta)) [''Integrity Verification Failed''] [''evil'', ''Connect to Node'']"
  by (simp add: page_with_def integrity_failure_html_def page_def page_head_def contains_unlines em_dash_def middot_def
      HTML_CONTENT_TYPE_def)

lemma integrity_failure_renders_security_page_never_the_bytes_passes:
  assumes "libraries K S" and "tamper_shows K S"
  shows "integrity_failure_renders_security_page_never_the_bytes K S H"
  unfolding integrity_failure_renders_security_page_never_the_bytes_def
  by (rule on_plain_fixtureI [OF assms(1)])
    (simp_all add: render_mock_page [OF tampered_authentic [OF assms]] security_page str_bytes_def [of "''authentic''"]
      del: render.simps)

lemma wrong_salt_is_integrity_failure_passes:
  assumes "libraries K S"
  shows "wrong_salt_is_integrity_failure K S H"
  unfolding wrong_salt_is_integrity_failure_def
proof (rule on_plain_fixtureI [OF assms])
  fix fx ct
  assume fx: "is_fixture K S IMG_KEY None (str_bytes ''art'') fx ct"
  obtain p b where p: "parse_urn K (with_salt (root_pinned_urn IMG_KEY (fx_root_hex fx)) (test_salt ''ef'')) = Inr p"
    "names K p (Some (fx_root_hex fx)) IMG_KEY (Some (test_salt ''ef''))" "parse_salt K (salt p) = Inr (Some b)"
    using parse_salted [OF assms fixture_root [OF fx] constants_ok(5)] by metis
  then have "root_hex K p = Some (fx_root_hex fx)" "keyed_as K (urn p) IMG_KEY" by (simp_all add: names_def)
  with rpc_serving_refuses [OF assms p(1), of "fx_root_hex fx" fx ct] wrong_salt_refused [OF assms fx _ p(3)] fx
  show "run_mock K H (rpc_serving K fx) default_options
      (with_salt (root_pinned_urn IMG_KEY (fx_root_hex fx)) (test_salt ''ef'')) = Some (Inr IntegrityFailure)"
    by (auto simp: is_fixture_def)
qed (simp_all add: str_bytes_def)

text \<open>A total wrapped in 32 bits is no total of the ciphertext.\<close>

lemma chunk_lens_overflow_is_integrity_failure_not_panic_passes:
  assumes "libraries K S"
  shows "chunk_lens_overflow_is_integrity_failure_not_panic K S H"
  unfolding chunk_lens_overflow_is_integrity_failure_not_panic_def
proof (rule on_plain_fixtureI [OF assms])
  fix fx ct
  assume fx: "is_fixture K S IMG_KEY None (str_bytes ''authentic bytes here!!'') fx ct"
  let ?lens = "[ucast (fx_total_length fx) + 2 ^ 31, 2 ^ 31] :: u32 list"
  let ?fx = "fx\<lparr>fx_chunk_lens := ?lens\<rparr>"
  obtain p where p: "parse_urn K (root_pinned_urn IMG_KEY (fx_root_hex fx)) = Inr p"
    "names K p (Some (fx_root_hex fx)) IMG_KEY None" using parse_pinned [OF assms fixture_root [OF fx]] by blast
  have small: "length ct \<le> 1024" "fx_total_length fx = word_of_nat (length ct)"
    using fx unfolding is_fixture_def by blast+
  have "ucast (fx_total_length fx) + 2 ^ 31 = (word_of_nat (length ct + 2 ^ 31) :: u32)"
    using small by (simp add: unsigned_of_nat take_bit_nat_eq_self)
  moreover have "unat (word_of_nat (length ct + 2 ^ 31) :: u32) = length ct + 2 ^ 31"
    using small(1) by (simp only: unsigned_of_nat) (simp add: take_bit_nat_eq_self)
  ultimately have "length ct < sum_list (map unat ?lens)" by simp
  then have "verify_and_decrypt K p ct (fx_proof_b64 fx) (fx_root_hex fx) ?lens \<noteq> Inr b" for b
    using released_single_chunk(1) [OF assms names_no_salt [OF p(2)]] by fastforce
  from fixture_refused [OF assms names_no_salt [OF p(2)] this]
    rpc_serving_refuses [OF assms p(1), of "fx_root_hex fx" ?fx ct] p(2) fx
  show "run_mock K H (rpc_serving K ?fx) default_options (root_pinned_urn IMG_KEY (fx_root_hex fx)) =
      Some (Inr IntegrityFailure)"
    by (auto simp: is_fixture_def names_def)
qed (simp_all add: str_bytes_def)

section \<open>The tests hold: no content\<close>

lemma first_window_fails:
  assumes "root_hex K p = Some root" and "trim_end_matches CHR ''/'' base = base"
    and "fst (one_window K H base p root (window_start\<lparr>w_windows := 1\<rparr>) []) = Inl e"
  shows "gateway_says K H base p = Inl e"
proof -
  obtain h' where "one_window K H base p root (window_start\<lparr>w_windows := 1\<rparr>) [] = (Inl e, h')"
    using assms(3) by (cases "one_window K H base p root (window_start\<lparr>w_windows := 1\<rparr>) []") auto
  moreover have "w_windows window_start = 0" by (simp add: window_start_def)
  ultimately have "window_loop K H base p root window_start [] = (Inl e, h')"
    by (simp add: window_loop.simps [of K H base p root window_start] MAX_WINDOWS_nat)
  with assms(1,2) show ?thesis by (simp add: gateway_says_def rpc_fetch_def trusted_root_def)
qed

lemma gateway_down_says:
  assumes "root_hex K p = Some root" and "trim_end_matches CHR ''/'' base = base"
    and "post_fn M base (window_body K p root 0) = Some (Inl transport_err)"
  shows "gateway_says K (on_mock H M) base p = Inl (Transport ''connection refused'')"
  by (rule first_window_fails [OF assms(1,2)])
    (use assms(3) in \<open>simp add: one_window_def rpc_call_eq mock_net_def window_start_def window_body_def transport_err_def\<close>)

lemma gateway_empty_says:
  assumes "libraries K S" and "root_hex K p = Some root" and "trim_end_matches CHR ''/'' base = base"
    and "post_fn M = gateway_empty K"
  shows "gateway_says K (on_mock H M) base p = Inl NotFound"
proof (rule first_window_fails [OF assms(2,3)])
  let ?r = "\<lparr>gc_total_length = 0, gc_offset = 0, gc_next_offset = None, gc_complete = None, gc_ciphertext = None,
      gc_inclusion_proof = None, gc_chunk_lens = None\<rparr>"
  have "serde_contract K" using assms(1) by (simp add: libraries_def)
  then obtain env r where
      "sj_value_from_slice K (str_bytes (sj_to_string K (rpc_document (JObject [(''total_length'', JNumber (PosInt 0))])))) = Inr env"
      "json_get ''error'' env = None" "json_get ''result'' env = Some r" "sj_get_content K r = Inr ?r"
    unfolding serde_contract_def by blast
  then have "rpc_result K (sj_get_content K) ''dig.getContent''
      (rpc_ok K (JObject [(''total_length'', JNumber (PosInt 0))])) = Inr ?r"
    by (simp add: rpc_result_def is_success_def rpc_ok_def mock_ok_def)
  then show "fst (one_window K (on_mock H M) base p root (window_start\<lparr>w_windows := 1\<rparr>) []) = Inl NotFound"
    by (simp add: one_window_def rpc_call_eq mock_net_def assms(4) gateway_empty_def absorb_window_def window_total_def
        window_start_def)
qed

lemma pinned_parses:
  assumes "libraries K S"
  obtains p where "parse_urn K (pinned IMG_KEY) = Inr p" and "root_hex K p = Some DUMMY_ROOT"
    and "names K p (Some DUMMY_ROOT) IMG_KEY None"
  using parse_pinned [OF assms constants_ok(3)] by (auto simp: pinned_def names_def)

lemma rpc_not_found_when_content_empty_passes:
  assumes "libraries K S"
  shows "rpc_not_found_when_content_empty K H"
proof -
  obtain p where p: "parse_urn K (pinned IMG_KEY) = Inr p" "root_hex K p = Some DUMMY_ROOT" by (rule pinned_parses [OF assms])
  let ?M = "\<lparr>get_fn = no_node, post_fn = gateway_empty K\<rparr>"
  have "run_mock K H ?M default_options (pinned IMG_KEY) =
      Some (verdict (gateway_says K (on_mock H ?M) RPC_DEFAULT_BASE p))"
    by (rule run_gateway [OF _ _ _ p(1)]) (simp_all add: gateway_empty_def)
  then show ?thesis
    by (simp add: rpc_not_found_when_content_empty_def gateway_empty_says [OF assms p(2) trim_gateway_base])
qed

lemma rpc_protocol_error_is_hard_error_not_unreachable_passes:
  assumes "libraries K S"
  shows "rpc_protocol_error_is_hard_error_not_unreachable K H"
proof -
  obtain p where p: "parse_urn K (pinned IMG_KEY) = Inr p" "root_hex K p = Some DUMMY_ROOT" by (rule pinned_parses [OF assms])
  let ?doc = "sj_to_string K (JObject [(''jsonrpc'', JString ''2.0''), (''id'', JNumber (PosInt 1)),
      (''error'', JObject [(''code'', JNumber (NegInt (- 32000))), (''message'', JString ''boom'')])])"
  let ?M = "\<lparr>get_fn = no_node,
      post_fn = (\<lambda>url bdy. Some (Inr (mock_ok (str_bytes ?doc) (Some ''application/json''))))\<rparr>"
  have "serde_contract K" using assms by (simp add: libraries_def)
  then obtain env err' where "sj_value_from_slice K (str_bytes ?doc) = Inr env" "json_get ''error'' env = Some err'"
    "err' \<noteq> JNull" unfolding serde_contract_def by blast
  then have "\<exists>m. rpc_result K (sj_get_content K) ''dig.getContent'' (mock_ok (str_bytes ?doc) (Some ''application/json'')) =
      Inl (Rpc m)"
    by (simp add: rpc_result_def is_success_def mock_ok_def Let_def)
  then obtain m where "rpc_result K (sj_get_content K) ''dig.getContent''
      (mock_ok (str_bytes ?doc) (Some ''application/json'')) = Inl (Rpc m)" ..
  then have "fst (one_window K (on_mock H ?M) RPC_DEFAULT_BASE p DUMMY_ROOT (window_start\<lparr>w_windows := 1\<rparr>) []) = Inl (Rpc m)"
    by (simp add: one_window_def rpc_call_eq mock_net_def)
  from first_window_fails [OF p(2) trim_gateway_base this]
  have "gateway_says K (on_mock H ?M) RPC_DEFAULT_BASE p = Inl (Rpc m)" .
  moreover have "run_mock K H ?M default_options (pinned IMG_KEY) =
      Some (verdict (gateway_says K (on_mock H ?M) RPC_DEFAULT_BASE p))"
    by (rule run_gateway [OF _ _ _ p(1)]) simp_all
  ultimately show ?thesis
    by (simp add: rpc_protocol_error_is_hard_error_not_unreachable_def)
qed

lemma all_down_run:
  assumes "libraries K S" and "o_endpoint opts = None" and "o_cache_path opts = None"
  shows "run_mock K H all_down opts (pinned IMG_KEY) = Some (Inr Unreachable)"
proof -
  obtain p where p: "parse_urn K (pinned IMG_KEY) = Inr p" "root_hex K p = Some DUMMY_ROOT"
    by (rule pinned_parses [OF assms(1)])
  have "run_mock K H all_down opts (pinned IMG_KEY) =
      Some (verdict (gateway_says K (on_mock H all_down) RPC_DEFAULT_BASE p))"
    by (rule run_gateway [OF _ assms(3,2) p(1)]) (simp_all add: all_down_def gateway_down_def)
  moreover have "gateway_says K (on_mock H all_down) RPC_DEFAULT_BASE p = Inl (Transport ''connection refused'')"
    by (rule gateway_down_says [OF p(2) trim_gateway_base]) (simp add: all_down_def gateway_down_def)
  ultimately show ?thesis by simp
qed

end
