(* ===== verification/TestCrates.thy ===== *)
theory TestCrates
  imports TestKit
begin

text \<open>
  An instance of the crates on which the integration tests run: a URN parser for the forms of the
  tests, a one-leaf merkle tree, an encryption that puts a key byte in front, and a JSON format
  whose reader inverts its writer.  The lemmas prove the documented behaviour of \<open>TestKit\<close> for it.
\<close>

section \<open>A JSON format\<close>

fun enc_str :: "string \<Rightarrow> string" where
  "enc_str [] = ''.''"
| "enc_str (c # s) = CHR ''-'' # c # enc_str s"

fun dec_str :: "string \<Rightarrow> string \<times> string" where
  "dec_str [] = ([], [])"
| "dec_str [x] = ([], [])"
| "dec_str (x # c # r) =
     (if x = CHR ''-'' then (case dec_str r of (s, r') \<Rightarrow> (c # s, r')) else ([], c # r))"

lemma dec_enc_str [simp]: "dec_str (enc_str s @ r) = (s, r)"
proof (induction s)
  case Nil
  then show ?case by (cases r) simp_all
qed simp

definition enc_num :: "u64 \<Rightarrow> string" where
  "enc_num w = bytes_str (enc_u64 w)"

definition dec_num :: "string \<Rightarrow> u64 \<times> string" where
  "dec_num s = (dec_u64 (str_bytes (take 64 s)), drop 64 s)"

lemma dec_enc_num [simp]: "dec_num (enc_num w @ r) = (w, r)"
proof -
  have "length (enc_num w) = 64" by (simp add: enc_num_def enc_u64_def bytes_str_def)
  then show ?thesis by (simp add: dec_num_def enc_num_def dec_enc_u64)
qed

primrec enc_number :: "json_number \<Rightarrow> string" where
  "enc_number (PosInt w) = CHR ''p'' # enc_num w"
| "enc_number (NegInt w) = CHR ''m'' # enc_num w"
| "enc_number (Float w) = CHR ''d'' # enc_num w"

primrec enc_json :: "json \<Rightarrow> string" where
  "enc_json JNull = ''n''"
| "enc_json (JBool b) = (if b then ''t'' else ''f'')"
| "enc_json (JNumber n) = enc_number n"
| "enc_json (JString s) = CHR ''s'' # enc_str s"
| "enc_json (JArray xs) = CHR ''a'' # concat (map (\<lambda>t. CHR ''-'' # t) (map enc_json xs)) @ ''.''"
| "enc_json (JObject kvs) =
     CHR ''o'' # concat (map (\<lambda>(k, t). CHR ''-'' # enc_str k @ t) (map (map_prod id enc_json) kvs)) @ ''.''"

fun dec_json :: "nat \<Rightarrow> string \<Rightarrow> (json \<times> string) option"
  and dec_items :: "nat \<Rightarrow> string \<Rightarrow> (json list \<times> string) option"
  and dec_fields :: "nat \<Rightarrow> string \<Rightarrow> ((string \<times> json) list \<times> string) option" where
  "dec_json (Suc n) (c # r) =
     (if c = CHR ''n'' then Some (JNull, r)
      else if c = CHR ''t'' then Some (JBool True, r)
      else if c = CHR ''f'' then Some (JBool False, r)
      else if c = CHR ''p'' then Some (apfst (\<lambda>w. JNumber (PosInt w)) (dec_num r))
      else if c = CHR ''m'' then Some (apfst (\<lambda>w. JNumber (NegInt w)) (dec_num r))
      else if c = CHR ''d'' then Some (apfst (\<lambda>w. JNumber (Float w)) (dec_num r))
      else if c = CHR ''s'' then Some (apfst JString (dec_str r))
      else if c = CHR ''a'' then map_option (apfst JArray) (dec_items n r)
      else if c = CHR ''o'' then map_option (apfst JObject) (dec_fields n r)
      else None)"
| "dec_json _ _ = None"
| "dec_items (Suc n) (c # r) =
     (if c = CHR ''-''
      then Option.bind (dec_json n r) (\<lambda>(x, r1). map_option (apfst (\<lambda>xs. x # xs)) (dec_items n r1))
      else Some ([], r))"
| "dec_items _ _ = None"
| "dec_fields (Suc n) (c # r) =
     (if c = CHR ''-''
      then (case dec_str r of (k, r0) \<Rightarrow>
              Option.bind (dec_json n r0) (\<lambda>(x, r1). map_option (apfst (\<lambda>kvs. (k, x) # kvs)) (dec_fields n r1)))
      else Some ([], r))"
| "dec_fields _ _ = None"

lemma dec_enc_json: "length (enc_json j) \<le> n \<Longrightarrow> dec_json n (enc_json j @ r) = Some (j, r)"
proof (induction j arbitrary: n r)
  case (JNumber w)
  then show ?case by (cases n; cases w) simp_all
next
  case (JArray xs)
  have items: "length (concat (map (\<lambda>t. CHR ''-'' # t) (map enc_json ys)) @ ''.'') \<le> n \<Longrightarrow>
      dec_items n ((concat (map (\<lambda>t. CHR ''-'' # t) (map enc_json ys)) @ ''.'') @ r) = Some (ys, r)"
    if "set ys \<subseteq> set xs" for ys n
    using that
  proof (induction ys arbitrary: n)
    case Nil
    then show ?case by (cases n) simp_all
  next
    case (Cons y ys)
    then show ?case using JArray.IH [of y] by (cases n) simp_all
  qed
  from JArray.prems items [OF subset_refl] show ?case by (cases n) simp_all
next
  case (JObject kvs)
  have fields: "length (concat (map (\<lambda>(k, t). CHR ''-'' # enc_str k @ t) (map (map_prod id enc_json) ys)) @ ''.'') \<le> n \<Longrightarrow>
      dec_fields n ((concat (map (\<lambda>(k, t). CHR ''-'' # enc_str k @ t) (map (map_prod id enc_json) ys)) @ ''.'') @ r) = Some (ys, r)"
    if "set ys \<subseteq> set kvs" for ys n
    using that
  proof (induction ys arbitrary: n)
    case Nil
    then show ?case by (cases n) simp_all
  next
    case (Cons y ys)
    obtain k v where y: "y = (k, v)" by fastforce
    with Cons.prems have "\<And>n r. length (enc_json v) \<le> n \<Longrightarrow> dec_json n (enc_json v @ r) = Some (v, r)"
      using JObject.IH [of y v] by auto
    with Cons y show ?case by (cases n) simp_all
  qed
  from JObject.prems fields [OF subset_refl] show ?case by (cases n) simp_all
qed (case_tac [!] n, simp_all split: if_splits)

definition read_json :: "bytes \<Rightarrow> string + json" where
  "read_json b =
     (case dec_json (length b) (bytes_str b) of
        Some (j, []) \<Rightarrow> Inr j
      | _ \<Rightarrow> Inl ''expected value'')"

lemma read_enc_json [simp]: "read_json (str_bytes (enc_json j)) = Inr j"
  using dec_enc_json [of j "length (enc_json j)" "[]"] by (simp add: read_json_def)

declare enc_json.simps [simp del]

section \<open>Reading the structures\<close>

fun json_num :: "json \<Rightarrow> u64" where
  "json_num (JNumber (PosInt n)) = n"
| "json_num _ = 0"

fun json_nums :: "json option \<Rightarrow> u64 list option" where
  "json_nums (Some (JArray xs)) = Some (map json_num xs)"
| "json_nums _ = None"

fun json_text :: "json option \<Rightarrow> string option" where
  "json_text (Some (JString s)) = Some s"
| "json_text _ = None"

fun json_flag :: "json option \<Rightarrow> bool option" where
  "json_flag (Some (JBool b)) = Some b"
| "json_flag _ = None"

fun json_count :: "json option \<Rightarrow> u64 option" where
  "json_count (Some (JNumber (PosInt n))) = Some n"
| "json_count _ = None"

definition read_content :: "json \<Rightarrow> string + get_content" where
  "read_content j =
     (let num = (\<lambda>k. json_count (json_get k j))
      in Inr \<lparr>gc_total_length = (case num ''total_length'' of Some n \<Rightarrow> n | None \<Rightarrow> 0),
              gc_offset = (case num ''offset'' of Some n \<Rightarrow> n | None \<Rightarrow> 0),
              gc_next_offset = num ''next_offset'', gc_complete = json_flag (json_get ''complete'' j),
              gc_ciphertext = json_text (json_get ''ciphertext'' j),
              gc_inclusion_proof = json_text (json_get ''inclusion_proof'' j),
              gc_chunk_lens = map_option (map ucast) (json_nums (json_get ''chunk_lens'' j))\<rparr>)"

definition number :: "u64 \<Rightarrow> json" where
  "number n = JNumber (PosInt n)"

definition artifacts_json :: "disk_artifacts \<Rightarrow> json" where
  "artifacts_json a =
     JObject [(''ciphertext'', JArray (map (\<lambda>b. JNumber (PosInt (ucast b))) (da_ciphertext a))),
       (''proof_b64'', JString (da_proof_b64 a)),
       (''chunk_lens'', JArray (map (\<lambda>n. JNumber (PosInt (ucast n))) (da_chunk_lens a)))]"

definition read_artifacts :: "bytes \<Rightarrow> disk_artifacts option" where
  "read_artifacts b =
     (case read_json b of
        Inl _ \<Rightarrow> None
      | Inr j \<Rightarrow>
         (case (json_nums (json_get ''ciphertext'' j), json_text (json_get ''proof_b64'' j),
                json_nums (json_get ''chunk_lens'' j)) of
            (Some ct, Some pf, Some lens) \<Rightarrow>
              Some \<lparr>da_ciphertext = map ucast ct, da_proof_b64 = pf, da_chunk_lens = map ucast lens\<rparr>
          | _ \<Rightarrow> None))"

lemma narrow [simp]: "ucast (ucast (b :: u8) :: u64) = b" "ucast (ucast (n :: u32) :: u64) = n"
  by (simp_all add: unsigned_ucast_eq take_bit_word_eq_self)

lemma read_back [simp]: "read_artifacts (str_bytes (enc_json (artifacts_json a))) = Some a"
  by (simp add: read_artifacts_def artifacts_json_def comp_def)

section \<open>The crates\<close>

definition suite_parse :: "string \<Rightarrow> string + demo_urn \<times> string option" where
  "suite_parse s =
     (if take 13 s \<noteq> ''urn:dig:chia:'' then Inl ''not a DIG URN''
      else let r = drop 77 s;
               (root, r') = (if take 1 r = '':'' then (Some (take 64 (drop 1 r)), drop 65 r) else (None, r));
               key = takeWhile (\<lambda>c. c \<noteq> CHR ''?'') (drop 1 r');
               query = drop (length key) (drop 1 r')
           in Inr (\<lparr>d_chain = ''chia'', d_store = take 64 (drop 13 s), d_root = root, d_key = key\<rparr>,
                   if query = [] then None else Some (drop 6 query)))"

definition suite_urls :: "(string \<times> string) list" where
  "suite_urls = base_hosts"

definition suite_crates :: "(demo_urn, bytes) crates" where
  "suite_crates = demo_crates
     \<lparr>du_parse_with_salt := suite_parse,
      du_canonical := (\<lambda>u. ''urn:dig:chia:'' @ d_store u @ ''/'' @ d_key u),
      du_salt_bytes := (\<lambda>s. if hex64 s then Some (str_bytes s) else None),
      b32_from_hex := (\<lambda>s. if hex64 s then Some (str_bytes s) else None),
      mp_from_bytes := Some,
      mp_leaf := drop 64,
      mp_root := take 64,
      dc_derive_decryption_key := (\<lambda>c s. case s of None \<Rightarrow> [0] | Some b \<Rightarrow> [1]),
      dc_decrypt_chunk := sage_open,
      sj_value_from_slice := read_json,
      sj_to_string := enc_json,
      sj_get_content := read_content,
      sj_artifacts_to_vec := (\<lambda>a. Some (str_bytes (enc_json (artifacts_json a)))),
      sj_artifacts_from_slice := read_artifacts,
      url_parse := (\<lambda>u. map_option (\<lambda>n. (''http'', Some n)) (map_of base_hosts u))\<rparr>"

definition suite_store :: demo_store where
  "suite_store =
     \<lparr>ds_encrypt_chunk = (\<lambda>key pt. first_byte key @ pt), ds_root_hex = (\<lambda>leaves. sage_root),
      ds_prove = (\<lambda>leaves n. Some (str_bytes sage_root @ leaves ! n))\<rparr>"

lemma suite_fields:
  "du_parse_with_salt suite_crates = suite_parse" "du_root_hex suite_crates = d_root"
  "du_store_id_hex suite_crates = d_store"
  "du_effective_resource_key suite_crates u = (if d_key u = [] then ''index.html'' else d_key u)"
  "du_canonical_rootless suite_crates u = u\<lparr>d_root := None\<rparr>"
  "du_canonical suite_crates u = ''urn:dig:chia:'' @ d_store u @ ''/'' @ d_key u"
  "pv_verify_and_decrypt suite_crates = demo_pv_verify_and_decrypt"
  "dc_resource_leaf suite_crates ct = ct" "mp_verify suite_crates = (\<lambda>m. True)"
  "b64_decode suite_crates = demo_b64_decode" "b64_encode suite_crates = demo_b64_encode"
  "dc_sha256_hex suite_crates = (\<lambda>b. replicate 64 CHR ''a'')"
  by (simp_all add: suite_crates_def demo_crates_def)

lemma plain_no_query:
  assumes "plain_key key"
  shows "CHR ''?'' \<notin> set key"
proof
  assume "CHR ''?'' \<in> set key"
  with assms have "CHR ''?'' \<in> set ''abcdefghijklmnopqrstuvwxyzABCDEFGHIJKLMNOPQRSTUVWXYZ0123456789/.-_''"
    unfolding plain_key_def list_all_iff by blast
  then show False by simp
qed

lemma takeWhile_query:
  assumes "plain_key key"
  shows "takeWhile (\<lambda>c. c \<noteq> CHR ''?'') (key @ CHR ''?'' # q) = key" and "takeWhile (\<lambda>c. c \<noteq> CHR ''?'') key = key"
  using plain_no_query [OF assms] by (auto simp: takeWhile_tail takeWhile_eq_all_conv)

lemma suite_urn: "urn_contract suite_crates"
proof -
  have store: "length STORE_HEX = 64" "take 1 STORE_HEX \<noteq> '':''" by (simp_all add: STORE_HEX_def)
  let ?u = "\<lambda>root key. \<lparr>d_chain = ''chia'', d_store = STORE_HEX, d_root = root, d_key = key\<rparr>"
  have bare: "suite_parse (''urn:dig:chia:'' @ STORE_HEX) = Inr (?u None [], None)"
    by (simp add: suite_parse_def store)
  have parse: "suite_parse (root_pinned_urn key root) = Inr (?u (Some root) key, None)"
      "suite_parse (with_salt (root_pinned_urn key root) sl) = Inr (?u (Some root) key, Some sl)"
      "suite_parse (rootless_urn key) = Inr (?u None key, None)"
    if "hex64 root" "plain_key key" for root key sl
    using that by (simp_all add: suite_parse_def root_pinned_urn_def rootless_urn_def with_salt_def store hex64_def
        takeWhile_query)
  show ?thesis
    unfolding urn_contract_def
  proof (intro conjI allI impI)
    show "\<exists>m. du_parse_with_salt suite_crates ''not-a-urn'' = Inl m" by (simp add: suite_fields suite_parse_def)
    show "\<exists>u. du_parse_with_salt suite_crates (''urn:dig:chia:'' @ STORE_HEX) = Inr (u, None) \<and>
        reads_as suite_crates u None ''index.html''"
      using bare by (simp add: suite_fields reads_as_def)
    fix root key sl
    assume a: "hex64 root \<and> plain_key key \<and> hex64 sl"
    then have "key \<noteq> []" by (simp add: plain_key_def)
    with parse(1) [of root key] parse(2) [of root key sl] parse(3) [of root key] a have "reads_as suite_crates (?u (Some root) key) (Some root) key \<and> keyed_as suite_crates (?u (Some root) key) key \<and>
        reads_as suite_crates (?u None key) None key \<and> keyed_as suite_crates (?u None key) key \<and>
        du_parse_with_salt suite_crates (root_pinned_urn key root) = Inr (?u (Some root) key, None) \<and>
        du_parse_with_salt suite_crates (with_salt (root_pinned_urn key root) sl) = Inr (?u (Some root) key, Some sl) \<and>
        du_parse_with_salt suite_crates (rootless_urn key) = Inr (?u None key, None)"
      by (simp add: reads_as_def keyed_as_def suite_fields canonical_of_def)
    then show "\<exists>u v. reads_as suite_crates u (Some root) key \<and> keyed_as suite_crates u key \<and>
        reads_as suite_crates v None key \<and> keyed_as suite_crates v key \<and>
        du_parse_with_salt suite_crates (root_pinned_urn key root) = Inr (u, None) \<and>
        du_parse_with_salt suite_crates (with_salt (root_pinned_urn key root) sl) = Inr (u, Some sl) \<and>
        du_parse_with_salt suite_crates (rootless_urn key) = Inr (v, None)"
      by blast
  qed
qed

lemma suite_merkle: "merkle_contract suite_crates suite_store"
proof -
  have hex: "hex64 sage_root" by (simp add: hex64_def sage_root_def is_hex_digit_def list_all_iff)
  moreover have "length sage_root = 64" by (simp add: sage_root_def)
  ultimately show ?thesis
    using hex64_trim [OF hex] by (simp add: merkle_contract_def suite_store_def suite_crates_def demo_crates_def)
qed

lemma suite_sealed: "sealed suite_crates suite_store"
  by (auto simp: sealed_def suite_crates_def suite_store_def sage_open_def first_byte_def split: option.split)

lemma suite_chunk: "chunk_contract suite_crates suite_store"
  by (simp add: chunk_contract_def suite_store_def suite_crates_def sage_open_def)

lemma suite_salt: "salt_contract suite_crates"
  by (simp add: salt_contract_def suite_crates_def)

lemma suite_gate:
  "gate_contract suite_crates" "decrypt_contract suite_crates" "gate_refusals suite_crates" "gate_complete suite_crates"
proof -
  show "gate_contract suite_crates"
    by (auto simp: gate_contract_def suite_fields demo_pv_verify_and_decrypt_def demo_pv_verify_def
        split: sum.splits option.splits if_splits)
  show "decrypt_contract suite_crates"
    unfolding decrypt_contract_def suite_fields by (intro allI impI) (rule demo_splits)
  show "gate_refusals suite_crates"
    by (auto simp: gate_refusals_def suite_fields demo_pv_verify_and_decrypt_def demo_pv_verify_def
        demo_pv_decrypt_def split: option.splits if_splits)
  show "gate_complete suite_crates"
    by (auto simp: gate_complete_def suite_fields demo_pv_verify_and_decrypt_def
        demo_pv_verify_def demo_pv_decrypt_def unat_of_nat take_bit_nat_eq_self)
qed

lemma suite_b64: "b64_roundtrip suite_crates"
  using demo_b64 by (simp add: b64_roundtrip_def suite_fields demo_crates_def)

lemma suite_serde_fields:
  "sj_value_from_slice suite_crates = read_json" "sj_to_string suite_crates = enc_json"
  "sj_get_content suite_crates = read_content"
  by (simp_all add: suite_crates_def)

lemma suite_serde: "serde_contract suite_crates"
  unfolding serde_contract_def suite_serde_fields
  by (simp add: rpc_body_def suite_serde_fields rpc_document_def get_content_result_def read_content_def Let_def comp_def)

lemma suite_libraries: "libraries suite_crates suite_store"
  unfolding libraries_def
  using suite_urn suite_salt suite_sealed suite_serde suite_merkle suite_chunk suite_gate suite_b64 by blast

lemma suite_native: "native_build suite_crates (demo_host T)"
  by (simp add: native_build_def demo_host_def suite_crates_def base_hosts_def DIG_LOCAL_BASE_def LOCALHOST_BASE_def)

end
