(* ===== verification/IntegrationSuite.thy ===== *)
theory IntegrationSuite
  imports IntegrationTests TestCrates "HOL-Library.AList"
begin

text \<open>
  The rest of \<open>src/tests/resolve.rs\<close>: the tests that answer from a local node or an override, the
  pages, the two caches, and the suite as one statement about the resolver.
\<close>

section \<open>Pages, parsing and accessors\<close>

lemma plain_escape: "escape ''https://dig.net'' = ''https://dig.net''" "escape ''dig://home'' = ''dig://home''"
  by code_simp+

lemmas page_text = unreachable_html_def Let_def page_def page_head_def contains_unlines em_dash_def plain_escape

lemma page_says_heading: "contains ''DIG Network unreachable'' (unreachable_html ''https://dig.net'')"
  by (simp add: page_text)

lemma page_says_connect: "contains ''Connect to Node'' (unreachable_html ''https://dig.net'')"
  by (simp add: page_text)

lemma page_says_url: "contains ''https://dig.net'' (unreachable_html ''https://dig.net'')"
  by (simp add: page_text)

lemma page_no_alarm: "\<not> contains ''Integrity Verification Failed'' (unreachable_html ''https://dig.net'')"
  by (simp add: page_text)

lemma unreachable_page:
  "page_with (Some (render Unreachable ''https://dig.net''))
     [''DIG Network unreachable'', ''Connect to Node'', ''https://dig.net''] [''Integrity Verification Failed'']"
  by (simp add: page_with_def HTML_CONTENT_TYPE_def page_says_heading page_says_connect page_says_url page_no_alarm
      del: contains.simps)

lemma both_tiers_unreachable_is_unreachable_outcome_passes:
  "libraries K S \<Longrightarrow> both_tiers_unreachable_is_unreachable_outcome K H"
  unfolding both_tiers_unreachable_is_unreachable_outcome_def
  using all_down_run unreachable_page by (metis with_endpoint_sel(3,4))

lemma connect_page: "page_with (Some (render Unreachable ''dig://home'')) [''dig://home''] []"
  by (simp add: page_with_def HTML_CONTENT_TYPE_def page_text)

lemma unreachable_connect_url_is_overridable_passes:
  assumes "libraries K S"
  shows "unreachable_connect_url_is_overridable K H"
proof -
  let ?opts = "default_options\<lparr>o_connect_url := Some ''dig://home''\<rparr>"
  have "run_mock K H all_down ?opts (pinned IMG_KEY) = Some (Inr Unreachable)"
    by (rule all_down_run [OF assms]) (simp_all add: default_options_def)
  then show ?thesis
    by (simp add: unreachable_connect_url_is_overridable_def Let_def render_mock_page connect_page del: render.simps)
qed

lemma rejects_non_urn_passes:
  assumes "libraries K S"
  shows "rejects_non_urn K H"
proof -
  have "urn_contract K" using assms by (simp add: libraries_def)
  then obtain m where parse: "parse_urn K ''not-a-urn'' = Inl (Parse m)"
    unfolding urn_contract_def parse_urn_def by auto
  then have "run_mock K H M default_options ''not-a-urn'' = Some (specified K (on_mock H M) default_options ''not-a-urn'')"
    for M by (intro run_mock_specified) simp_all
  with parse show ?thesis by (simp add: rejects_non_urn_def specified_def)
qed

lemma outcome_accessors_pass: "outcome_accessors"
  by (simp add: outcome_accessors_def Let_def)

section \<open>The tests hold: a local node\<close>

lemma trim_headers: "trim ''true'' = ''true''" "trim ''text/plain'' = ''text/plain''" "trim ''text/html'' = ''text/html''"
  by code_simp+

lemma node_answer_attested:
  "node_answer K p (node_response b (Some ''text/plain'') True) =
     Inr \<lparr>f_data = resolved_data_new b ''text/plain'',
          f_root = node_root K p (node_response b (Some ''text/plain'') True), f_artifacts = None\<rparr>"
  "node_answer K p (node_response b (Some ''text/html'') True) =
     Inr \<lparr>f_data = resolved_data_new b ''text/html'',
          f_root = node_root K p (node_response b (Some ''text/html'') True), f_artifacts = None\<rparr>"
  "node_answer K p (node_response b None True) =
     Inr \<lparr>f_data = resolved_data_new b (derive (resource_key K p) b),
          f_root = node_root K p (node_response b None True), f_artifacts = None\<rparr>"
  by (simp_all add: node_answer_def node_response_def mock_ok_def is_success_def header_true_def header_def
      header_content_type_def to_ascii_lowercase_def eq_ignore_ascii_case_def trim_headers)

lemma node_answer_refused:
  "node_answer K p (mock_status 404) = Inl NotFound"
  "\<exists>m. node_answer K p unverified = Inl (VerifyFailed m)"
  by (simp_all add: node_answer_def unverified_def node_response_def mock_ok_def mock_status_def is_success_def
      header_true_def header_def to_ascii_lowercase_def eq_ignore_ascii_case_def)

text \<open>A healthy node whose read decides: nothing is asked of the gateway.\<close>

lemma run_deciding_node:
  assumes "native_build K H" and "o_cache_path opts = None" and "o_endpoint opts = None" and "parse_urn K s = Inr p"
    and "\<And>b. b \<in> local_bases \<Longrightarrow> get_fn M (health_url b) = Some (Inr (mock_status 200)) \<and>
      get_fn M (serve_url K b p) = Some (Inr r)"
    and "post_fn M = gateway_down" and "case node_answer K p r of Inl e \<Rightarrow> \<not> is_fall_through e | Inr f \<Rightarrow> True"
  shows "run_mock K H M opts s = Some (verdict (node_answer K p r))"
  using run_node [OF assms(1-5)] assms(6,7) by (auto simp: gateway_down_def split: sum.splits)

lemma bare_store_urn_defaults_to_index_html_passes:
  assumes "libraries K S" and "native_build K H"
  shows "bare_store_urn_defaults_to_index_html K H"
  unfolding bare_store_urn_defaults_to_index_html_def
proof (rule gives_bytesI)
  have "urn_contract K" using assms(1) by (simp add: libraries_def)
  then obtain u where u: "du_parse_with_salt K (''urn:dig:chia:'' @ STORE_HEX) = Inr (u, None)"
    "reads_as K u None ''index.html''" unfolding urn_contract_def by blast
  let ?p = "\<lparr>urn = u, salt = None\<rparr>"
  have p: "parse_urn K (''urn:dig:chia:'' @ STORE_HEX) = Inr ?p" using u(1) by (simp add: parse_urn_def)
  have key: "resource_key K ?p = ''index.html''" using u(2) by (simp add: reads_as_def resource_key_def)
  then have "suffix ''/index.html'' (serve_url K b ?p)" for b by (simp add: serve_url_def suffix_def Let_def)
  moreover have "\<not> suffix ''/health'' (serve_url K b ?p)" for b by (rule serve_url_not_health) (simp_all add: key)
  ultimately show "run_mock K H
       \<lparr>get_fn = (\<lambda>url.
          if suffix ''/health'' url then Some (Inr (mock_status 200))
          else if suffix ''/index.html'' url
          then Some (Inr (node_response (str_bytes ''landing'') (Some ''text/html'') True)) else None),
        post_fn = gateway_down\<rparr>
       default_options (''urn:dig:chia:'' @ STORE_HEX) =
      Some (Inr (Success (resolved_data_new (str_bytes ''landing'') ''text/html'')))"
    by (subst run_deciding_node [OF assms(2) _ _ p,
          where r = "node_response (str_bytes ''landing'') (Some ''text/html'') True"]) (simp_all add: node_answer_attested)
qed

lemma rootless_parses:
  assumes "libraries K S" and "key \<in> {IMG_KEY, ''index.html''}"
  obtains p where "parse_urn K (rootless_urn key) = Inr p" and "names K p None key None"
    and "\<And>b. \<not> suffix ''/health'' (serve_url K b p)"
proof -
  have "plain_key key" using assms(2) constants_ok by auto
  with parse_rootless [OF assms(1)] obtain p where p: "parse_urn K (rootless_urn key) = Inr p" "names K p None key None"
    by blast
  have "\<not> suffix ''/health'' (serve_url K b p)" for b
    by (rule serve_url_not_health) (use p(2) assms(2) in \<open>auto simp: names_def IMG_KEY_def\<close>)
  with p show thesis by (rule that)
qed

lemma node_tier_serves_when_healthy_passes:
  assumes "libraries K S" and "native_build K H"
  shows "node_tier_serves_when_healthy K H"
proof -
  obtain p where p: "parse_urn K (rootless_urn ''index.html'') = Inr p"
    "\<And>b. \<not> suffix ''/health'' (serve_url K b p)" using rootless_parses [OF assms(1)] by blast
  have "run_mock K H (node_serving (str_bytes ''hello world'') ''text/plain'') default_options (rootless_urn ''index.html'') =
      Some (Inr (Success (resolved_data_new (str_bytes ''hello world'') ''text/plain'')))"
    by (subst run_deciding_node [OF assms(2) _ _ p(1),
          where r = "node_response (str_bytes ''hello world'') (Some ''text/plain'') True"])
      (simp_all add: node_serving_def p(2) serve_url_read node_answer_attested)
  then show ?thesis by (simp add: node_tier_serves_when_healthy_def)
qed

lemma healthy_node_sel:
  "healthy_node r (health_url b) = Some (Inr (mock_status 200))"
  "\<not> suffix ''/health'' url \<Longrightarrow> healthy_node r url = Some (Inr r)"
  by (simp_all add: healthy_node_def)

lemma node_content_type_falls_back_to_extension_when_header_absent_passes:
  assumes "libraries K S" and "native_build K H"
  shows "node_content_type_falls_back_to_extension_when_header_absent K H"
proof -
  obtain p where p: "parse_urn K (rootless_urn IMG_KEY) = Inr p" "names K p None IMG_KEY None"
    "\<And>b. \<not> suffix ''/health'' (serve_url K b p)" using rootless_parses [OF assms(1)] by blast
  have "run_mock K H \<lparr>get_fn = healthy_node (node_response [1, 2, 3] None True), post_fn = gateway_down\<rparr>
      default_options (rootless_urn IMG_KEY) = Some (Inr (Success (resolved_data_new [1, 2, 3] (derive IMG_KEY [1, 2, 3]))))"
    by (subst run_deciding_node [OF assms(2) _ _ p(1), where r = "node_response [1, 2, 3] None True"])
      (use p(2) in \<open>simp_all add: healthy_node_sel p(3) node_answer_attested names_def\<close>)
  moreover have "derive IMG_KEY b = ''image/png''" for b
  proof -
    have "from_extension IMG_KEY = Some ''image/png''" by code_simp
    then show ?thesis by (simp add: derive_def)
  qed
  ultimately show ?thesis by (simp add: node_content_type_falls_back_to_extension_when_header_absent_def)
qed

lemma unverified_fails_closed:
  assumes "libraries K S" and "native_build K H" and "o_endpoint opts = None" and "o_cache_path opts = None"
    and "get_fn M = healthy_node unverified"
  shows "run_mock K H M opts (rootless_urn IMG_KEY) = Some (Inr IntegrityFailure)"
proof -
  obtain p where p: "parse_urn K (rootless_urn IMG_KEY) = Inr p" "names K p None IMG_KEY None"
    "\<And>b. \<not> suffix ''/health'' (serve_url K b p)" using rootless_parses [OF assms(1)] by blast
  have "root_hex K p = None" using p(2) by (simp add: names_def)
  then have "run_mock K H M opts (rootless_urn IMG_KEY) =
    Some (case node_answer K p unverified of
            Inl e \<Rightarrow> if is_fall_through e then verdict (gateway_says K (on_mock H M) RPC_DEFAULT_BASE p) else verdict (Inl e)
          | Inr f \<Rightarrow> Inr (Success (f_data f)))"
    by (intro run_node [OF assms(2,4,3) p(1)]) (simp_all add: assms(5) healthy_node_sel p(3))
  moreover obtain m where "node_answer K p unverified = Inl (VerifyFailed m)" using node_answer_refused(2) by blast
  ultimately show ?thesis by simp
qed

text \<open>The gateway closure of the first one panics on every call; a rootless URN makes none.\<close>

lemma unverified_tests_pass:
  assumes "libraries K S" and "native_build K H"
  shows "integrity_failure_at_node_tier_never_queries_rpc K H" and "node_without_x_dig_verified_is_fail_closed K H"
  unfolding integrity_failure_at_node_tier_never_queries_rpc_def node_without_x_dig_verified_is_fail_closed_def
  by (rule unverified_fails_closed [OF assms]; simp)+

section \<open>The tests hold: the gateway behind a node, and rootless URNs\<close>

lemma key_not_health: "resource_key K p = IMG_KEY \<Longrightarrow> \<not> suffix ''/health'' (serve_url K b p)"
  by (rule serve_url_not_health) (simp_all add: IMG_KEY_def)

text \<open>A node without the resource leaves the answer to the gateway.\<close>

lemma run_absent_node:
  assumes "native_build K H" and "o_cache_path opts = None" and "o_endpoint opts = None" and "parse_urn K s = Inr p"
    and "resource_key K p = IMG_KEY" and "get_fn M = healthy_node (mock_status 404)"
    and "\<And>root off. root_hex K p = Some root \<Longrightarrow> post_fn M RPC_DEFAULT_BASE (window_body K p root off) \<noteq> None"
  shows "run_mock K H M opts s = Some (verdict (gateway_says K (on_mock H M) RPC_DEFAULT_BASE p))"
proof -
  have "run_mock K H M opts s =
    Some (case node_answer K p (mock_status 404) of
            Inl e \<Rightarrow> if is_fall_through e then verdict (gateway_says K (on_mock H M) RPC_DEFAULT_BASE p) else verdict (Inl e)
          | Inr f \<Rightarrow> Inr (Success (f_data f)))"
    by (rule run_node [OF assms(1-4) _ assms(7)]) (simp_all add: assms(6) healthy_node_sel key_not_health [OF assms(5)])
  then show ?thesis by (simp add: node_answer_refused(1))
qed

lemma node_404_falls_through_to_rpc_which_serves_passes:
  assumes "libraries K S" and "native_build K H"
  shows "node_404_falls_through_to_rpc_which_serves K S H"
  unfolding node_404_falls_through_to_rpc_which_serves_def
proof (rule on_plain_fixtureI [OF assms(1)])
  fix fx ct
  assume fx: "is_fixture K S IMG_KEY None (str_bytes ''gateway has it'') fx ct"
  let ?M = "\<lparr>get_fn = healthy_node (mock_status 404), post_fn = gateway_serving K fx\<rparr>"
  obtain p where p: "parse_urn K (root_pinned_urn IMG_KEY (fx_root_hex fx)) = Inr p"
    "names K p (Some (fx_root_hex fx)) IMG_KEY None" using parse_pinned [OF assms(1) fixture_root [OF fx]] by blast
  have "run_mock K H ?M default_options (root_pinned_urn IMG_KEY (fx_root_hex fx)) =
      Some (verdict (gateway_says K (on_mock H ?M) RPC_DEFAULT_BASE p))"
    by (rule run_absent_node [OF assms(2) _ _ p(1)]) (use p(2) in \<open>simp_all add: serving [OF assms(1)] names_def\<close>)
  moreover have "verdict (gateway_says K (on_mock H ?M) RPC_DEFAULT_BASE p) =
      Inr (Success (resolved_data_new (str_bytes ''gateway has it'') (derive IMG_KEY (str_bytes ''gateway has it''))))"
    by (rule gateway_gives [OF assms(1) fx p(2) names_no_salt [OF p(2)] trim_gateway_base]) (simp add: serving [OF assms(1)])
  ultimately show "gives_bytes K H ?M default_options (root_pinned_urn IMG_KEY (fx_root_hex fx)) (str_bytes ''gateway has it'')"
    by (intro gives_bytesI) simp
qed (simp_all add: str_bytes_def)

lemma all_tiers_not_found_is_branded_final_not_found_passes:
  assumes "libraries K S" and "native_build K H"
  shows "all_tiers_not_found_is_branded_final_not_found K H"
proof -
  obtain p where p: "parse_urn K (pinned IMG_KEY) = Inr p" "root_hex K p = Some DUMMY_ROOT"
    "names K p (Some DUMMY_ROOT) IMG_KEY None" by (rule pinned_parses [OF assms(1)])
  let ?M = "\<lparr>get_fn = healthy_node (mock_status 404), post_fn = gateway_empty K\<rparr>"
  have "run_mock K H ?M default_options (pinned IMG_KEY) =
      Some (verdict (gateway_says K (on_mock H ?M) RPC_DEFAULT_BASE p))"
    by (rule run_absent_node [OF assms(2) _ _ p(1)]) (use p(3) in \<open>simp_all add: gateway_empty_def names_def\<close>)
  then show ?thesis
    by (simp add: all_tiers_not_found_is_branded_final_not_found_def gateway_empty_says [OF assms(1) p(2) trim_gateway_base])
qed

lemma rootless_rejected:
  assumes "libraries K S"
  shows "run_mock K H (rpc_serving K fx) default_options (rootless_urn IMG_KEY) = Some (Inl RootRequired)"
proof -
  obtain p where p: "parse_urn K (rootless_urn IMG_KEY) = Inr p" "names K p None IMG_KEY None"
    using rootless_parses [OF assms] by blast
  then have root: "root_hex K p = None" by (simp add: names_def)
  have "run_mock K H (rpc_serving K fx) default_options (rootless_urn IMG_KEY) =
      Some (verdict (gateway_says K (on_mock H (rpc_serving K fx)) RPC_DEFAULT_BASE p))"
    by (rule run_gateway [OF _ _ _ p(1)]) (simp_all add: rpc_serving_def root)
  then show ?thesis by (simp add: gateway_says_def rpc_fetch_def trusted_root_def root)
qed

lemma rootless_tests_pass:
  assumes "libraries K S"
  shows "rootless_urn_over_rpc_is_rejected K S H"
    and "rootless_urn_falls_to_rpc_root_required_when_node_unhealthy K S H"
  unfolding rootless_urn_over_rpc_is_rejected_def rootless_urn_falls_to_rpc_root_required_when_node_unhealthy_def
  by (rule on_plain_fixtureI [OF assms]; simp add: rootless_rejected [OF assms] str_bytes_def)+

section \<open>The tests hold: overrides\<close>

lemma override_requests:
  assumes "o_endpoint opts = Some base" and "trim_end_matches CHR ''/'' base = base" and "allowed_request K H opts p first e"
  shows "(is_loopback_base K H base \<and> e = HttpGet (serve_url K base p)) \<or>
    (\<exists>root off. root_hex K p = Some root \<and> e = HttpPost base (window_body K p root off))"
  using assms by (auto simp: allowed_request_def node_base_def node_request_def rpc_request_def rpc_base_def
      window_request_def window_body_def)

text \<open>A remote override is only ever asked for windows.\<close>

lemma run_remote:
  assumes "o_endpoint opts = Some base" and "o_cache_path opts = None" and "trim_end_matches CHR ''/'' base = base"
    and "\<not> is_loopback_base K H base" and "parse_urn K s = Inr p"
    and "\<And>root off. root_hex K p = Some root \<Longrightarrow> post_fn M base (window_body K p root off) \<noteq> None"
  shows "run_mock K H M opts s = Some (verdict (gateway_says K (on_mock H M) base p))"
proof -
  have "run_mock K H M opts s = Some (specified K (on_mock H M) opts s)"
  proof (rule run_mock_specified [OF assms(2)])
    fix q e
    assume "parse_urn K s = Inr q" and "allowed_request K (on_mock H M) opts q True e"
    with override_requests [OF assms(1,3)] assms(4-6) show "mock_call M e \<noteq> None" by fastforce
  qed
  then show ?thesis using assms(1,3-5) by (simp add: specified_def)
qed

lemma override_bases:
  "trim_end_matches CHR ''/'' ''http://evil.example.com'' = ''http://evil.example.com''"
  "trim_end_matches CHR ''/'' ''http://127.0.0.1:9778'' = ''http://127.0.0.1:9778''"
  "trim_end_matches CHR ''/'' ''http://my-node.example.com:1234'' = ''http://my-node.example.com:1234''"
  by (simp_all add: trim_end_matches_id)

lemma override_remote_host_uses_verified_rpc_not_node_passes:
  assumes "libraries K S" and "native_build K H"
  shows "override_remote_host_uses_verified_rpc_not_node K S H"
  unfolding override_remote_host_uses_verified_rpc_not_node_def
proof (rule on_plain_fixtureI [OF assms(1)])
  fix fx ct
  assume fx: "is_fixture K S IMG_KEY None (str_bytes ''verified art'') fx ct"
  let ?M = "\<lparr>get_fn = (\<lambda>url. None),
      post_fn = (\<lambda>url bdy. if prefix ''http://evil.example.com'' url then gateway_serving K fx url bdy else None)\<rparr>"
  let ?base = "''http://evil.example.com''"
  obtain p where p: "parse_urn K (root_pinned_urn IMG_KEY (fx_root_hex fx)) = Inr p"
    "names K p (Some (fx_root_hex fx)) IMG_KEY None" using parse_pinned [OF assms(1) fixture_root [OF fx]] by blast
  have "run_mock K H ?M (with_endpoint ?base) (root_pinned_urn IMG_KEY (fx_root_hex fx)) =
      Some (verdict (gateway_says K (on_mock H ?M) ?base p))"
    by (rule run_remote [OF _ _ override_bases(1) native_hosts(3) [OF assms(2)] p(1)])
      (simp_all add: serving [OF assms(1)])
  moreover have "verdict (gateway_says K (on_mock H ?M) ?base p) =
      Inr (Success (resolved_data_new (str_bytes ''verified art'') (derive IMG_KEY (str_bytes ''verified art''))))"
    by (rule gateway_gives [OF assms(1) fx p(2) names_no_salt [OF p(2)] override_bases(1)]) (simp add: serving [OF assms(1)])
  ultimately show "gives_bytes K H ?M (with_endpoint ?base) (root_pinned_urn IMG_KEY (fx_root_hex fx)) (str_bytes ''verified art'')"
    by (intro gives_bytesI) simp
qed (simp_all add: str_bytes_def)

lemma override_remote_unreachable_does_not_leak_to_public_rpc_passes:
  assumes "libraries K S" and "native_build K H"
  shows "override_remote_unreachable_does_not_leak_to_public_rpc K H"
proof -
  let ?base = "''http://my-node.example.com:1234''"
  let ?M = "\<lparr>get_fn = no_node, post_fn = (\<lambda>url bdy. if contains ''rpc.dig.net'' url then None else Some (Inl transport_err))\<rparr>"
  obtain p where p: "parse_urn K (pinned IMG_KEY) = Inr p" "root_hex K p = Some DUMMY_ROOT" by (rule pinned_parses [OF assms(1)])
  have post: "post_fn ?M ?base b = Some (Inl transport_err)" for b by simp
  have "run_mock K H ?M (with_endpoint ?base) (pinned IMG_KEY) = Some (verdict (gateway_says K (on_mock H ?M) ?base p))"
    by (rule run_remote [OF _ _ override_bases(3) native_hosts(4) [OF assms(2)] p(1)]) (simp_all add: post)
  then show ?thesis
    by (simp add: override_remote_unreachable_does_not_leak_to_public_rpc_def
        gateway_down_says [OF p(2) override_bases(3) post])
qed

lemma override_loopback_host_may_use_node_passes:
  assumes "libraries K S" and "native_build K H"
  shows "override_loopback_host_may_use_node K H"
  unfolding override_loopback_host_may_use_node_def
proof (rule gives_bytesI)
  let ?base = "''http://127.0.0.1:9778''"
  let ?r = "node_response (str_bytes ''local'') (Some ''text/plain'') True"
  let ?M = "\<lparr>get_fn = (\<lambda>url. if prefix ?base url then Some (Inr ?r) else None), post_fn = gateway_down\<rparr>"
  obtain p where p: "parse_urn K (rootless_urn ''index.html'') = Inr p" "names K p None ''index.html'' None"
    using rootless_parses [OF assms(1)] by blast
  have get: "get_fn ?M (serve_url K ?base p) = Some (Inr ?r)" by (simp add: serve_url_def Let_def)
  have "run_mock K H ?M (with_endpoint ?base) (rootless_urn ''index.html'') =
      Some (specified K (on_mock H ?M) (with_endpoint ?base) (rootless_urn ''index.html''))"
  proof (rule run_mock_specified)
    fix q e
    assume "parse_urn K (rootless_urn ''index.html'') = Inr q" and "allowed_request K (on_mock H ?M) (with_endpoint ?base) q True e"
    with override_requests [OF with_endpoint_sel(1) override_bases(2)] p get show "mock_call ?M e \<noteq> None"
      by (fastforce simp: names_def)
  qed simp
  moreover have "node_says K (on_mock H ?M) ?base p = node_answer K p ?r"
    using get by (simp add: node_says_def mock_reply)
  ultimately show "run_mock K H ?M (with_endpoint ?base) (rootless_urn ''index.html'') =
      Some (Inr (Success (resolved_data_new (str_bytes ''local'') ''text/plain'')))"
    by (simp add: specified_def p(1) override_bases(2) native_hosts(2) [OF assms(2)] node_answer_attested)
qed

section \<open>The tests hold: a node that answers with ciphertext\<close>

lemma node_deciphers:
  assumes "libraries K S" and "is_fixture K S IMG_KEY sb pt fx ct" and "root_hex K p \<in> {None, Some (fx_root_hex fx)}"
    and "resource_key K p = IMG_KEY"
  obtains r where "node_ciphertext_response K fx = Some r"
    and "verdict (node_answer K p r) =
      (case verify_and_decrypt K p ct (fx_proof_b64 fx) (fx_root_hex fx) (fx_chunk_lens fx) of
         Inl e \<Rightarrow> verdict (Inl e) | Inr b \<Rightarrow> Inr (Success (resolved_data_new b (derive IMG_KEY b))))"
    and "\<And>e. node_answer K p r = Inl e \<longleftrightarrow>
      verify_and_decrypt K p ct (fx_proof_b64 fx) (fx_root_hex fx) (fx_chunk_lens fx) = Inl e"
proof -
  let ?r = "\<lparr>status = 200,
        headers = [(''x-dig-encrypted'', ''true''), (''x-dig-inclusion-proof'', fx_proof_b64 fx),
                   (''x-dig-root'', fx_root_hex fx), (''x-dig-chunk-lens'', show_chunk_lens (fx_chunk_lens fx))],
        body = ct\<rparr>"
  have "b64_roundtrip K" using assms(1) by (simp add: libraries_def)
  moreover have ct: "fx_ciphertext_b64 fx = b64_encode K ct" and hex: "hex64 (fx_root_hex fx)"
    using assms(2) unfolding is_fixture_def by blast+
  ultimately have r: "node_ciphertext_response K fx = Some ?r"
    by (simp add: node_ciphertext_response_def b64_roundtrip_def)
  have headers: "header ?r ''x-dig-verified'' = None" "header ?r ''x-dig-inclusion-proof'' = Some (fx_proof_b64 fx)"
    "header ?r ''x-dig-root'' = Some (fx_root_hex fx)" "header ?r ''x-dig-chunk-lens'' = Some (show_chunk_lens (fx_chunk_lens fx))"
    by (simp_all add: header_def eq_ignore_ascii_case_def to_ascii_lowercase_def ascii_lower_def)
  have root: "node_root K p ?r = Some (fx_root_hex fx)"
    using assms(3) hex64_trim [OF hex] by (auto simp: node_root_def headers)
  have "node_answer K p ?r = node_ciphertext K p ?r"
    by (simp add: node_answer_def is_success_def header_true_def headers)
  then have "node_answer K p ?r =
      (case verify_and_decrypt K p ct (fx_proof_b64 fx) (fx_root_hex fx) (fx_chunk_lens fx) of
         Inl e \<Rightarrow> Inl e
       | Inr b \<Rightarrow> Inr \<lparr>f_data = resolved_data_new b (derive IMG_KEY b), f_root = Some (fx_root_hex fx),
           f_artifacts = Some \<lparr>da_ciphertext = ct, da_proof_b64 = fx_proof_b64 fx, da_chunk_lens = fx_chunk_lens fx\<rparr>\<rparr>)"
    by (simp add: node_ciphertext_def headers root parse_show_chunk_lens assms(4) split: sum.split)
  with r show thesis by (intro that [of ?r]) (auto split: sum.splits)
qed

lemma run_ciphertext_node:
  assumes "libraries K S" and "native_build K H" and "is_fixture K S IMG_KEY sb pt fx ct" and "parse_urn K s = Inr p"
    and "root_hex K p \<in> {None, Some (fx_root_hex fx)}" and "resource_key K p = IMG_KEY"
    and "(case verify_and_decrypt K p ct (fx_proof_b64 fx) (fx_root_hex fx) (fx_chunk_lens fx) of
         Inl e \<Rightarrow> verdict (Inl e) | Inr b \<Rightarrow> Inr (Success (resolved_data_new b (derive IMG_KEY b)))) = Inr oc"
    and "oc \<noteq> Unreachable"
  shows "run_mock K H (ciphertext_node K fx) default_options s = Some (Inr oc)"
proof -
  obtain r where r: "node_ciphertext_response K fx = Some r" "verdict (node_answer K p r) = Inr oc"
    using node_deciphers [OF assms(1,3,5,6)] assms(7) by metis
  have "\<not> is_fall_through e" if "node_answer K p r = Inl e" for e
    using r(2) that assms(8) by (cases e) auto
  then have "run_mock K H (ciphertext_node K fx) default_options s = Some (verdict (node_answer K p r))"
    by (intro run_deciding_node [OF assms(2) _ _ assms(4)])
      (auto simp: ciphertext_node_def r(1) key_not_health [OF assms(6)] split: sum.split)
  with r(2) show ?thesis by simp
qed

lemma ciphertext_node_gives:
  assumes "libraries K S" and "native_build K H" and "is_fixture K S IMG_KEY sb pt fx ct" and "parse_urn K s = Inr p"
    and "names K p root IMG_KEY sl" and "root \<in> {None, Some (fx_root_hex fx)}" and "parse_salt K (salt p) = Inr sb"
  shows "gives_bytes K H (ciphertext_node K fx) default_options s pt"
proof (rule gives_bytesI)
  have "verify_and_decrypt K p ct (fx_proof_b64 fx) (fx_root_hex fx) (fx_chunk_lens fx) = Inr pt"
    by (rule fixture_accepted [OF assms(1,3) _ assms(7)]) (use assms(5) in \<open>simp add: names_def\<close>)
  then show "run_mock K H (ciphertext_node K fx) default_options s = Some (Inr (Success (resolved_data_new pt (derive IMG_KEY pt))))"
    using assms(5,6) by (intro run_ciphertext_node [OF assms(1-4)]) (auto simp: names_def)
qed

lemma node_ciphertext_response_is_verified_and_decrypted_passes:
  assumes "libraries K S" and "native_build K H"
  shows "node_ciphertext_response_is_verified_and_decrypted K S H"
  unfolding node_ciphertext_response_is_verified_and_decrypted_def
proof (rule on_plain_fixtureI [OF assms(1)])
  fix fx ct
  assume fx: "is_fixture K S IMG_KEY None PNG_CIPHERTEXT fx ct"
  from parse_pinned [OF assms(1) fixture_root [OF fx]] ciphertext_node_gives [OF assms fx] names_no_salt
  show "gives_bytes K H (ciphertext_node K fx) default_options (root_pinned_urn IMG_KEY (fx_root_hex fx)) PNG_CIPHERTEXT"
    by blast
qed (simp_all add: PNG_CIPHERTEXT_def str_bytes_def)

lemma rootless_urn_over_node_ciphertext_derives_root_from_header_passes:
  assumes "libraries K S" and "native_build K H"
  shows "rootless_urn_over_node_ciphertext_derives_root_from_header K S H"
  unfolding rootless_urn_over_node_ciphertext_derives_root_from_header_def
proof (rule on_plain_fixtureI [OF assms(1)])
  fix fx ct
  assume fx: "is_fixture K S IMG_KEY None (str_bytes ''rootless node ciphertext art'') fx ct"
  obtain p where p: "parse_urn K (rootless_urn IMG_KEY) = Inr p" "names K p None IMG_KEY None"
    using rootless_parses [OF assms(1)] by blast
  then show "gives_bytes K H (ciphertext_node K fx) default_options (rootless_urn IMG_KEY)
      (str_bytes ''rootless node ciphertext art'')"
    using ciphertext_node_gives [OF assms fx] names_no_salt by blast
qed (simp_all add: str_bytes_def)

lemma salted_urn_decrypts_on_node_ciphertext_path_passes:
  assumes "libraries K S" and "native_build K H"
  shows "salted_urn_decrypts_on_node_ciphertext_path K S H"
proof -
  have "salt_contract K" using assms(1) by (simp add: libraries_def)
  with constants_ok(4) obtain sb where sb: "b32_from_hex K (test_salt ''cd'') = Some sb"
    unfolding salt_contract_def by blast
  show ?thesis unfolding salted_urn_decrypts_on_node_ciphertext_path_def
  proof (rule on_fixtureI [OF assms(1), where sb = "Some sb"])
    fix fx ct
    assume fx: "is_fixture K S IMG_KEY (Some sb) (str_bytes ''salted node art'') fx ct"
    show "gives_bytes K H (ciphertext_node K fx) default_options
        (with_salt (root_pinned_urn IMG_KEY (fx_root_hex fx)) (test_salt ''cd'')) (str_bytes ''salted node art'')"
      by (rule parse_salted [OF assms(1) fixture_root [OF fx] constants_ok(4)])
        (use sb in \<open>auto intro: ciphertext_node_gives [OF assms fx]\<close>)
  qed (use sb in \<open>simp_all add: str_bytes_def\<close>)
qed

lemma wrong_salt_on_node_ciphertext_path_is_integrity_failure_passes:
  assumes "libraries K S" and "native_build K H"
  shows "wrong_salt_on_node_ciphertext_path_is_integrity_failure K S H"
  unfolding wrong_salt_on_node_ciphertext_path_is_integrity_failure_def
proof (rule on_plain_fixtureI [OF assms(1)])
  fix fx ct
  assume fx: "is_fixture K S IMG_KEY None (str_bytes ''art'') fx ct"
  obtain p b where p: "parse_urn K (with_salt (root_pinned_urn IMG_KEY (fx_root_hex fx)) (test_salt ''ef'')) = Inr p"
    "names K p (Some (fx_root_hex fx)) IMG_KEY (Some (test_salt ''ef''))" "parse_salt K (salt p) = Inr (Some b)"
    using parse_salted [OF assms(1) fixture_root [OF fx] constants_ok(5)] by metis
  then have names: "root_hex K p = Some (fx_root_hex fx)" "keyed_as K (urn p) IMG_KEY" "resource_key K p = IMG_KEY"
    by (simp_all add: names_def)
  from wrong_salt_refused [OF assms(1) fx names(2) p(3)]
  show "run_mock K H (ciphertext_node K fx) default_options
      (with_salt (root_pinned_urn IMG_KEY (fx_root_hex fx)) (test_salt ''ef'')) = Some (Inr IntegrityFailure)"
    by (intro run_ciphertext_node [OF assms fx p(1)]) (auto simp: names(1,3))
qed (simp_all add: str_bytes_def)

section \<open>The tests hold: the memory cache\<close>

text \<open>A fixture comes in one window, so one request is made for it.\<close>

lemma loop_in_one_window:
  assumes "b64_roundtrip K" and "0 < length ct" and "length ct \<le> 1024" and "honest_gateway K H base p root ct wire lens"
  shows "\<exists>st. window_loop K H base p root window_start h = (Inr st, h @ [window_request K base p root 0])"
proof -
  have single: "\<not> Suc 0 * unat RPC_WINDOW_BYTES < length ct" and "length ct \<le> 67108864" "0 * unat RPC_WINDOW_BYTES < length ct"
    using assms(2,3) by simp_all
  with one_window_honest [OF assms(1,2) _ assms(4), of 0 h] obtain st h1 where
      "one_window K H base p root (window_start\<lparr>w_windows := Suc 0\<rparr>) h = (Inr (st, None), h1)"
    by (auto simp: window_state_at_0 simp del: RPC_WINDOW_BYTES_nat)
  moreover from one_window_history [OF this] have "h1 = h @ [window_request K base p root 0]"
    by (simp add: window_start_def)
  moreover have "w_windows window_start = 0" by (simp add: window_start_def)
  ultimately show ?thesis
    by (simp add: window_loop.simps [of K H base p root window_start] MAX_WINDOWS_nat)
qed

definition recorded :: "rpc_fixture \<Rightarrow> ('u, 'm) crates \<Rightarrow> mock_transport" where
  "recorded fx K = \<lparr>get_fn = no_node, post_fn = (\<lambda>url bdy. Some (Inr (rpc_ok K (get_content_result fx))))\<rparr>"

definition fixture_artifacts :: "rpc_fixture \<Rightarrow> bytes \<Rightarrow> disk_artifacts" where
  "fixture_artifacts fx ct = \<lparr>da_ciphertext = ct, da_proof_b64 = fx_proof_b64 fx, da_chunk_lens = fx_chunk_lens fx\<rparr>"

definition fixture_fetched :: "rpc_fixture \<Rightarrow> bytes \<Rightarrow> bytes \<Rightarrow> fetched" where
  "fixture_fetched fx ct pt =
     \<lparr>f_data = resolved_data_new pt (derive IMG_KEY pt), f_root = Some (fx_root_hex fx),
      f_artifacts = Some (fixture_artifacts fx ct)\<rparr>"

lemma fixture_fetch:
  assumes "libraries K S" and "is_fixture K S IMG_KEY sb pt fx ct" and "names K p (Some (fx_root_hex fx)) IMG_KEY sl"
    and "parse_salt K (salt p) = Inr sb"
    and "\<And>off. post_fn M RPC_DEFAULT_BASE (window_body K p (fx_root_hex fx) off) = Some (Inr (rpc_ok K (get_content_result fx)))"
  shows "rpc_fetch K (on_mock H M) RPC_DEFAULT_BASE p h =
    (Inr (fixture_fetched fx ct pt), h @ [window_request K RPC_DEFAULT_BASE p (fx_root_hex fx) 0])"
proof -
  let ?H = "on_mock H M" and ?root = "fx_root_hex fx"
  have lib: "b64_roundtrip K" "serde_contract K" using assms(1) by (simp_all add: libraries_def)
  have ct: "fx_ciphertext_b64 fx = b64_encode K ct" "fx_total_length fx = word_of_nat (length ct)" "0 < length ct"
    "length ct \<le> 1024" using assms(2) unfolding is_fixture_def by blast+
  have p: "root_hex K p = Some ?root" "resource_key K p = IMG_KEY" "keyed_as K (urn p) IMG_KEY"
    using assms(3) by (simp_all add: names_def)
  have small: "length ct \<le> 3145728" "length ct \<le> 67108864" "0 * unat RPC_WINDOW_BYTES < length ct" using ct(3,4) by simp_all
  have gw: "honest_gateway K ?H RPC_DEFAULT_BASE p ?root ct (fx_proof_b64 fx) (fx_chunk_lens fx)"
    by (rule served_gateway [OF lib(2) ct(1,2,3) small(1) assms(5) [unfolded window_body_def]])
  obtain st where loop: "window_loop K ?H RPC_DEFAULT_BASE p ?root window_start h =
      (Inr st, h @ [window_request K RPC_DEFAULT_BASE p ?root 0])"
    using loop_in_one_window [OF lib(1) ct(3,4) gw] by blast
  moreover have "w_buf st = ct" "w_proof st = fx_proof_b64 fx" "w_chunk_lens st = fx_chunk_lens fx"
    using window_loop_honest [OF lib(1) ct(3) small(2) gw small(3), of h] loop by (auto simp: window_state_at_0)
  moreover have "verify_and_decrypt K p ct (fx_proof_b64 fx) ?root (fx_chunk_lens fx) = Inr pt"
    by (rule fixture_accepted [OF assms(1,2) p(3) assms(4)])
  ultimately show ?thesis
    using p(1,2) trim_gateway_base by (simp add: rpc_fetch_def trusted_root_def fixture_fetched_def fixture_artifacts_def)
qed

lemma no_node_plan:
  assumes "get_fn M = no_node"
  shows "\<exists>h'. build_plan K (on_mock H M) None h = ([endpoint_rpc RPC_DEFAULT_BASE], h') \<and> grows is_health_probe h h'"
proof -
  obtain plan h' where plan: "build_plan K (on_mock H M) None h = (plan, h')" by fastforce
  have "local_node K (on_mock H M) = None"
    using assms by (simp add: local_node_def node_up_def mock_reply no_node_def)
  then have "plan_now K (on_mock H M) default_options = [endpoint_rpc RPC_DEFAULT_BASE]"
    by (simp add: plan_now_eq [OF mock_stable])
  moreover have "plan = plan_now K (on_mock H M) default_options"
    using plan probe_tiers_timeless [OF mock_stable, of K H M _ h] by (simp add: plan_now_def build_plan_def) (metis fst_conv)
  ultimately show ?thesis using plan build_plan_grows [OF plan] by simp
qed

text \<open>Without a node and without a cached copy, a resolve is the walk over the gateway alone.\<close>

lemma resolve_no_node:
  assumes "get_fn M = no_node" and "parse_urn K s = Inr p" and "root_hex K p = Some root"
    and "mc_stored (r_memory R) (cache_id K p root) = None" and "r_plan_cache R = None" and "o_endpoint (r_options R) = None"
    and "\<And>m. disk_get_verified K (on_mock H M) (R\<lparr>r_memory := m\<rparr>) p (cache_id K p root) h = (None, h0)"
  obtains m h1 where "mc_get (r_memory R) (cache_id K p root) = (None, m)" and "grows is_health_probe h0 h1"
    and "resolve K (on_mock H M) R s h =
      walk K (on_mock H M) p 0 0 [endpoint_rpc RPC_DEFAULT_BASE]
        (R\<lparr>r_memory := m, r_plan_cache := Some [endpoint_rpc RPC_DEFAULT_BASE]\<rparr>) h1"
proof -
  let ?H = "on_mock H M" and ?i = "cache_id K p root"
  obtain x m where get: "mc_get (r_memory R) ?i = (x, m)" by fastforce
  then have "x = None" using fst_mc_get [of "r_memory R" ?i] assms(4) by simp
  obtain h1 where plan: "build_plan K ?H None h0 = ([endpoint_rpc RPC_DEFAULT_BASE], h1)" "grows is_health_probe h0 h1"
    using no_node_plan [OF assms(1)] by blast
  with assms(2,3,5-7) get \<open>x = None\<close> show thesis
    by (intro that [of m h1]) (simp_all add: resolve_def resolve_ladder_def plan_of_def Let_def)
qed

lemma no_disk: "r_disk R = None \<Longrightarrow> disk_get_verified K H (R\<lparr>r_memory := m\<rparr>) p i h = (None, h)"
  by (simp add: disk_get_verified_def)

lemma walk_to_fixture:
  assumes "rpc_fetch K H RPC_DEFAULT_BASE p h = (Inr (fixture_fetched fx ct pt), h1)"
  shows "walk K H p 0 0 [endpoint_rpc RPC_DEFAULT_BASE] R h =
    (Inr (Success (resolved_data_new pt (derive IMG_KEY pt))),
     R\<lparr>r_memory := mc_put (r_memory R) (cache_id K p (fx_root_hex fx)) (resolved_data_new pt (derive IMG_KEY pt))\<rparr>,
     case r_disk R of
       Some dir \<Rightarrow> if has_disk H then disk_put K H dir (cache_id K p (fx_root_hex fx)) (fixture_artifacts fx ct) h1 else h1
     | None \<Rightarrow> h1)"
  using assms
  by (cases "r_disk R") (simp_all add: walk.simps fetch_from_def endpoint_defs fixture_fetched_def cache_success_def Let_def)

lemma fresh_resolver:
  obtains R where "resolver_new (on_mock H M) h = (R, h)" and "r_plan_cache R = None" and "r_disk R = None"
    and "r_options R = default_options" and "mc_live (Suc (Suc 0)) (r_memory R)" and "mc_wf (r_memory R)" and "mc_stored (r_memory R) = Map.empty"
  by (rule that [of "\<lparr>r_options = default_options, r_plan_cache = None,
      r_memory = mc_new DEFAULT_MEMORY_ENTRIES DEFAULT_MEMORY_BYTES, r_disk = None\<rparr>"])
    (simp_all add: resolver_new_def with_options_def mc_live_new)

lemma run_mock_resolver:
  assumes "resolver_new (on_mock H M) [] = (R, [])" and "run_mock K H M default_options s = Some r"
  shows "\<exists>R' h'. resolve_on K H M R s [] = Some (r, R', h') \<and> resolve K (on_mock H M) R s [] = (r, R', h')"
  using assms by (auto simp: run_mock_def resolver_new_def resolve_on_def split: prod.splits if_splits)

lemma recorded_gives:
  assumes "libraries K S" and "is_fixture K S IMG_KEY sb pt fx ct" and "parse_urn K s = Inr p"
    and "names K p (Some (fx_root_hex fx)) IMG_KEY sl" and "parse_salt K (salt p) = Inr sb"
  shows "run_mock K H (recorded fx K) default_options s = Some (Inr (Success (resolved_data_new pt (derive IMG_KEY pt))))"
proof -
  have "run_mock K H (recorded fx K) default_options s =
      Some (verdict (gateway_says K (on_mock H (recorded fx K)) RPC_DEFAULT_BASE p))"
    by (rule run_gateway [OF _ _ _ assms(3)]) (simp_all add: recorded_def)
  moreover have "verdict (gateway_says K (on_mock H (recorded fx K)) RPC_DEFAULT_BASE p) =
      Inr (Success (resolved_data_new pt (derive IMG_KEY pt)))"
    by (rule gateway_gives [OF assms(1,2,4,5) trim_gateway_base]) (simp add: recorded_def)
  ultimately show ?thesis by simp
qed

lemma second_resolve_is_a_memory_cache_hit_no_network_passes:
  assumes "libraries K S"
  shows "second_resolve_is_a_memory_cache_hit_no_network K S H"
  unfolding second_resolve_is_a_memory_cache_hit_no_network_def recorded_def [symmetric]
proof (rule on_plain_fixtureI [OF assms])
  fix fx ct
  let ?pt = "str_bytes ''cached bytes''" and ?M = "recorded fx K" and ?s = "root_pinned_urn IMG_KEY (fx_root_hex fx)"
  let ?d = "resolved_data_new ?pt (derive IMG_KEY ?pt)" and ?silent = "\<lparr>get_fn = no_node, post_fn = (\<lambda>url bdy. None)\<rparr>"
  assume fx: "is_fixture K S IMG_KEY None ?pt fx ct"
  obtain p where p: "parse_urn K ?s = Inr p" "names K p (Some (fx_root_hex fx)) IMG_KEY None"
    using parse_pinned [OF assms fixture_root [OF fx]] by blast
  then have root: "root_hex K p = Some (fx_root_hex fx)" by (simp add: names_def)
  obtain R where R: "resolver_new (on_mock H ?M) [] = (R, [])" "r_plan_cache R = None" "r_disk R = None"
    "r_options R = default_options" "mc_live (Suc (Suc 0)) (r_memory R)" "mc_wf (r_memory R)" "mc_stored (r_memory R) = Map.empty"
    by (rule fresh_resolver [of H ?M "[]"])
  obtain R1 h1 where first: "resolve_on K H ?M R ?s [] = Some (Inr (Success ?d), R1, h1)"
      "resolve K (on_mock H ?M) R ?s [] = (Inr (Success ?d), R1, h1)"
    using run_mock_resolver [OF R(1) recorded_gives [OF assms fx p names_no_salt [OF p(2)]]] by blast
  have "session K (on_mock H ?M) default_options R []"
    using R(1) by (auto simp: resolver_new_def intro: session.opened)
  moreover have "length (rd_bytes ?d) \<le> 32 * 1024 * 1024" by (simp add: str_bytes_def)
  ultimately obtain R2 where second: "resolve K (on_mock H ?silent) R1 ?s h1 = (Inr (Success ?d), R2, h1)"
    using stored_identity_served [OF _ first(2) p(1) root R(5) _ p(1) root refl] by blast
  obtain m h0 where walk: "grows is_health_probe [] h0" and
    "resolve K (on_mock H ?M) R ?s [] = walk K (on_mock H ?M) p 0 0 [endpoint_rpc RPC_DEFAULT_BASE]
      (R\<lparr>r_memory := m, r_plan_cache := Some [endpoint_rpc RPC_DEFAULT_BASE]\<rparr>) h0"
    by (rule resolve_no_node [OF _ p(1) root _ R(2) _ no_disk [OF R(3)], where M = ?M and H = H and h = "[]"])
      (simp_all add: recorded_def R(4,7))
  moreover have "rpc_fetch K (on_mock H ?M) RPC_DEFAULT_BASE p h0 =
      (Inr (fixture_fetched fx ct ?pt), h0 @ [window_request K RPC_DEFAULT_BASE p (fx_root_hex fx) 0])"
    by (rule fixture_fetch [OF assms fx p(2) names_no_salt [OF p(2)]]) (simp add: recorded_def)
  ultimately have "h1 = h0 @ [window_request K RPC_DEFAULT_BASE p (fx_root_hex fx) 0]"
    using first(2) R(3) by (simp add: walk_to_fixture)
  moreover have "filter is_post h0 = filter is_post []" by (rule grows_filter [OF walk(1)]) (auto simp: is_health_probe_def)
  ultimately have "filter is_post h1 = [window_request K RPC_DEFAULT_BASE p (fx_root_hex fx) 0]"
    by (simp add: window_request_def)
  with R(1) first(1) second
  show "case resolve_twice K H ?M ?silent ?s of
      Some (Inr (Success d1), Inr (Success d2), h) \<Rightarrow> rd_bytes d1 = ?pt \<and> rd_bytes d2 = ?pt \<and> length (filter is_post h) = 1
    | _ \<Rightarrow> False"
    by (simp add: resolve_twice_def resolve_on_def [of K H ?silent])
qed (simp_all add: str_bytes_def)

text \<open>A failure leaves the memory cache alone and the plan known.\<close>

lemma down_then:
  assumes "libraries K S" and "parse_urn K s = Inr p" and "root_hex K p = Some root"
    and "resolver_new (on_mock H all_down) [] = (R, [])" and "r_plan_cache R = None" "r_disk R = None"
    and "r_options R = default_options" and "mc_wf (r_memory R)" and "mc_stored (r_memory R) = Map.empty"
  obtains R1 h1 where "resolve K (on_mock H all_down) R s [] = (Inr Unreachable, R1, h1)"
    and "\<forall>M. get_fn M = no_node \<longrightarrow> faithful K (on_mock H M) default_options {s} R1"
proof -
  let ?H = "on_mock H all_down" and ?plan = "[endpoint_rpc RPC_DEFAULT_BASE]"
  obtain m h0 where get: "mc_get (r_memory R) (cache_id K p root) = (None, m)" and walk: "resolve K ?H R s [] =
      walk K ?H p 0 0 ?plan (R\<lparr>r_memory := m, r_plan_cache := Some ?plan\<rparr>) h0"
    by (rule resolve_no_node [OF _ assms(2,3) _ assms(5) _ no_disk [OF assms(6)], where M = all_down and H = H and h = "[]"])
      (simp_all add: all_down_def assms(7,9))
  have "gateway_says K ?H RPC_DEFAULT_BASE p = Inl (Transport ''connection refused'')"
    by (rule gateway_down_says [OF assms(3) trim_gateway_base]) (simp add: all_down_def gateway_down_def)
  then have "fst (fetch_from K ?H (endpoint_rpc RPC_DEFAULT_BASE) p h0) = Inl (Transport ''connection refused'')"
    using fetch_from_timeless [OF mock_stable, of K H all_down "endpoint_rpc RPC_DEFAULT_BASE" p h0 "[]"]
    by (simp add: fetch_from_says(2) [OF mock_stable])
  then obtain h1 where "fetch_from K ?H (endpoint_rpc RPC_DEFAULT_BASE) p h0 = (Inl (Transport ''connection refused''), h1)"
    by (metis prod.collapse)
  with walk have "resolve K ?H R s [] = (Inr Unreachable, R\<lparr>r_memory := m, r_plan_cache := Some ?plan\<rparr>, h1)"
    by (simp add: walk.simps)
  moreover have "faithful K (on_mock H M) default_options {s} (R\<lparr>r_memory := m, r_plan_cache := Some ?plan\<rparr>)"
    if "get_fn M = no_node" for M
  proof -
    have "local_node K (on_mock H M) = None"
      using that by (simp add: local_node_def node_up_def mock_reply no_node_def)
    moreover have "mc_wf m" "mc_stored m = Map.empty"
      using mc_wf_get [OF assms(8), of "cache_id K p root"] mc_stored_get [of "r_memory R" "cache_id K p root"] get assms(9)
      by simp_all
    ultimately show ?thesis
      using assms(6,7) by (simp add: faithful_def plan_now_eq [OF mock_stable])
  qed
  ultimately show thesis by (intro that) blast+
qed

lemma failures_are_not_cached_and_recovery_retries_passes:
  assumes "libraries K S"
  shows "failures_are_not_cached_and_recovery_retries K S H"
  unfolding failures_are_not_cached_and_recovery_retries_def recorded_def [symmetric]
proof (rule on_plain_fixtureI [OF assms])
  fix fx ct
  let ?pt = "str_bytes ''recovered''" and ?M = "recorded fx K" and ?s = "root_pinned_urn IMG_KEY (fx_root_hex fx)"
  let ?d = "resolved_data_new ?pt (derive IMG_KEY ?pt)"
  assume fx: "is_fixture K S IMG_KEY None ?pt fx ct"
  obtain p where p: "parse_urn K ?s = Inr p" "names K p (Some (fx_root_hex fx)) IMG_KEY None"
    using parse_pinned [OF assms fixture_root [OF fx]] by blast
  then have root: "root_hex K p = Some (fx_root_hex fx)" by (simp add: names_def)
  obtain R where R: "resolver_new (on_mock H all_down) [] = (R, [])" "r_plan_cache R = None" "r_disk R = None"
    "r_options R = default_options" "mc_live (Suc (Suc 0)) (r_memory R)" "mc_wf (r_memory R)" "mc_stored (r_memory R) = Map.empty"
    by (rule fresh_resolver [of H all_down "[]"])
  obtain R1 h1 where first: "resolve K (on_mock H all_down) R ?s [] = (Inr Unreachable, R1, h1)"
      and kept: "\<forall>M. get_fn M = no_node \<longrightarrow> faithful K (on_mock H M) default_options {?s} R1"
    by (rule down_then [OF assms p(1) root R(1-4,6,7)])
  have "specified K (on_mock H ?M) default_options ?s = Inr (Success ?d)"
    using recorded_gives [OF assms fx p names_no_salt [OF p(2)], of H]
      run_plain [of default_options K ?s p ?M H] p(1) by (simp add: recorded_def no_node_def)
  moreover have "faithful K (on_mock H ?M) default_options {?s} R1" using kept by (simp add: recorded_def)
  ultimately have "fst (resolve K (on_mock H ?M) R1 ?s h1) = Inr (Success ?d)"
    using resolve_answer [OF mock_stable, of ?s "{?s}" K H ?M default_options R1 h1] by (simp add: answer_specified [OF mock_stable] recorded_def)
  then obtain R2 h2 where second: "resolve K (on_mock H ?M) R1 ?s h1 = (Inr (Success ?d), R2, h2)"
    by (metis prod.collapse)
  have "is_http e \<Longrightarrow> mock_call all_down e \<noteq> None \<and> mock_call ?M e \<noteq> None" for e
    by (cases e) (simp_all add: all_down_def recorded_def no_node_def gateway_down_def)
  with R(1) first second
  show "case resolve_twice K H all_down ?M ?s of
      Some (Inr Unreachable, Inr (Success d), h) \<Rightarrow> rd_bytes d = ?pt | _ \<Rightarrow> False"
    by (simp add: resolve_twice_def resolve_on_def list_all_iff)
qed (simp_all add: str_bytes_def)

section \<open>The disk tests\<close>

definition with_cache_path :: "string \<Rightarrow> resolve_options" where
  "with_cache_path dir = default_options\<lparr>o_cache_path := Some dir\<rparr>"

text \<open>The first \<open>.json\<close> file written under the directory and still there.\<close>

definition json_entry :: "string \<Rightarrow> history \<Rightarrow> string option" where
  "json_entry dir h =
     find (\<lambda>q. prefix dir q \<and> suffix ''.json'' q \<and> files_after h q \<noteq> None)
       (concat (map (\<lambda>e. case e of FsWrite q b \<Rightarrow> [q] | _ \<Rightarrow> []) h))"

text \<open>\<open>v[key] = x\<close> on a \<open>Value\<close>; it panics on what is neither an object nor null.\<close>

fun json_set :: "string \<Rightarrow> json \<Rightarrow> json \<Rightarrow> json option" where
  "json_set k x (JObject kvs) = Some (JObject (AList.update k x kvs))"
| "json_set k x JNull = Some (JObject [(k, x)])"
| "json_set k x _ = None"

definition nines :: bytes where
  "nines = [9, 9, 9, 9, 9, 9]"

definition tampered_entry :: "('u, 'm) crates \<Rightarrow> bytes \<Rightarrow> bytes option" where
  "tampered_entry K raw =
     (case sj_value_from_slice K raw of
        Inl _ \<Rightarrow> None
      | Inr v \<Rightarrow>
         map_option (\<lambda>v'. str_bytes (sj_to_string K v'))
           (json_set ''ciphertext'' (JArray (map (\<lambda>b. JNumber (PosInt (ucast b))) nines)) v))"

definition panicking :: mock_transport where
  "panicking = \<lparr>get_fn = (\<lambda>url. None), post_fn = (\<lambda>url bdy. None)\<rparr>"

definition tampered_disk_cache_entry_fails_closed ::
    "('u, 'm) crates \<Rightarrow> demo_store \<Rightarrow> host \<Rightarrow> string \<Rightarrow> bool" where
  "tampered_disk_cache_entry_fails_closed K S H dir \<longleftrightarrow>
     on_fixture K S (str_bytes ''disk bytes'') None (\<lambda>fx.
       let s = root_pinned_urn IMG_KEY (fx_root_hex fx);
           (R, h) = with_options (on_mock H (rpc_serving K fx)) (with_cache_path dir) []
       in case resolve_on K H (rpc_serving K fx) R s h of
            Some (Inr (Success d), R1, h1) \<Rightarrow>
              rd_bytes d = str_bytes ''disk bytes'' \<and>
              (case json_entry dir h1 of
                 Some file \<Rightarrow>
                  (case Option.bind (files_after h1 file) (tampered_entry K) of
                     Some b \<Rightarrow>
                       (let (R2, h2) = with_options (on_mock H panicking) (with_cache_path dir) (h1 @ [FsWrite file b])
                        in map_option fst (resolve_on K H panicking R2 s h2) = Some (Inr IntegrityFailure))
                   | None \<Rightarrow> False)
               | None \<Rightarrow> False)
          | _ \<Rightarrow> False)"

text \<open>The directory of the options is a file.\<close>

definition unusable_cache_path_degrades_gracefully_never_throws ::
    "('u, 'm) crates \<Rightarrow> demo_store \<Rightarrow> host \<Rightarrow> string \<Rightarrow> bool" where
  "unusable_cache_path_degrades_gracefully_never_throws K S H not_a_dir \<longleftrightarrow>
     on_fixture K S (str_bytes ''still resolves'') None (\<lambda>fx.
       let s = root_pinned_urn IMG_KEY (fx_root_hex fx);
           (R, h) = with_options (on_mock H (rpc_serving K fx)) (with_cache_path not_a_dir)
             [FsWrite not_a_dir (str_bytes ''x'')]
       in case resolve_on K H (rpc_serving K fx) R s h of
            Some (Inr (Success d), R1, h1) \<Rightarrow> rd_bytes d = str_bytes ''still resolves''
          | _ \<Rightarrow> False)"

text \<open>Nothing can be read below a file, and an entry takes another ciphertext.\<close>

definition nothing_below :: "('u, 'm) crates \<Rightarrow> host \<Rightarrow> string \<Rightarrow> bool" where
  "nothing_below K H f \<longleftrightarrow> (\<forall>h i. fs_read H h (native_path K f i) = None)"

definition entry_editable :: "('u, 'm) crates \<Rightarrow> bool" where
  "entry_editable K \<longleftrightarrow>
     (\<forall>a raw. sj_artifacts_to_vec K a = Some raw \<longrightarrow>
        (\<exists>b. tampered_entry K raw = Some b \<and> sj_artifacts_from_slice K b = Some (a\<lparr>da_ciphertext := nines\<rparr>)))"

definition disk_build :: "('u, 'm) crates \<Rightarrow> demo_store \<Rightarrow> host \<Rightarrow> bool" where
  "disk_build K S H \<longleftrightarrow>
     honest_fs H \<and> envelope_roundtrip K \<and> sha256_hex_format K \<and> entry_editable K \<and>
     dc_resource_leaf K nines \<noteq> dc_resource_leaf K
       (ds_encrypt_chunk S (dc_derive_decryption_key K (canonical_of IMG_KEY) None) (str_bytes ''disk bytes''))"

lemma with_disk:
  assumes "feature_native H"
  shows "with_options (on_mock H M) (with_cache_path dir) h =
    (\<lparr>r_options = with_cache_path dir, r_plan_cache = None,
      r_memory = mc_new DEFAULT_MEMORY_ENTRIES DEFAULT_MEMORY_BYTES, r_disk = Some dir\<rparr>, h @ [FsMkdir dir])"
  using assms by (simp add: with_options_def with_cache_path_def has_disk_def disk_new_def native_new_def)

text \<open>The resolve of both tests that reaches the gateway: what it returns and what it writes.\<close>

lemma first_with_disk:
  assumes "libraries K S" and "feature_native H" and "is_fixture K S IMG_KEY None pt fx ct"
    and "parse_urn K s = Inr p" and "names K p (Some (fx_root_hex fx)) IMG_KEY None"
    and "fs_read H (h @ [FsMkdir dir]) (native_path K dir (cache_id K p (fx_root_hex fx))) = None"
    and "with_options (on_mock H (rpc_serving K fx)) (with_cache_path dir) h = (R, h0)"
  shows "\<exists>R1 h1. resolve_on K H (rpc_serving K fx) R s h0 =
      Some (Inr (Success (resolved_data_new pt (derive IMG_KEY pt))), R1,
        native_put K H dir (cache_id K p (fx_root_hex fx)) (fixture_artifacts fx ct) h1) \<and>
    grows (\<lambda>e. \<not> is_write e) h h1"
proof -
  let ?M = "rpc_serving K fx" and ?root = "fx_root_hex fx"
  let ?H = "on_mock H ?M" and ?i = "cache_id K p ?root"
  have root: "root_hex K p = Some ?root" using assms(5) by (simp add: names_def)
  have R: "r_plan_cache R = None" "r_disk R = Some dir" "o_endpoint (r_options R) = None" "mc_stored (r_memory R) = Map.empty"
    and h0: "h0 = h @ [FsMkdir dir]"
    using assms(7) with_disk [OF assms(2)] by (auto simp: with_cache_path_def)
  have miss: "disk_get_verified K ?H (R\<lparr>r_memory := m\<rparr>) p ?i h0 = (None, h0 @ [FsRead (native_path K dir ?i)])" for m
    using assms(2,6) R(2) root h0
    by (simp add: disk_get_verified_def has_disk_def disk_get_def native_get_def on_mock_def)
  obtain m h1 where grown: "grows is_health_probe (h0 @ [FsRead (native_path K dir ?i)]) h1"
    and walk: "resolve K ?H R s h0 = walk K ?H p 0 0 [endpoint_rpc RPC_DEFAULT_BASE]
      (R\<lparr>r_memory := m, r_plan_cache := Some [endpoint_rpc RPC_DEFAULT_BASE]\<rparr>) h1"
    by (rule resolve_no_node [OF _ assms(4) root _ R(1) R(3) miss]) (simp_all add: rpc_serving_def R(4))
  let ?e = "window_request K RPC_DEFAULT_BASE p ?root 0"
  have "rpc_fetch K ?H RPC_DEFAULT_BASE p h1 = (Inr (fixture_fetched fx ct pt), h1 @ [?e])"
    by (rule fixture_fetch [OF assms(1,3,5) names_no_salt [OF assms(5)]]) (simp add: rpc_serving_def serving [OF assms(1)])
  from walk_to_fixture [OF this, of "R\<lparr>r_memory := m, r_plan_cache := Some [endpoint_rpc RPC_DEFAULT_BASE]\<rparr>"] walk
  obtain R1 where res: "resolve K ?H R s h0 = (Inr (Success (resolved_data_new pt (derive IMG_KEY pt))), R1,
      native_put K H dir ?i (fixture_artifacts fx ct) (h1 @ [?e]))"
    using assms(2) R(2) by (simp add: has_disk_def disk_put_def native_put_def on_mock_def)
  let ?Q = "\<lambda>e. is_http e \<longrightarrow> mock_call ?M e \<noteq> None"
  have early: "grows (\<lambda>e. \<not> is_write e \<and> ?Q e) h0 (h1 @ [?e])"
  proof -
    have "grows (\<lambda>e. \<not> is_write e \<and> ?Q e) (h0 @ [FsRead (native_path K dir ?i)]) h1"
      by (rule grows_mono [OF grown]) (auto simp: is_health_probe_def rpc_serving_def no_node_def)
    then show ?thesis
      using serving [OF assms(1), of fx RPC_DEFAULT_BASE p ?root 0]
      by (auto simp: grows_def window_request_def window_body_def rpc_serving_def)
  qed
  then have "grows ?Q h0 (h1 @ [?e])" by (rule grows_mono) simp
  moreover have "grows ?Q (h1 @ [?e]) (native_put K H dir ?i (fixture_artifacts fx ct) (h1 @ [?e]))"
    by (auto simp: native_put_def grows_def split: option.split)
  ultimately have "grows ?Q h0 (native_put K H dir ?i (fixture_artifacts fx ct) (h1 @ [?e]))" by (rule grows_trans)
  then have "list_all ?Q (drop (length h0) (native_put K H dir ?i (fixture_artifacts fx ct) (h1 @ [?e])))"
    by (auto simp: grows_def)
  with res have "resolve_on K H ?M R s h0 = Some (Inr (Success (resolved_data_new pt (derive IMG_KEY pt))), R1,
      native_put K H dir ?i (fixture_artifacts fx ct) (h1 @ [?e]))"
    by (simp add: resolve_on_def)
  moreover have "grows (\<lambda>e. \<not> is_write e) h (h1 @ [?e])" using early h0 by (auto simp: grows_def list_all_iff)
  ultimately show ?thesis by blast
qed

lemma unusable_cache_path_degrades_gracefully_never_throws_passes:
  assumes "libraries K S" and "feature_native H" and "nothing_below K H dir"
  shows "unusable_cache_path_degrades_gracefully_never_throws K S H dir"
  unfolding unusable_cache_path_degrades_gracefully_never_throws_def
proof (rule on_plain_fixtureI [OF assms(1)])
  fix fx :: rpc_fixture and ct
  let ?s = "root_pinned_urn IMG_KEY (fx_root_hex fx)" and ?pt = "str_bytes ''still resolves''"
  assume fx: "is_fixture K S IMG_KEY None ?pt fx ct"
  obtain p where p: "parse_urn K ?s = Inr p" "names K p (Some (fx_root_hex fx)) IMG_KEY None"
    using parse_pinned [OF assms(1) fixture_root [OF fx]] by blast
  obtain R h where opened: "with_options (on_mock H (rpc_serving K fx)) (with_cache_path dir)
      [FsWrite dir (str_bytes ''x'')] = (R, h)" by fastforce
  from first_with_disk [OF assms(1,2) fx p _ opened] assms(3) opened
  show "let s = ?s; (R, h) = with_options (on_mock H (rpc_serving K fx)) (with_cache_path dir) [FsWrite dir (str_bytes ''x'')]
      in case resolve_on K H (rpc_serving K fx) R s h of
           Some (Inr (Success d), R1, h1) \<Rightarrow> rd_bytes d = ?pt | _ \<Rightarrow> False"
    by (auto simp: nothing_below_def)
qed (simp_all add: str_bytes_def)

lemma json_entry_written:
  assumes "sha256_hex_format K" and "grows (\<lambda>e. \<not> is_write e) [] h"
  shows "json_entry dir (h @ [FsWrite (native_path K dir i) raw]) = Some (native_path K dir i)"
proof -
  have "concat (map (\<lambda>e. case e of FsWrite q b \<Rightarrow> [q] | _ \<Rightarrow> []) h) = []"
    using assms(2) by (auto simp: grows_def list_all_iff split: event.split)
  moreover have "prefix dir (native_path K dir i)" "suffix ''.json'' (native_path K dir i)"
    using cache_file_name_no_slash(2) [OF assms(1), of i]
    by (auto simp: native_path_def path_join_def cache_file_name_def suffix_def)
  ultimately show ?thesis by (simp add: json_entry_def del: concat_eq_Nil_conv)
qed

text \<open>A fresh resolver that reads the tampered entry asks nothing and refuses it.\<close>

lemma tampered_reread:
  assumes "libraries K S" and "feature_native H" and "is_fixture K S IMG_KEY None pt fx ct"
    and "parse_urn K s = Inr p" and "names K p (Some (fx_root_hex fx)) IMG_KEY None"
    and "dc_resource_leaf K nines \<noteq> dc_resource_leaf K ct"
    and "fs_read H h (native_path K dir (cache_id K p (fx_root_hex fx))) = Some b"
    and "sj_artifacts_from_slice K b = Some (fixture_artifacts fx ct\<lparr>da_ciphertext := nines\<rparr>)"
    and "r_disk R = Some dir" and "mc_stored (r_memory R) = Map.empty"
  shows "map_option fst (resolve_on K H panicking R s h) = Some (Inr IntegrityFailure)"
proof -
  let ?i = "cache_id K p (fx_root_hex fx)"
  let ?file = "native_path K dir ?i"
  have root: "root_hex K p = Some (fx_root_hex fx)" using assms(5) by (simp add: names_def)
  from tampered_refused [OF assms(1,3) names_no_salt [OF assms(5)] assms(6)] obtain e where
      "verify_and_decrypt K p nines (fx_proof_b64 fx) (fx_root_hex fx) (fx_chunk_lens fx) = Inl e"
      "verdict (Inl e) = Inr IntegrityFailure"
    by blast
  then have "disk_get_verified K (on_mock H panicking) (R\<lparr>r_memory := m\<rparr>) p ?i h =
      (Some IntegrityFailure, h @ [FsRead ?file, FsRemove ?file])" for m
    using assms(2,7-9) root
    by (cases e) (simp_all add: disk_get_verified_def has_disk_def disk_get_def native_get_def on_mock_def
      fixture_artifacts_def disk_remove_def native_remove_def)
  from resolve_disk [OF assms(4) root _ this] assms(10) obtain R' where
      "resolve K (on_mock H panicking) R s h = (Inr IntegrityFailure, R', h @ [FsRead ?file, FsRemove ?file])"
    by auto
  then show ?thesis by (simp add: resolve_on_def)
qed

lemma tampered_disk_cache_entry_fails_closed_passes:
  assumes "libraries K S" and "feature_native H" and "disk_build K S H"
  shows "tampered_disk_cache_entry_fails_closed K S H dir"
  unfolding tampered_disk_cache_entry_fails_closed_def
proof (rule on_plain_fixtureI [OF assms(1)])
  fix fx :: rpc_fixture and ct
  let ?s = "root_pinned_urn IMG_KEY (fx_root_hex fx)" and ?pt = "str_bytes ''disk bytes''" and ?M = "rpc_serving K fx"
  let ?d = "resolved_data_new ?pt (derive IMG_KEY ?pt)" and ?root = "fx_root_hex fx"
  assume fx: "is_fixture K S IMG_KEY None ?pt fx ct"
  have fs: "\<And>h q. fs_read H h q = files_after h q" and sha: "sha256_hex_format K"
    using assms(3) by (simp_all add: disk_build_def honest_fs_def)
  obtain p where p: "parse_urn K ?s = Inr p" "names K p (Some ?root) IMG_KEY None"
    using parse_pinned [OF assms(1) fixture_root [OF fx]] by blast
  let ?i = "cache_id K p ?root"
  let ?file = "native_path K dir ?i" and ?a = "fixture_artifacts fx ct"
  obtain raw b where raw: "sj_artifacts_to_vec K ?a = Some raw" "tampered_entry K raw = Some b"
      "sj_artifacts_from_slice K b = Some (?a\<lparr>da_ciphertext := nines\<rparr>)"
    using assms(3) unfolding disk_build_def envelope_roundtrip_def entry_editable_def by metis
  obtain R h where opened: "with_options (on_mock H ?M) (with_cache_path dir) [] = (R, h)" by fastforce
  from first_with_disk [OF assms(1,2) fx p _ opened] obtain R1 h1 where
      first: "resolve_on K H ?M R ?s h = Some (Inr (Success ?d), R1, h1 @ [FsWrite ?file raw])"
      and early: "grows (\<lambda>e. \<not> is_write e) [] h1"
    using raw(1) by (auto simp: fs files_after_def native_put_def)
  let ?h = "h1 @ [FsWrite ?file raw, FsWrite ?file b, FsMkdir dir]"
  obtain R2 where reopened: "with_options (on_mock H panicking) (with_cache_path dir) (h1 @ [FsWrite ?file raw] @ [FsWrite ?file b]) = (R2, ?h)"
      and R2: "r_disk R2 = Some dir" "mc_stored (r_memory R2) = Map.empty"
    by (simp add: with_disk [OF assms(2)])
  have "dc_resource_leaf K nines \<noteq> dc_resource_leaf K ct"
    using assms(3) fx unfolding disk_build_def is_fixture_def by blast
  from tampered_reread [OF assms(1,2) fx p this _ raw(3) R2, of ?h]
  have "map_option fst (resolve_on K H panicking R2 ?s ?h) = Some (Inr IntegrityFailure)"
    by (simp add: fs files_after_def)
  with opened first reopened raw(2) json_entry_written [OF sha early]
  show "let s = ?s; (R, h) = with_options (on_mock H ?M) (with_cache_path dir) []
      in case resolve_on K H ?M R s h of
            Some (Inr (Success d), R1, h1) \<Rightarrow>
              rd_bytes d = ?pt \<and>
              (case json_entry dir h1 of
                 Some file \<Rightarrow>
                  (case Option.bind (files_after h1 file) (tampered_entry K) of
                     Some b \<Rightarrow>
                       (let (R2, h2) = with_options (on_mock H panicking) (with_cache_path dir) (h1 @ [FsWrite file b])
                        in map_option fst (resolve_on K H panicking R2 s h2) = Some (Inr IntegrityFailure))
                   | None \<Rightarrow> False)
               | None \<Rightarrow> False)
          | _ \<Rightarrow> False"
    by simp
qed (simp_all add: str_bytes_def)

section \<open>The suite\<close>

text \<open>
  The tests of the file in its order: \<open>H\<close> is the machine they run on, \<open>dir\<close> the temporary directory
  of the disk test, and \<open>H'\<close> the machine on which \<open>f\<close> is a file.
\<close>

definition integration_suite ::
    "('u, 'm) crates \<Rightarrow> demo_store \<Rightarrow> host \<Rightarrow> string \<Rightarrow> host \<Rightarrow> string \<Rightarrow> bool list" where
  "integration_suite K S H dir H' f =
     [rejects_non_urn K H,
      bare_store_urn_defaults_to_index_html K H,
      node_tier_serves_when_healthy K H,
      node_content_type_falls_back_to_extension_when_header_absent K H,
      node_404_falls_through_to_rpc_which_serves K S H,
      all_tiers_not_found_is_branded_final_not_found K H,
      integrity_failure_at_node_tier_never_queries_rpc K H,
      rootless_urn_over_rpc_is_rejected K S H,
      rpc_tier_resolves_root_pinned K S H,
      rpc_private_store_salt_decrypts_root_pinned K S H,
      rpc_not_found_when_content_empty K H,
      tampered_ciphertext_is_integrity_failure_not_data K S H,
      wrong_salt_is_integrity_failure K S H,
      integrity_failure_renders_security_page_never_the_bytes K S H,
      rpc_protocol_error_is_hard_error_not_unreachable K H,
      both_tiers_unreachable_is_unreachable_outcome K H,
      unreachable_connect_url_is_overridable K H,
      node_without_x_dig_verified_is_fail_closed K H,
      override_remote_host_uses_verified_rpc_not_node K S H,
      override_loopback_host_may_use_node K H,
      override_remote_unreachable_does_not_leak_to_public_rpc K H,
      outcome_accessors,
      node_ciphertext_response_is_verified_and_decrypted K S H,
      salted_urn_decrypts_on_node_ciphertext_path K S H,
      wrong_salt_on_node_ciphertext_path_is_integrity_failure K S H,
      rootless_urn_over_node_ciphertext_derives_root_from_header K S H,
      rootless_urn_falls_to_rpc_root_required_when_node_unhealthy K S H,
      second_resolve_is_a_memory_cache_hit_no_network K S H,
      failures_are_not_cached_and_recovery_retries K S H,
      tampered_disk_cache_entry_fails_closed K S H dir,
      chunk_lens_overflow_is_integrity_failure_not_panic K S H,
      browser_cors_blocked_local_probe_falls_back_to_verified_rpc K S H,
      unusable_cache_path_degrades_gracefully_never_throws K S H' f]"

lemmas gateway_tests =
  rpc_tier_resolves_root_pinned_passes rpc_private_store_salt_decrypts_root_pinned_passes
  rpc_not_found_when_content_empty_passes rpc_protocol_error_is_hard_error_not_unreachable_passes
  wrong_salt_is_integrity_failure_passes chunk_lens_overflow_is_integrity_failure_not_panic_passes
  browser_cors_blocked_local_probe_falls_back_to_verified_rpc_passes
  both_tiers_unreachable_is_unreachable_outcome_passes unreachable_connect_url_is_overridable_passes
  rejects_non_urn_passes rootless_tests_pass
  second_resolve_is_a_memory_cache_hit_no_network_passes failures_are_not_cached_and_recovery_retries_passes

lemmas tamper_tests =
  tampered_ciphertext_is_integrity_failure_not_data_passes
  integrity_failure_renders_security_page_never_the_bytes_passes

lemmas node_tests =
  bare_store_urn_defaults_to_index_html_passes node_tier_serves_when_healthy_passes
  node_content_type_falls_back_to_extension_when_header_absent_passes unverified_tests_pass
  node_404_falls_through_to_rpc_which_serves_passes all_tiers_not_found_is_branded_final_not_found_passes
  override_remote_host_uses_verified_rpc_not_node_passes override_loopback_host_may_use_node_passes
  override_remote_unreachable_does_not_leak_to_public_rpc_passes
  node_ciphertext_response_is_verified_and_decrypted_passes salted_urn_decrypts_on_node_ciphertext_path_passes
  wrong_salt_on_node_ciphertext_path_is_integrity_failure_passes
  rootless_urn_over_node_ciphertext_derives_root_from_header_passes

text \<open>
  C14. The repository's end-to-end tests hold: in a native build, over libraries that behave as
  documented and a hash that tells the tests' tampered bytes from the authentic ones, each of the
  33 tests of \<open>tests/resolve.rs\<close> passes, whatever else the machine and the libraries do.
\<close>

theorem integration_suite_passes:
  assumes "libraries K S" and "tamper_shows K S" and "native_build K H" and "disk_build K S H"
    and "native_build K H'" and "nothing_below K H' f"
  shows "list_all (\<lambda>t. t) (integration_suite K S H dir H' f)"
proof -
  have "feature_native H" "feature_native H'" using assms(3,5) by (simp_all add: native_build_def)
  then show ?thesis
    using assms(4,6)
    by (simp add: integration_suite_def outcome_accessors_pass gateway_tests [OF assms(1)] tamper_tests [OF assms(1,2)] node_tests [OF assms(1,3)]
        tampered_disk_cache_entry_fails_closed_passes [OF assms(1)]
        unusable_cache_path_degrades_gracefully_never_throws_passes [OF assms(1)])
qed

lemma suite_tampers: "tamper_shows suite_crates suite_store"
  by (simp add: tamper_shows_def suite_crates_def suite_store_def demo_crates_def first_byte_def) (simp add: str_bytes_def)

lemma suite_disk: "disk_build suite_crates suite_store (demo_host T)"
proof -
  have vec: "sj_artifacts_to_vec suite_crates a = Some (str_bytes (enc_json (artifacts_json a)))"
    "sj_artifacts_from_slice suite_crates = read_artifacts" for a
    by (simp_all add: suite_crates_def)
  have "read_artifacts (str_bytes (enc_json (JObject (AList.update ''ciphertext''
      (JArray (map (\<lambda>b. JNumber (PosInt (ucast b))) nines)) (case artifacts_json a of JObject kvs \<Rightarrow> kvs | _ \<Rightarrow> []))))) =
      Some (a\<lparr>da_ciphertext := nines\<rparr>)" for a
    by (simp add: artifacts_json_def read_artifacts_def comp_def)
  then have "entry_editable suite_crates"
    by (simp add: entry_editable_def vec tampered_entry_def suite_serde_fields) (simp add: artifacts_json_def)
  moreover have "envelope_roundtrip suite_crates" by (simp add: envelope_roundtrip_def vec)
  moreover have "sha256_hex_format suite_crates"
    using demo_sha by (simp add: sha256_hex_format_def suite_fields demo_crates_def)
  ultimately show ?thesis
    by (simp add: disk_build_def demo_honest) (simp add: suite_fields suite_store_def nines_def str_bytes_def)
qed

lemma integration_suite_passes_witness:
  "list_all (\<lambda>t. t)
     (integration_suite suite_crates suite_store (demo_host net_down) ''/tmp/cache''
       (demo_host net_down\<lparr>fs_read := \<lambda>h q. None\<rparr>) ''/tmp/file'')"
proof (rule integration_suite_passes [OF suite_libraries suite_tampers suite_native suite_disk])
  let ?H = "demo_host net_down\<lparr>fs_read := \<lambda>h q. None\<rparr>"
  show "native_build suite_crates ?H" using suite_native [of net_down] by (simp add: native_build_def)
  show "nothing_below suite_crates ?H ''/tmp/file''" by (simp add: nothing_below_def)
qed

end
