(* ===== verification/ClientTests.thy ===== *)
theory ClientTests
  imports IntegrationSuite ClientOptions
begin

text \<open>
  The remaining integration tests that run the crate's own code: the JavaScript constructor
  (\<open>tests/wasm_ctor.rs\<close>), the disk cache over Node's \<open>fs\<close> (\<open>tests/wasm_disk.rs\<close>), the acceptance test
  of the NFT consumer (\<open>tests/sage_example.rs\<close>) and the short salt of
  \<open>tests/urn_layer_contract.rs\<close>.
\<close>

section \<open>The constructor\<close>

text \<open>The helper of the tests: an object with these string properties.\<close>

definition options_object :: "(string \<times> string) list \<Rightarrow> js_options" where
  "options_object pairs =
     JsObject (\<lambda>name. case map_of pairs name of Some v \<Rightarrow> JsText v | None \<Rightarrow> JsUndefined)"

definition no_argument_yields_all_defaults :: "(js_options \<Rightarrow> string + parsed_options) \<Rightarrow> bool" where
  "no_argument_yields_all_defaults from_value \<longleftrightarrow>
     (let dig = dig_network_new from_value None
      in client_endpoint dig = None \<and> client_connect_url dig = None \<and> client_cache_path dig = None)"

definition partial_options_sets_only_the_named_field :: "(js_options \<Rightarrow> string + parsed_options) \<Rightarrow> bool" where
  "partial_options_sets_only_the_named_field from_value \<longleftrightarrow>
     (let dig = dig_network_new from_value (Some (options_object [(''cachePath'', ''/var/cache/dig-urn'')]))
      in client_cache_path dig = Some ''/var/cache/dig-urn'' \<and> client_endpoint dig = None \<and>
         client_connect_url dig = None)"

definition full_options_sets_every_field :: "(js_options \<Rightarrow> string + parsed_options) \<Rightarrow> bool" where
  "full_options_sets_every_field from_value \<longleftrightarrow>
     (let dig = dig_network_new from_value (Some (options_object
            [(''endpoint'', ''http://127.0.0.1:9778''), (''connectUrl'', ''https://dig.net/connect''),
             (''cachePath'', ''/tmp/dig'')]))
      in client_endpoint dig = Some ''http://127.0.0.1:9778'' \<and>
         client_connect_url dig = Some ''https://dig.net/connect'' \<and> client_cache_path dig = Some ''/tmp/dig'')"

definition blank_and_unknown_fields_are_ignored :: "(js_options \<Rightarrow> string + parsed_options) \<Rightarrow> bool" where
  "blank_and_unknown_fields_are_ignored from_value \<longleftrightarrow>
     (let dig = dig_network_new from_value (Some (options_object
            [(''endpoint'', ''   ''), (''bogus'', ''ignored''), (''cachePath'', ''/tmp/dig'')]))
      in client_endpoint dig = None \<and> client_cache_path dig = Some ''/tmp/dig'')"

lemma read_object:
  assumes "reads_options from_value"
  shows "from_value (options_object pairs) = Inr \<lparr>op_endpoint = map_of pairs ''endpoint'',
    op_connect_url = map_of pairs ''connectUrl'', op_cache_path = map_of pairs ''cachePath''\<rparr>"
proof -
  let ?f = "\<lambda>name. case map_of pairs name of Some v \<Rightarrow> JsText v | None \<Rightarrow> JsUndefined"
  have "typed_options ?f"
    by (auto simp: typed_options_def list_all_iff split: option.split)
  moreover have "prop_text (?f name) = map_of pairs name" for name by (simp split: option.split)
  ultimately show ?thesis using read_typed [OF assms] unfolding options_object_def by metis
qed

lemma option_trims:
  "trim ''/var/cache/dig-urn'' \<noteq> []" "trim ''http://127.0.0.1:9778'' \<noteq> []" "trim ''https://dig.net/connect'' \<noteq> []"
  "trim ''/tmp/dig'' \<noteq> []" "trim ''   '' = []"
  by code_simp+

lemma constructor_tests_pass:
  assumes "reads_options from_value"
  shows "no_argument_yields_all_defaults from_value" and "partial_options_sets_only_the_named_field from_value"
    and "full_options_sets_every_field from_value" and "blank_and_unknown_fields_are_ignored from_value"
  using read_object [OF assms] option_trims
  by (simp_all add: no_argument_yields_all_defaults_def
      partial_options_sets_only_the_named_field_def full_options_sets_every_field_def
      blank_and_unknown_fields_are_ignored_def dig_network_new_def from_parts_def opt_def Let_def
      parsed_options_default_def client_endpoint_def client_connect_url_def client_cache_path_def)

section \<open>The disk cache under Node\<close>

text \<open>Node's \<open>fs\<close> module, as \<open>Reflect::get\<close> finds it.\<close>

definition node_module :: "(string \<Rightarrow> js_property) \<Rightarrow> node_fs \<Rightarrow> bool" where
  "node_module fs f \<longleftrightarrow>
     fs ''readFileSync'' = JsFunction (read_file_sync f) \<and> fs ''writeFileSync'' = JsFunction (write_file_sync f) \<and>
     fs ''mkdirSync'' = JsFunction (mkdir_sync f) \<and> fs ''unlinkSync'' = JsFunction (unlink_sync f)"

definition node_fs_is_inert_until_injected_then_available ::
    "(string \<Rightarrow> js_property) \<Rightarrow> node_fs option \<Rightarrow> bool" where
  "node_fs_is_inert_until_injected_then_available fs slot \<longleftrightarrow> is_available (set_node_fs fs slot)"

definition test_artifacts :: disk_artifacts where
  "test_artifacts = \<lparr>da_ciphertext = [0xDE, 0xAD, 0xBE, 0xEF], da_proof_b64 = ''cHJvb2Y='', da_chunk_lens = [4]\<rparr>"

definition disk_cache_round_trips_through_node_fs ::
    "('u, 'm) crates \<Rightarrow> host \<Rightarrow> (string \<Rightarrow> js_property) \<Rightarrow> string \<Rightarrow> bool" where
  "disk_cache_round_trips_through_node_fs K H fs dir \<longleftrightarrow>
     (let H' = H\<lparr>injected_fs := set_node_fs fs (injected_fs H)\<rparr>;
          (cache, h0) = wasm_new H' dir [];
          (cold, h1) = wasm_get K H' cache ''k'' h0;
          (warm, h2) = wasm_get K H' cache ''k'' (wasm_put K H' cache ''k'' test_artifacts h1);
          (reopened, h3) = wasm_new H' dir h2;
          (again, h4) = wasm_get K H' reopened ''k'' h3;
          (gone, h5) = wasm_get K H' cache ''k'' (wasm_remove K H' cache ''k'' h4)
      in cold = None \<and> warm = Some test_artifacts \<and> again = Some test_artifacts \<and> gone = None)"

lemma injected: "node_module fs f \<Longrightarrow> set_node_fs fs slot = Some f"
  by (simp add: node_module_def set_node_fs_def)

lemma node_fs_is_inert_until_injected_then_available_passes:
  "node_module fs f \<Longrightarrow> node_fs_is_inert_until_injected_then_available fs slot"
  by (simp add: node_fs_is_inert_until_injected_then_available_def injected is_available_def)

lemma disk_cache_round_trips_through_node_fs_passes:
  assumes "node_module fs f" and "honest_node_fs f" and "envelope_roundtrip K"
  shows "disk_cache_round_trips_through_node_fs K H fs dir"
proof -
  let ?H = "H\<lparr>injected_fs := Some f\<rparr>" and ?d = "trim_end_matches CHR ''/'' dir"
  let ?q = "wasm_path K ?d ''k''"
  obtain b where b: "sj_artifacts_to_vec K test_artifacts = Some b" "sj_artifacts_from_slice K b = Some test_artifacts"
    using assms(3) unfolding envelope_roundtrip_def by blast
  have get: "wasm_get K ?H ?d ''k'' h =
      (Option.bind (files_after h ?q) (sj_artifacts_from_slice K), h @ [FsRead ?q])" for h
    using assms(2) by (simp add: wasm_get_def read_file_def honest_node_fs_def split: option.split)
  have new: "wasm_new ?H dir h = (?d, h @ [FsMkdir ?d])" for h
    by (simp add: wasm_new_def mkdir_all_def Let_def)
  have put: "wasm_put K ?H ?d ''k'' test_artifacts h = h @ [FsWrite ?q b]" for h
    by (simp add: wasm_put_def write_file_def b)
  have remove: "wasm_remove K ?H ?d ''k'' h = h @ [FsRemove ?q]" for h
    by (simp add: wasm_remove_def remove_file_def)
  have cold: "files_after [FsMkdir ?d] = Map.empty" by (simp add: files_after_def)
  show ?thesis
    by (simp add: disk_cache_round_trips_through_node_fs_def injected [OF assms(1)] new get put remove b(2) cold Let_def
        flip: append_assoc del: append_assoc)
qed

section \<open>The acceptance test\<close>

definition NFT_PNG :: bytes where
  "NFT_PNG =
     [0x89, 0x50, 0x4E, 0x47, 0x0D, 0x0A, 0x1A, 0x0A, 0x00, 0x00, 0x00, 0x0D] @ str_bytes ''IHDR''"

definition sage_nft_image_resolves_over_rpc_with_no_node_running ::
    "('u, 'm) crates \<Rightarrow> demo_store \<Rightarrow> host \<Rightarrow> bool" where
  "sage_nft_image_resolves_over_rpc_with_no_node_running K S H \<longleftrightarrow>
     (case build_fixture K S KEY NFT_PNG None of
        Some fx \<Rightarrow>
          (case run_mock K H (rpc_serving K fx) default_options
                  (''urn:dig:chia:'' @ STORE_HEX @ '':'' @ fx_root_hex fx @ ''/'' @ KEY) of
             Some (Inr (Success d)) \<Rightarrow> rd_bytes d = NFT_PNG \<and> rd_content_type d = ''image/png''
           | _ \<Rightarrow> False)
      | None \<Rightarrow> False)"

lemma sage_nft_image_resolves_over_rpc_with_no_node_running_passes:
  assumes "libraries K S"
  shows "sage_nft_image_resolves_over_rpc_with_no_node_running K S H"
proof -
  have short: "NFT_PNG \<noteq> []" "length NFT_PNG \<le> 960" by (simp_all add: NFT_PNG_def)
  obtain fx ct where fx: "build_fixture K S KEY NFT_PNG None = Some fx" "is_fixture K S KEY None NFT_PNG fx ct"
    using build_is_fixture [OF assms short, of None None] by blast
  obtain p where p: "parse_urn K (root_pinned_urn KEY (fx_root_hex fx)) = Inr p" "names K p (Some (fx_root_hex fx)) KEY None"
    using parse_urns(1) [OF assms fixture_root [OF fx(2)] key_plain constants_ok(4)] by blast
  let ?M = "rpc_serving K fx"
  have "run_mock K H ?M default_options (root_pinned_urn KEY (fx_root_hex fx)) =
      Some (verdict (gateway_says K (on_mock H ?M) RPC_DEFAULT_BASE p))"
    by (rule run_gateway [OF _ _ _ p(1)]) (simp_all add: rpc_serving_def serving [OF assms])
  moreover have "verdict (gateway_says K (on_mock H ?M) RPC_DEFAULT_BASE p) =
      Inr (Success (resolved_data_new NFT_PNG (derive KEY NFT_PNG)))"
    by (rule gateway_gives [OF assms fx(2) p(2) names_no_salt [OF p(2)] trim_gateway_base])
      (simp add: rpc_serving_def serving [OF assms])
  moreover have "from_extension KEY = Some ''image/png''" by code_simp
  ultimately show ?thesis
    using fx(1) by (simp add: sage_nft_image_resolves_over_rpc_with_no_node_running_def root_pinned_urn_def derive_def)
qed

section \<open>A short salt\<close>

definition test_store :: string where
  "test_store = replicate 64 CHR ''1''"

definition salted :: "string \<Rightarrow> string" where
  "salted sl = ''urn:dig:chia:'' @ test_store @ ''/index.html?salt='' @ sl"

definition short_salt_parses_at_the_edge_and_fails_coded_at_derive :: "('u, 'm) crates \<Rightarrow> bool" where
  "short_salt_parses_at_the_edge_and_fails_coded_at_derive K \<longleftrightarrow>
     (case parse_urn K (salted ''aaaa'') of
        Inr short \<Rightarrow> salt short = Some ''aaaa'' \<and>
          (case decrypt K short (str_bytes ''any ciphertext'') [] of
             Inl (Parse m) \<Rightarrow> contains ''64 hex'' m | _ \<Rightarrow> False)
      | _ \<Rightarrow> False) \<and>
     (case parse_urn K (salted (test_salt ''aa'')) of
        Inr full \<Rightarrow>
          (case decrypt K full (str_bytes ''any ciphertext'') [] of Inl (Parse m) \<Rightarrow> False | _ \<Rightarrow> True)
      | _ \<Rightarrow> False)"

text \<open>
  \<open>dig_urn_protocol\<close>: the parser extracts a salt of any length, 64 hex digits make one, and a
  decryption that fails is no parse error.
\<close>

definition extracts_salts :: "('u, 'm) crates \<Rightarrow> bool" where
  "extracts_salts K \<longleftrightarrow>
     (\<forall>sl \<in> {''aaaa'', test_salt ''aa''}. \<exists>u. du_parse_with_salt K (salted sl) = Inr (u, Some sl)) \<and>
     du_salt_bytes K ''aaaa'' = None \<and> du_salt_bytes K (test_salt ''aa'') \<noteq> None \<and>
     (\<forall>C u s ct lens m. pv_decrypt K C u s ct lens \<noteq> Inl (P_Parse m))"

lemma map_result_no_parse: "(\<And>m. r \<noteq> Inl (P_Parse m)) \<Longrightarrow> map_result r \<noteq> Inl (Parse m)"
  by (cases r; cases "projl r") (auto simp: map_result_def)

lemma short_salt_parses_at_the_edge_and_fails_coded_at_derive_passes:
  assumes "extracts_salts K"
  shows "short_salt_parses_at_the_edge_and_fails_coded_at_derive K"
proof -
  have "trim ''aaaa'' \<noteq> []" "trim (test_salt ''aa'') \<noteq> []" by code_simp+
  moreover have "contains ''64 hex'' ''secret salt must be 64 hex chars''" by code_simp
  moreover have "map_result (pv_decrypt K C u s ct lens) \<noteq> Inl (Parse m)" for C u s ct lens m
    using assms by (intro map_result_no_parse) (simp add: extracts_salts_def)
  ultimately show ?thesis
    using assms
    by (auto simp: extracts_salts_def short_salt_parses_at_the_edge_and_fails_coded_at_derive_def parse_urn_def
        decrypt_def parse_salt_def split: sum.split resolve_error.split)
qed

end
