(* ===== verification/UrnLayers.thy ===== *)
theory UrnLayers
  imports ClientTests
begin

text \<open>
  The tests of the two URN layers (\<open>tests/urn_layer_contract.rs\<close>, \<open>tests/cross_parser_equivalence.rs\<close>):
  the edge parser of the crate, which peels a salt, against the canonical parser of
  \<open>dig_urn_protocol\<close>, which does not, and the legacy parser of \<open>digstore_core\<close>.  The three are
  parameters; \<open>parse_grammar\<close> is the grammar of section 2 of \<open>SPEC.md\<close>, and \<open>urn_layers\<close> and
  \<open>legacy_agrees\<close> say that the parsers accept exactly it and derive keys as section 3 documents, for
  some hash.  Each test is a predicate, and the frozen corpus is checked against the grammar row by row.
\<close>

section \<open>The grammar\<close>

record urn_parts =
  up_chain :: string
  up_store :: string
  up_root :: "string option"
  up_resource :: "string option"

definition hex_digits :: "string \<Rightarrow> bool" where
  "hex_digits s \<longleftrightarrow> list_all (\<lambda>c. is_hex_digit (ascii_lower c)) s"

definition id64 :: "string \<Rightarrow> bool" where
  "id64 s \<longleftrightarrow> length s = 64 \<and> hex_digits s"

text \<open>The resource is what follows the first slash; the segments before it are cut at the colons.\<close>

definition resource_of :: "string \<Rightarrow> string option" where
  "resource_of s = (case dropWhile (\<lambda>c. c \<noteq> CHR ''/'') s of [] \<Rightarrow> None | _ # r \<Rightarrow> Some r)"

fun read_segments :: "string option \<Rightarrow> string list \<Rightarrow> urn_parts option" where
  "read_segments res [chain, store] =
     (if chain \<noteq> [] \<and> id64 store
      then Some \<lparr>up_chain = chain, up_store = to_ascii_lowercase store, up_root = None, up_resource = res\<rparr>
      else None)"
| "read_segments res [chain, store, root] =
     (if chain \<noteq> [] \<and> id64 store \<and> id64 root
      then Some \<lparr>up_chain = chain, up_store = to_ascii_lowercase store, up_root = Some (to_ascii_lowercase root),
                 up_resource = res\<rparr>
      else None)"
| "read_segments res _ = None"

definition parse_grammar :: "string \<Rightarrow> urn_parts option" where
  "parse_grammar s =
     (if take 8 s \<noteq> ''urn:dig:'' then None
      else read_segments (resource_of (drop 8 s))
        (split_on CHR '':'' (takeWhile (\<lambda>c. c \<noteq> CHR ''/'') (drop 8 s))))"

definition canonical_text :: "urn_parts \<Rightarrow> string" where
  "canonical_text p =
     ''urn:dig:'' @ up_chain p @ '':'' @ up_store p @
     (case up_root p of Some root \<Rightarrow> '':'' @ root | None \<Rightarrow> []) @
     (case up_resource p of Some r \<Rightarrow> ''/'' @ r | None \<Rightarrow> [])"

definition effective_resource :: "string option \<Rightarrow> string" where
  "effective_resource res = (case res of Some k \<Rightarrow> if k = [] then ''index.html'' else k | None \<Rightarrow> ''index.html'')"

definition rootless_parts :: "urn_parts \<Rightarrow> urn_parts" where
  "rootless_parts p = p\<lparr>up_root := None, up_resource := Some (effective_resource (up_resource p))\<rparr>"

text \<open>What the grammar prints it reads back.\<close>

definition well_formed :: "urn_parts \<Rightarrow> bool" where
  "well_formed p \<longleftrightarrow>
     up_chain p \<noteq> [] \<and> CHR '':'' \<notin> set (up_chain p) \<and> CHR ''/'' \<notin> set (up_chain p) \<and> hex64 (up_store p) \<and>
     (case up_root p of Some root \<Rightarrow> hex64 root | None \<Rightarrow> True)"

lemma hex64_id64:
  assumes "hex64 s"
  shows "id64 s" and "to_ascii_lowercase s = s" and "CHR '':'' \<notin> set s" and "CHR ''/'' \<notin> set s"
proof -
  have lower: "ascii_lower c = c" and plain: "c \<noteq> CHR '':''" "c \<noteq> CHR ''/''" if "is_hex_digit c" for c
  proof -
    from that have "c \<in> set ''0123456789abcdef''" by (simp add: is_hex_digit_def)
    then show "ascii_lower c = c" "c \<noteq> CHR '':''" "c \<noteq> CHR ''/''" by (auto simp: ascii_lower_def)
  qed
  have all: "c \<in> set s \<Longrightarrow> is_hex_digit c" for c
    using assms by (simp add: hex64_def list_all_iff)
  show "id64 s"
    using assms all lower by (auto simp: hex64_def id64_def hex_digits_def list_all_iff)
  show "to_ascii_lowercase s = s"
    unfolding to_ascii_lowercase_def by (rule map_idI) (use all lower in blast)
  show "CHR '':'' \<notin> set s" "CHR ''/'' \<notin> set s" using all plain by blast+
qed

lemma parse_canonical_text:
  assumes "well_formed p"
  shows "parse_grammar (canonical_text p) = Some p"
proof -
  let ?segs = "up_chain p # up_store p # (case up_root p of Some root \<Rightarrow> [root] | None \<Rightarrow> [])"
  have store: "hex64 (up_store p)" using assms by (simp add: well_formed_def)
  have clean: "CHR '':'' \<notin> set x \<and> CHR ''/'' \<notin> set x" if "x \<in> set ?segs" for x
    using that assms hex64_id64(3,4) by (auto simp: well_formed_def split: option.splits)
  have slash: "CHR ''/'' \<notin> set (join '':'' ?segs)"
    using clean by (cases "up_root p") auto
  have text_is: "drop 8 (canonical_text p) = join '':'' ?segs @ (case up_resource p of Some r \<Rightarrow> CHR ''/'' # r | None \<Rightarrow> [])"
    by (simp add: canonical_text_def split: option.split)
  have "takeWhile (\<lambda>c. c \<noteq> CHR ''/'') (drop 8 (canonical_text p)) = join '':'' ?segs"
      "resource_of (drop 8 (canonical_text p)) = up_resource p"
    unfolding text_is resource_of_def using slash
    by (auto simp: takeWhile_append dropWhile_append takeWhile_eq_all_conv split: option.splits)
  moreover have "split_on CHR '':'' (join '':'' ?segs) = ?segs"
    by (rule split_on_join) (use clean in auto)
  moreover have "take 8 (canonical_text p) = ''urn:dig:''" by (simp add: canonical_text_def)
  moreover have "read_segments (up_resource p) ?segs = Some p"
    using assms hex64_id64(1,2) store by (cases "up_root p") (auto simp: well_formed_def)
  ultimately show ?thesis by (simp add: parse_grammar_def)
qed

text \<open>\<open>str::rsplit_once\<close>: what precedes and what follows the last occurrence of the pattern.\<close>

fun rsplit_once :: "string \<Rightarrow> string \<Rightarrow> (string \<times> string) option" where
  "rsplit_once pat [] = (if pat = [] then Some ([], []) else None)"
| "rsplit_once pat (c # s) =
     (case rsplit_once pat s of
        Some (a, b) \<Rightarrow> Some (c # a, b)
      | None \<Rightarrow> if take (length pat) (c # s) = pat then Some ([], drop (length pat) (c # s)) else None)"

section \<open>The frozen corpus\<close>

definition ones :: string where
  "ones = replicate 64 CHR ''1''"

definition twos :: string where
  "twos = replicate 64 CHR ''2''"

definition threes :: string where
  "threes = replicate 64 CHR ''3''"

definition zeros :: string where
  "zeros = replicate 64 CHR ''0''"

definition mixed_store :: string where
  "mixed_store = ''aabbccddeeff00112233445566778899aabbccddeeff00112233445566778899''"

definition mixed_root :: string where
  "mixed_root = ''00112233445566778899aabbccddeeff00112233445566778899aabbccddeeff''"

lemmas corpus_ids = ones_def twos_def threes_def zeros_def mixed_store_def mixed_root_def

record vector =
  v_name :: string
  v_input :: string
  v_chain :: string
  v_store_id_hex :: string
  v_root_hash_hex :: "string option"
  v_resource_key :: "string option"
  v_canonical :: string
  v_retrieval_key_hex :: string

definition corpus_valid :: "vector list" where
  "corpus_valid =
     [
      \<lparr>v_name = ''chia_full_root_and_resource'',
       v_input = ''urn:dig:chia:'' @ ones @ '':'' @ twos @ ''/index.html'',
       v_chain = ''chia'', v_store_id_hex = ones, v_root_hash_hex = Some twos,
       v_resource_key = Some ''index.html'',
       v_canonical = ''urn:dig:chia:'' @ ones @ '':'' @ twos @ ''/index.html'',
       v_retrieval_key_hex =
         ''a88a198620bd31bc68371024a945d86e7a1301bce1c13da4461929009ac84509''\<rparr>,
      \<lparr>v_name = ''chia_store_only_bare'',
       v_input = ''urn:dig:chia:'' @ ones,
       v_chain = ''chia'', v_store_id_hex = ones, v_root_hash_hex = None,
       v_resource_key = None,
       v_canonical = ''urn:dig:chia:'' @ ones,
       v_retrieval_key_hex =
         ''d1c35e6b574b8ae71e8e3e1bb85f5af665bc682f359ea68c016f12841b1f8ebc''\<rparr>,
      \<lparr>v_name = ''chia_store_and_resource_no_root'',
       v_input = ''urn:dig:chia:'' @ ones @ ''/path/to/file.txt'',
       v_chain = ''chia'', v_store_id_hex = ones, v_root_hash_hex = None,
       v_resource_key = Some ''path/to/file.txt'',
       v_canonical = ''urn:dig:chia:'' @ ones @ ''/path/to/file.txt'',
       v_retrieval_key_hex =
         ''c9a8a1c64d15abf5941f2686096ac01aff236885257721753615a6e45794c1c2''\<rparr>,
      \<lparr>v_name = ''chia_root_no_resource'',
       v_input = ''urn:dig:chia:'' @ mixed_store @ '':'' @ mixed_root,
       v_chain = ''chia'', v_store_id_hex = mixed_store, v_root_hash_hex = Some mixed_root,
       v_resource_key = None,
       v_canonical = ''urn:dig:chia:'' @ mixed_store @ '':'' @ mixed_root,
       v_retrieval_key_hex =
         ''66c0a836947b882ef884303869475de3880304f41b7ed8d53e804329de27aaff''\<rparr>,
      \<lparr>v_name = ''chia_trailing_slash_empty_resource'',
       v_input = ''urn:dig:chia:'' @ ones @ ''/'',
       v_chain = ''chia'', v_store_id_hex = ones, v_root_hash_hex = None,
       v_resource_key = Some [],
       v_canonical = ''urn:dig:chia:'' @ ones @ ''/'',
       v_retrieval_key_hex =
         ''c823ef34b49b832ccb9480bfdb372b79e4db30b393652c80159c01c8a80378c6''\<rparr>,
      \<lparr>v_name = ''chia_nested_resource_path'',
       v_input = ''urn:dig:chia:'' @ zeros @ '':'' @ zeros @ ''/a/b/c.json'',
       v_chain = ''chia'', v_store_id_hex = zeros, v_root_hash_hex = Some zeros,
       v_resource_key = Some ''a/b/c.json'',
       v_canonical = ''urn:dig:chia:'' @ zeros @ '':'' @ zeros @ ''/a/b/c.json'',
       v_retrieval_key_hex =
         ''f45b84e9f6565619fe26a79dab5c07e7bafd05bf42e091b8a0ae598a6f92018c''\<rparr>,
      \<lparr>v_name = ''mainnet_label_accepted'',
       v_input = ''urn:dig:mainnet:'' @ ones @ ''/a'',
       v_chain = ''mainnet'', v_store_id_hex = ones, v_root_hash_hex = None,
       v_resource_key = Some ''a'',
       v_canonical = ''urn:dig:mainnet:'' @ ones @ ''/a'',
       v_retrieval_key_hex =
         ''f6f722f205556a18074303ca06412e009ef2d9560bc627a7cc4d9738b30f265e''\<rparr>,
      \<lparr>v_name = ''testnet_label_bare_store'',
       v_input = ''urn:dig:testnet:'' @ ones,
       v_chain = ''testnet'', v_store_id_hex = ones, v_root_hash_hex = None,
       v_resource_key = None,
       v_canonical = ''urn:dig:testnet:'' @ ones,
       v_retrieval_key_hex =
         ''b93e988ac08eae8196ff1bff0c1b50e54770e96c0207b8451d096ff3cb7d1287''\<rparr>,
      \<lparr>v_name = ''query_suffix_is_part_of_resource_not_salt'',
       v_input = ''urn:dig:chia:'' @ ones @ ''/index.html?salt=deadbeef'',
       v_chain = ''chia'', v_store_id_hex = ones, v_root_hash_hex = None,
       v_resource_key = Some ''index.html?salt=deadbeef'',
       v_canonical = ''urn:dig:chia:'' @ ones @ ''/index.html?salt=deadbeef'',
       v_retrieval_key_hex =
         ''719c09f09c793650fd225ca545670f4329b28b8038d527d0c61f001badcd4fa6''\<rparr>]"

definition corpus_invalid :: "(string \<times> string) list" where
  "corpus_invalid =
     [
      (''wrong_scheme_other'', ''urn:other:chia:00''),
      (''not_a_urn'', ''not-a-urn''),
      (''missing_store_id'', ''urn:dig:chia''),
      (''empty_chain'', ''urn:dig::'' @ ones),
      (''store_id_not_hex'', ''urn:dig:chia:zzzz''),
      (''store_id_too_short'', ''urn:dig:chia:1111''),
      (''root_hash_not_hex'', ''urn:dig:chia:'' @ ones @ '':zz''),
      (''too_many_colon_segments'', ''urn:dig:chia:'' @ ones @ '':'' @ twos @ '':'' @ threes),
      (''missing_prefix_dig'', ''dig:chia:'' @ ones)]"

definition vector_parts :: "vector \<Rightarrow> urn_parts" where
  "vector_parts v =
     \<lparr>up_chain = v_chain v, up_store = v_store_id_hex v, up_root = v_root_hash_hex v, up_resource = v_resource_key v\<rparr>"

text \<open>The corpus is what the grammar says: its columns are the parts of its inputs.\<close>

lemma corpus_rows:
  assumes "v \<in> set corpus_valid"
  shows "parse_grammar (v_input v) = Some (vector_parts v)" and "canonical_text (vector_parts v) = v_canonical v"
    and "trim (v_input v) = v_input v"
proof -
  have "list_all (\<lambda>v. parse_grammar (v_input v) = Some (vector_parts v) \<and> canonical_text (vector_parts v) = v_canonical v \<and>
      trim (v_input v) = v_input v) corpus_valid"
    by code_simp
  with assms show "parse_grammar (v_input v) = Some (vector_parts v)" "canonical_text (vector_parts v) = v_canonical v"
      "trim (v_input v) = v_input v"
    by (simp_all add: list_all_iff)
qed

lemma corpus_refused:
  assumes "(name, s) \<in> set corpus_invalid"
  shows "parse_grammar s = None" and "trim s = s" and "rsplit_once ''?salt='' s = None"
proof -
  have "list_all (\<lambda>(name, s). parse_grammar s = None \<and> trim s = s \<and> rsplit_once ''?salt='' s = None) corpus_invalid"
    by code_simp
  with assms show "parse_grammar s = None" "trim s = s" "rsplit_once ''?salt='' s = None"
    by (auto simp: list_all_iff)
qed

section \<open>The parsers\<close>

text \<open>What the tests call of \<open>dig_urn_protocol::DigUrn\<close> beyond what the crate itself does.\<close>

record 'u dig_urn_api =
  dg_parse :: "string \<Rightarrow> string + 'u"
  dg_chain :: "'u \<Rightarrow> string"
  dg_resource_key :: "'u \<Rightarrow> string option"
  dg_retrieval_key_hex :: "'u \<Rightarrow> string"

definition denotes :: "('u, 'm) crates \<Rightarrow> 'u dig_urn_api \<Rightarrow> (string \<Rightarrow> string) \<Rightarrow> 'u \<Rightarrow> urn_parts \<Rightarrow> bool" where
  "denotes K D hash u p \<longleftrightarrow>
     dg_chain D u = up_chain p \<and> du_store_id_hex K u = up_store p \<and> du_root_hex K u = up_root p \<and>
     dg_resource_key D u = up_resource p \<and> du_effective_resource_key K u = effective_resource (up_resource p) \<and>
     du_canonical K u = canonical_text p \<and> dg_retrieval_key_hex D u = hash (canonical_text p) \<and>
     du_content_key_hex K u = hash (canonical_text (rootless_parts p))"

definition unsalted :: "string + 'u \<Rightarrow> string option \<Rightarrow> string + 'u \<times> string option" where
  "unsalted r sl = (case r of Inl e \<Rightarrow> Inl e | Inr u \<Rightarrow> Inr (u, sl))"

text \<open>
  Section 2.1 of \<open>SPEC.md\<close>: the canonical layer reads the grammar and nothing else, and the edge layer
  peels a run of hex digits after the last \<open>?salt=\<close> and hands the rest to the canonical one.
\<close>

definition urn_layers :: "('u, 'm) crates \<Rightarrow> 'u dig_urn_api \<Rightarrow> (string \<Rightarrow> string) \<Rightarrow> bool" where
  "urn_layers K D hash \<longleftrightarrow>
     (\<forall>s. trim s = s \<longrightarrow>
        (case parse_grammar s of
           None \<Rightarrow> \<exists>e. dg_parse D s = Inl e
         | Some p \<Rightarrow> \<exists>u. dg_parse D s = Inr u \<and> denotes K D hash u p)) \<and>
     (\<forall>s. trim s = s \<longrightarrow>
        (case rsplit_once ''?salt='' s of
           None \<Rightarrow> du_parse_with_salt K s = unsalted (dg_parse D s) None
         | Some (head, sl) \<Rightarrow> sl \<noteq> [] \<and> list_all is_hex_digit sl \<longrightarrow>
             du_parse_with_salt K s = unsalted (dg_parse D head) (Some sl)))"

lemma canonical_layer:
  assumes "urn_layers K D hash" and "trim s = s"
  shows "case parse_grammar s of
      None \<Rightarrow> \<exists>e. dg_parse D s = Inl e
    | Some p \<Rightarrow> \<exists>u. dg_parse D s = Inr u \<and> denotes K D hash u p"
  using assms unfolding urn_layers_def by blast

lemma canonical_reads:
  assumes "urn_layers K D hash" and "trim s = s" and "parse_grammar s = Some p"
  shows "\<exists>u. dg_parse D s = Inr u \<and> denotes K D hash u p"
  using canonical_layer [OF assms(1,2)] by (simp add: assms(3))

lemma canonical_refuses:
  assumes "urn_layers K D hash" and "trim s = s" and "parse_grammar s = None"
  shows "\<exists>e. dg_parse D s = Inl e"
  using canonical_layer [OF assms(1,2)] by (simp add: assms(3))

lemma edge_layer:
  assumes "urn_layers K D hash" and "trim s = s"
  shows "case rsplit_once ''?salt='' s of
      None \<Rightarrow> du_parse_with_salt K s = unsalted (dg_parse D s) None
    | Some (head, sl) \<Rightarrow> sl \<noteq> [] \<and> list_all is_hex_digit sl \<longrightarrow>
        du_parse_with_salt K s = unsalted (dg_parse D head) (Some sl)"
  using assms unfolding urn_layers_def by blast

lemma edge_reads_plain:
  assumes "urn_layers K D hash" and "trim s = s" and "rsplit_once ''?salt='' s = None"
  shows "parse_urn K s = (case dg_parse D s of Inl e \<Rightarrow> Inl (Parse e) | Inr u \<Rightarrow> Inr \<lparr>urn = u, salt = None\<rparr>)"
  using edge_layer [OF assms(1,2)] by (simp add: assms(3) parse_urn_def unsalted_def split: sum.split)

lemma edge_reads_salted:
  assumes "urn_layers K D hash" and "trim s = s" and "rsplit_once ''?salt='' s = Some (head, sl)"
    and "sl \<noteq> []" and "list_all is_hex_digit sl"
  shows "parse_urn K s = (case dg_parse D head of Inl e \<Rightarrow> Inl (Parse e) | Inr u \<Rightarrow> Inr \<lparr>urn = u, salt = Some sl\<rparr>)"
  using edge_layer [OF assms(1,2)] by (simp add: assms(3-5) parse_urn_def unsalted_def split: sum.split)

text \<open>
  The wire key of the crate: whatever URN the grammar accepts, with a salt or without, the edge parser
  reads the parts before the salt and asks for the hash of their canonical rootless form.
\<close>

definition peeled :: "string \<Rightarrow> string \<times> string option" where
  "peeled s = (case rsplit_once ''?salt='' s of None \<Rightarrow> (s, None) | Some (head, sl) \<Rightarrow> (head, Some sl))"

definition peels_cleanly :: "string \<Rightarrow> bool" where
  "peels_cleanly s \<longleftrightarrow> trim s = s \<and> trim (fst (peeled s)) = fst (peeled s) \<and>
     (case snd (peeled s) of None \<Rightarrow> True | Some sl \<Rightarrow> sl \<noteq> [] \<and> list_all is_hex_digit sl)"

lemma edge_wire_key:
  assumes "urn_layers K D hash" and "peels_cleanly s" and "parse_grammar (fst (peeled s)) = Some p"
  obtains q where "parse_urn K s = Inr q" and "salt q = snd (peeled s)" and "denotes K D hash (urn q) p"
    and "retrieval_key_hex K q = hash (canonical_text (rootless_parts p))"
proof -
  have clean: "trim s = s" "trim (fst (peeled s)) = fst (peeled s)" using assms(2) by (simp_all add: peels_cleanly_def)
  obtain u where u: "dg_parse D (fst (peeled s)) = Inr u" "denotes K D hash u p"
    using canonical_reads [OF assms(1) clean(2) assms(3)] by blast
  have "parse_urn K s = Inr \<lparr>urn = u, salt = snd (peeled s)\<rparr>"
  proof (cases "rsplit_once ''?salt='' s")
    case None
    with u edge_reads_plain [OF assms(1) clean(1) None] show ?thesis by (simp add: peeled_def)
  next
    case (Some q)
    then obtain head sl where q: "rsplit_once ''?salt='' s = Some (head, sl)" by (cases q) simp
    with assms(2) have "sl \<noteq> []" "list_all is_hex_digit sl" by (simp_all add: peels_cleanly_def peeled_def)
    with u q edge_reads_salted [OF assms(1) clean(1) q] show ?thesis by (simp add: peeled_def)
  qed
  with u(2) show ?thesis
    by (intro that [of "\<lparr>urn = u, salt = snd (peeled s)\<rparr>"]) (simp_all add: retrieval_key_hex_def denotes_def)
qed

text \<open>\<open>digstore_core::Urn\<close>: a struct the test takes apart and builds again, and what it calls of it.\<close>

record 'b legacy_urn =
  lu_chain :: string
  lu_store_id :: 'b
  lu_root_hash :: "'b option"
  lu_resource_key :: "string option"

record 'b legacy_api =
  lg_parse :: "string \<Rightarrow> 'b legacy_urn option"
  lg_hex :: "'b \<Rightarrow> string"
  lg_retrieval_key_hex :: "'b legacy_urn \<Rightarrow> string"
  lg_default_resource_key :: string

definition legacy_parts :: "'b legacy_api \<Rightarrow> 'b legacy_urn \<Rightarrow> urn_parts" where
  "legacy_parts L u =
     \<lparr>up_chain = lu_chain u, up_store = lg_hex L (lu_store_id u), up_root = map_option (lg_hex L) (lu_root_hash u),
      up_resource = lu_resource_key u\<rparr>"

definition legacy_agrees :: "'b legacy_api \<Rightarrow> (string \<Rightarrow> string) \<Rightarrow> bool" where
  "legacy_agrees L hash \<longleftrightarrow>
     lg_default_resource_key L = ''index.html'' \<and>
     (\<forall>s p. trim s = s \<and> parse_grammar s = Some p \<longrightarrow> (\<exists>u. lg_parse L s = Some u \<and> legacy_parts L u = p)) \<and>
     (\<forall>u. lg_retrieval_key_hex L u = hash (canonical_text (legacy_parts L u)))"

text \<open>The oracle of the test; \<open>None\<close> is its panic.\<close>

definition digstore_rootless_key :: "'b legacy_api \<Rightarrow> string \<Rightarrow> string option" where
  "digstore_rootless_key L input =
     (let core_part = (case rsplit_once ''?salt='' (trim input) of Some (head, _) \<Rightarrow> head | None \<Rightarrow> trim input)
      in case lg_parse L core_part of
           None \<Rightarrow> None
         | Some u \<Rightarrow>
             (let eff = (case lu_resource_key u of
                    Some k \<Rightarrow> if k \<noteq> [] then k else lg_default_resource_key L
                  | None \<Rightarrow> lg_default_resource_key L)
              in Some (lg_retrieval_key_hex L (u\<lparr>lu_root_hash := None, lu_resource_key := Some eff\<rparr>))))"

lemma oracle_key:
  assumes "legacy_agrees L hash" and "peels_cleanly s" and "parse_grammar (fst (peeled s)) = Some p"
  shows "digstore_rootless_key L s = Some (hash (canonical_text (rootless_parts p)))"
proof -
  have clean: "trim s = s" "trim (fst (peeled s)) = fst (peeled s)" using assms(2) by (simp_all add: peels_cleanly_def)
  have core: "(case rsplit_once ''?salt='' (trim s) of Some (head, _) \<Rightarrow> head | None \<Rightarrow> trim s) = fst (peeled s)"
    by (simp add: clean(1) peeled_def split: option.split)
  obtain u where u: "lg_parse L (fst (peeled s)) = Some u" "legacy_parts L u = p"
    using assms(1,3) clean(2) unfolding legacy_agrees_def by blast
  have key: "lg_retrieval_key_hex L v = hash (canonical_text (legacy_parts L v))" for v
    using assms(1) by (simp add: legacy_agrees_def)
  have "lg_default_resource_key L = ''index.html''" using assms(1) by (simp add: legacy_agrees_def)
  then show ?thesis
    using u(2) unfolding digstore_rootless_key_def core u(1) Let_def key
    by (auto simp: legacy_parts_def rootless_parts_def effective_resource_def split: option.split)
qed

section \<open>The tests over the corpus\<close>

definition canonical_layer_reproduces_every_frozen_column :: "('u, 'm) crates \<Rightarrow> 'u dig_urn_api \<Rightarrow> bool" where
  "canonical_layer_reproduces_every_frozen_column K D \<longleftrightarrow>
     length corpus_valid = 9 \<and>
     list_all (\<lambda>v.
       case dg_parse D (v_input v) of
         Inl _ \<Rightarrow> False
       | Inr u \<Rightarrow>
           dg_chain D u = v_chain v \<and> du_store_id_hex K u = v_store_id_hex v \<and>
           du_root_hex K u = v_root_hash_hex v \<and> dg_resource_key D u = v_resource_key v \<and>
           du_canonical K u = v_canonical v \<and> dg_retrieval_key_hex D u = v_retrieval_key_hex v) corpus_valid"

definition both_layers_reject_every_invalid_vector :: "('u, 'm) crates \<Rightarrow> 'u dig_urn_api \<Rightarrow> bool" where
  "both_layers_reject_every_invalid_vector K D \<longleftrightarrow>
     length corpus_invalid = 9 \<and>
     list_all (\<lambda>(name, s). isl (dg_parse D s) \<and> isl (parse_urn K s)) corpus_invalid"

definition resolver_key_matches_both_parsers_across_frozen_corpus :: "('u, 'm) crates \<Rightarrow> 'b legacy_api \<Rightarrow> bool" where
  "resolver_key_matches_both_parsers_across_frozen_corpus K L \<longleftrightarrow>
     corpus_valid \<noteq> [] \<and>
     list_all (\<lambda>v.
       case (parse_urn K (v_input v), du_parse_with_salt K (v_input v)) of
         (Inr p, Inr (u, _)) \<Rightarrow>
           retrieval_key_hex K p = du_content_key_hex K u \<and>
           digstore_rootless_key L (v_input v) = Some (retrieval_key_hex K p)
       | _ \<Rightarrow> False) corpus_valid"

definition root_pinned_urns_prove_content_key_not_retrieval_key :: "('u, 'm) crates \<Rightarrow> 'u dig_urn_api \<Rightarrow> bool" where
  "root_pinned_urns_prove_content_key_not_retrieval_key K D \<longleftrightarrow>
     (let pinned = filter (\<lambda>v. v_root_hash_hex v \<noteq> None) corpus_valid
      in 1 \<le> length pinned \<and>
         list_all (\<lambda>v.
           case (dg_parse D (v_input v), parse_urn K (v_input v)) of
             (Inr u, Inr p) \<Rightarrow>
               du_content_key_hex K u \<noteq> dg_retrieval_key_hex D u \<and>
               retrieval_key_hex K p = du_content_key_hex K u \<and>
               retrieval_key_hex K p \<noteq> dg_retrieval_key_hex D u
           | _ \<Rightarrow> False) pinned)"

text \<open>The frozen keys are digests of the canonical column, and no two texts of the tests collide.\<close>

definition frozen_digests :: "(string \<Rightarrow> string) \<Rightarrow> bool" where
  "frozen_digests hash \<longleftrightarrow> list_all (\<lambda>v. hash (v_canonical v) = v_retrieval_key_hex v) corpus_valid"

definition plain_urn :: "string \<Rightarrow> string" where
  "plain_urn res = ''urn:dig:chia:'' @ test_store @ res"

definition layer_texts :: "string list" where
  "layer_texts =
     concat (map (\<lambda>v. [v_canonical v, canonical_text (rootless_parts (vector_parts v))]) corpus_valid) @
     [plain_urn ''/index.html'', plain_urn ''/other.html'', salted ''deadbeef'']"

definition separates :: "(string \<Rightarrow> string) \<Rightarrow> bool" where
  "separates hash \<longleftrightarrow> inj_on hash (set layer_texts)"

lemma separate_texts:
  assumes "separates hash" and "x \<in> set layer_texts" and "y \<in> set layer_texts" and "x \<noteq> y"
  shows "hash x \<noteq> hash y"
  using assms unfolding separates_def inj_on_def by blast

lemma corpus_texts:
  assumes "v \<in> set corpus_valid"
  shows "v_canonical v \<in> set layer_texts" and "canonical_text (rootless_parts (vector_parts v)) \<in> set layer_texts"
  using assms by (force simp: layer_texts_def)+

lemma canonical_layer_reproduces_every_frozen_column_passes:
  assumes "urn_layers K D hash" and "frozen_digests hash"
  shows "canonical_layer_reproduces_every_frozen_column K D"
proof -
  have "case dg_parse D (v_input v) of
         Inl _ \<Rightarrow> False
       | Inr u \<Rightarrow>
           dg_chain D u = v_chain v \<and> du_store_id_hex K u = v_store_id_hex v \<and>
           du_root_hex K u = v_root_hash_hex v \<and> dg_resource_key D u = v_resource_key v \<and>
           du_canonical K u = v_canonical v \<and> dg_retrieval_key_hex D u = v_retrieval_key_hex v"
    if v: "v \<in> set corpus_valid" for v
  proof -
    have "hash (v_canonical v) = v_retrieval_key_hex v" using assms(2) v by (simp add: frozen_digests_def list_all_iff)
    with canonical_reads [OF assms(1) corpus_rows(3,1) [OF v]] show ?thesis
      by (auto simp: denotes_def corpus_rows(2) [OF v]) (simp_all add: vector_parts_def)
  qed
  moreover have "length corpus_valid = 9" by (simp add: corpus_valid_def)
  ultimately show ?thesis by (simp add: canonical_layer_reproduces_every_frozen_column_def list_all_iff)
qed

lemma both_layers_reject_every_invalid_vector_passes:
  assumes "urn_layers K D hash"
  shows "both_layers_reject_every_invalid_vector K D"
proof -
  have "isl (dg_parse D s) \<and> isl (parse_urn K s)" if "(name, s) \<in> set corpus_invalid" for name s
    using canonical_refuses [OF assms corpus_refused(2,1) [OF that]]
      edge_reads_plain [OF assms corpus_refused(2,3) [OF that]] by auto
  moreover have "length corpus_invalid = 9" by (simp add: corpus_invalid_def)
  ultimately show ?thesis by (auto simp: both_layers_reject_every_invalid_vector_def list_all_iff)
qed

lemma corpus_peels:
  assumes "v \<in> set corpus_valid"
  shows "peels_cleanly (v_input v)" and "\<exists>p. parse_grammar (fst (peeled (v_input v))) = Some p"
proof -
  have "list_all (\<lambda>v. peels_cleanly (v_input v) \<and> parse_grammar (fst (peeled (v_input v))) \<noteq> None) corpus_valid"
    by code_simp
  with assms show "peels_cleanly (v_input v)" "\<exists>p. parse_grammar (fst (peeled (v_input v))) = Some p"
    by (auto simp: list_all_iff)
qed

lemma parse_urn_fields:
  "parse_urn K s = Inr q \<longleftrightarrow> du_parse_with_salt K s = Inr (urn q, salt q)"
  by (cases q) (auto simp: parse_urn_def split: sum.splits)

lemma resolver_key_matches_both_parsers_across_frozen_corpus_passes:
  assumes "urn_layers K D hash" and "legacy_agrees L hash"
  shows "resolver_key_matches_both_parsers_across_frozen_corpus K L"
proof -
  have "case (parse_urn K (v_input v), du_parse_with_salt K (v_input v)) of
         (Inr p, Inr (u, _)) \<Rightarrow>
           retrieval_key_hex K p = du_content_key_hex K u \<and>
           digstore_rootless_key L (v_input v) = Some (retrieval_key_hex K p)
       | _ \<Rightarrow> False"
    if v: "v \<in> set corpus_valid" for v
  proof -
    obtain p where p: "parse_grammar (fst (peeled (v_input v))) = Some p" using corpus_peels(2) [OF v] by blast
    note args = corpus_peels(1) [OF v] p
    obtain q where q: "parse_urn K (v_input v) = Inr q" "retrieval_key_hex K q = hash (canonical_text (rootless_parts p))"
      using edge_wire_key [OF assms(1) args] by blast
    from q(1) have "du_parse_with_salt K (v_input v) = Inr (urn q, salt q)" by (simp add: parse_urn_fields)
    with q oracle_key [OF assms(2) args] show ?thesis by (simp add: retrieval_key_hex_def)
  qed
  moreover have "corpus_valid \<noteq> []" by (simp add: corpus_valid_def)
  ultimately show ?thesis
    unfolding resolver_key_matches_both_parsers_across_frozen_corpus_def list_all_iff by blast
qed

lemma pinned_rows:
  assumes "v \<in> set corpus_valid" and "v_root_hash_hex v \<noteq> None"
  shows "rsplit_once ''?salt='' (v_input v) = None"
    and "canonical_text (rootless_parts (vector_parts v)) \<noteq> v_canonical v"
proof -
  have "list_all (\<lambda>v. v_root_hash_hex v \<noteq> None \<longrightarrow> rsplit_once ''?salt='' (v_input v) = None \<and>
      canonical_text (rootless_parts (vector_parts v)) \<noteq> v_canonical v) corpus_valid"
    by code_simp
  with assms show "rsplit_once ''?salt='' (v_input v) = None"
      "canonical_text (rootless_parts (vector_parts v)) \<noteq> v_canonical v"
    by (auto simp: list_all_iff)
qed

lemma root_pinned_urns_prove_content_key_not_retrieval_key_passes:
  assumes "urn_layers K D hash" and "separates hash"
  shows "root_pinned_urns_prove_content_key_not_retrieval_key K D"
proof -
  have "case (dg_parse D (v_input v), parse_urn K (v_input v)) of
             (Inr u, Inr p) \<Rightarrow>
               du_content_key_hex K u \<noteq> dg_retrieval_key_hex D u \<and>
               retrieval_key_hex K p = du_content_key_hex K u \<and>
               retrieval_key_hex K p \<noteq> dg_retrieval_key_hex D u
           | _ \<Rightarrow> False"
    if v: "v \<in> set corpus_valid" and root: "v_root_hash_hex v \<noteq> None" for v
  proof -
    obtain u where u: "dg_parse D (v_input v) = Inr u" "denotes K D hash u (vector_parts v)"
      using canonical_reads [OF assms(1) corpus_rows(3,1) [OF v]] by blast
    have "hash (canonical_text (rootless_parts (vector_parts v))) \<noteq> hash (v_canonical v)"
      by (rule separate_texts [OF assms(2) corpus_texts(2,1) [OF v] pinned_rows(2) [OF v root]])
    then have "du_content_key_hex K u \<noteq> dg_retrieval_key_hex D u"
      using u(2) by (simp add: denotes_def corpus_rows(2) [OF v])
    with u(1) edge_reads_plain [OF assms(1) corpus_rows(3) [OF v] pinned_rows(1) [OF v root]] show ?thesis
      by (simp add: retrieval_key_hex_def)
  qed
  moreover have "1 \<le> length (filter (\<lambda>v. v_root_hash_hex v \<noteq> None) corpus_valid)" by (simp add: corpus_valid_def)
  ultimately show ?thesis
    unfolding root_pinned_urns_prove_content_key_not_retrieval_key_def list_all_iff Let_def by simp
qed

section \<open>The layer boundary\<close>

text \<open>The tests whose last line says what a panic would be: a parse that fails fails the test.\<close>

definition edge_layer_peels_salt_and_canonical_layer_does_not :: "('u, 'm) crates \<Rightarrow> 'u dig_urn_api \<Rightarrow> bool" where
  "edge_layer_peels_salt_and_canonical_layer_does_not K D \<longleftrightarrow>
     (case (dg_parse D (salted ''deadbeef''), parse_urn K (salted ''deadbeef'')) of
        (Inr canonical, Inr edge) \<Rightarrow>
          dg_resource_key D canonical = Some ''index.html?salt=deadbeef'' \<and>
          salt edge = Some ''deadbeef'' \<and> resource_key K edge = ''index.html'' \<and>
          retrieval_key_hex K edge \<noteq> du_content_key_hex K canonical
      | _ \<Rightarrow> False) \<and>
     (case (parse_urn K (plain_urn ''/index.html''), dg_parse D (plain_urn ''/index.html'')) of
        (Inr edge, Inr canonical) \<Rightarrow> retrieval_key_hex K edge = du_content_key_hex K canonical
      | _ \<Rightarrow> False)"

definition chain_urn :: "string \<Rightarrow> string" where
  "chain_urn chain = ''urn:dig:'' @ chain @ '':'' @ test_store @ ''/a''"

definition non_canonical_chain_labels_stay_accepted_but_an_empty_one_does_not ::
    "('u, 'm) crates \<Rightarrow> 'u dig_urn_api \<Rightarrow> bool" where
  "non_canonical_chain_labels_stay_accepted_but_an_empty_one_does_not K D \<longleftrightarrow>
     list_all (\<lambda>chain. case parse_urn K (chain_urn chain) of Inr p \<Rightarrow> dg_chain D (urn p) = chain | Inl _ \<Rightarrow> False)
       [''chia'', ''mainnet'', ''testnet''] \<and>
     isl (parse_urn K (chain_urn []))"

definition absent_and_empty_resources_both_resolve_to_the_default_view :: "('u, 'm) crates \<Rightarrow> bool" where
  "absent_and_empty_resources_both_resolve_to_the_default_view K \<longleftrightarrow>
     (case (parse_urn K (plain_urn []), parse_urn K (plain_urn ''/''), parse_urn K (plain_urn ''/other.html'')) of
        (Inr bare, Inr slash, Inr named) \<Rightarrow>
          resource_key K bare = ''index.html'' \<and> resource_key K slash = ''index.html'' \<and>
          retrieval_key_hex K bare = retrieval_key_hex K slash \<and>
          retrieval_key_hex K bare \<noteq> retrieval_key_hex K named
      | _ \<Rightarrow> False)"

definition at_store :: "string \<Rightarrow> string option \<Rightarrow> urn_parts" where
  "at_store chain res = \<lparr>up_chain = chain, up_store = test_store, up_root = None, up_resource = res\<rparr>"

lemma test_urns_read:
  "peels_cleanly (plain_urn []) \<and> peeled (plain_urn []) = (plain_urn [], None) \<and>
     parse_grammar (plain_urn []) = Some (at_store ''chia'' None)"
  "peels_cleanly (plain_urn ''/'') \<and> peeled (plain_urn ''/'') = (plain_urn ''/'', None) \<and>
     parse_grammar (plain_urn ''/'') = Some (at_store ''chia'' (Some []))"
  "peels_cleanly (plain_urn ''/index.html'') \<and> peeled (plain_urn ''/index.html'') = (plain_urn ''/index.html'', None) \<and>
     parse_grammar (plain_urn ''/index.html'') = Some (at_store ''chia'' (Some ''index.html''))"
  "peels_cleanly (plain_urn ''/other.html'') \<and> peeled (plain_urn ''/other.html'') = (plain_urn ''/other.html'', None) \<and>
     parse_grammar (plain_urn ''/other.html'') = Some (at_store ''chia'' (Some ''other.html''))"
  "peels_cleanly (salted ''deadbeef'') \<and> peeled (salted ''deadbeef'') = (plain_urn ''/index.html'', Some ''deadbeef'') \<and>
     parse_grammar (salted ''deadbeef'') = Some (at_store ''chia'' (Some ''index.html?salt=deadbeef''))"
  by code_simp+

lemma chain_urns_read:
  "\<forall>chain \<in> {''chia'', ''mainnet'', ''testnet''}. peels_cleanly (chain_urn chain) \<and>
     peeled (chain_urn chain) = (chain_urn chain, None) \<and>
     parse_grammar (chain_urn chain) = Some (at_store chain (Some ''a''))"
  "trim (chain_urn []) = chain_urn []" "rsplit_once ''?salt='' (chain_urn []) = None" "parse_grammar (chain_urn []) = None"
  by code_simp+

lemma edge_reads_test:
  assumes "urn_layers K D hash"
    and "peels_cleanly s \<and> peeled s = (head, sl) \<and> P" and "parse_grammar head = Some p"
  shows "\<exists>q. parse_urn K s = Inr q \<and> salt q = sl \<and> denotes K D hash (urn q) p \<and>
    retrieval_key_hex K q = hash (canonical_text (rootless_parts p))"
proof -
  have "peels_cleanly s" "parse_grammar (fst (peeled s)) = Some p" "snd (peeled s) = sl" using assms(2,3) by simp_all
  with edge_wire_key [OF assms(1)] show ?thesis by metis
qed

lemma canonical_texts:
  "canonical_text (rootless_parts (at_store ''chia'' None)) = plain_urn ''/index.html''"
  "canonical_text (rootless_parts (at_store ''chia'' (Some []))) = plain_urn ''/index.html''"
  "canonical_text (rootless_parts (at_store ''chia'' (Some ''index.html''))) = plain_urn ''/index.html''"
  "canonical_text (rootless_parts (at_store ''chia'' (Some ''other.html''))) = plain_urn ''/other.html''"
  "canonical_text (rootless_parts (at_store ''chia'' (Some ''index.html?salt=deadbeef''))) = salted ''deadbeef''"
  by (simp_all add: canonical_text_def rootless_parts_def at_store_def effective_resource_def plain_urn_def salted_def)

lemma texts_apart:
  assumes "separates hash"
  shows "hash (plain_urn ''/index.html'') \<noteq> hash (salted ''deadbeef'')"
    and "hash (plain_urn ''/index.html'') \<noteq> hash (plain_urn ''/other.html'')"
  by (rule separate_texts [OF assms]; simp add: layer_texts_def plain_urn_def salted_def)+

lemma edge_layer_peels_salt_and_canonical_layer_does_not_passes:
  assumes "urn_layers K D hash" and "separates hash"
  shows "edge_layer_peels_salt_and_canonical_layer_does_not K D"
proof -
  note cut = test_urns_read(5) and index = test_urns_read(3)
  obtain e where e: "parse_urn K (salted ''deadbeef'') = Inr e" "salt e = Some ''deadbeef''"
      "denotes K D hash (urn e) (at_store ''chia'' (Some ''index.html''))" "retrieval_key_hex K e = hash (plain_urn ''/index.html'')"
    using edge_reads_test [OF assms(1) cut] index canonical_texts(3) by auto
  obtain c where c: "dg_parse D (salted ''deadbeef'') = Inr c"
      "denotes K D hash c (at_store ''chia'' (Some ''index.html?salt=deadbeef''))"
    using canonical_reads [OF assms(1)] cut unfolding peels_cleanly_def by blast
  obtain e' where e': "parse_urn K (plain_urn ''/index.html'') = Inr e'" "retrieval_key_hex K e' = hash (plain_urn ''/index.html'')"
    using edge_reads_test [OF assms(1) index] index canonical_texts(3) by auto
  obtain c' where c': "dg_parse D (plain_urn ''/index.html'') = Inr c'"
      "denotes K D hash c' (at_store ''chia'' (Some ''index.html''))"
    using canonical_reads [OF assms(1)] index unfolding peels_cleanly_def by blast
  show ?thesis
    using texts_apart(1) [OF assms(2)] e c e' c' canonical_texts
    by (simp add: edge_layer_peels_salt_and_canonical_layer_does_not_def denotes_def resource_key_def)
      (simp add: at_store_def effective_resource_def)
qed

lemma non_canonical_chain_labels_stay_accepted_but_an_empty_one_does_not_passes:
  assumes "urn_layers K D hash"
  shows "non_canonical_chain_labels_stay_accepted_but_an_empty_one_does_not K D"
proof -
  have "case parse_urn K (chain_urn chain) of Inr p \<Rightarrow> dg_chain D (urn p) = chain | Inl _ \<Rightarrow> False"
    if "chain \<in> {''chia'', ''mainnet'', ''testnet''}" for chain
  proof -
    note row = bspec [OF chain_urns_read(1) that]
    obtain q where "parse_urn K (chain_urn chain) = Inr q" "denotes K D hash (urn q) (at_store chain (Some ''a''))"
      using edge_reads_test [OF assms row] row by auto
    then show ?thesis by (simp add: denotes_def at_store_def)
  qed
  moreover have "isl (parse_urn K (chain_urn []))"
    using canonical_refuses [OF assms chain_urns_read(2,4)] edge_reads_plain [OF assms chain_urns_read(2,3)] by auto
  ultimately show ?thesis
    unfolding non_canonical_chain_labels_stay_accepted_but_an_empty_one_does_not_def by simp
qed

lemma absent_and_empty_resources_both_resolve_to_the_default_view_passes:
  assumes "urn_layers K D hash" and "separates hash"
  shows "absent_and_empty_resources_both_resolve_to_the_default_view K"
proof -
  note reads = test_urns_read(1,2,4)
  obtain a where "parse_urn K (plain_urn []) = Inr a" "denotes K D hash (urn a) (at_store ''chia'' None)"
      "retrieval_key_hex K a = hash (plain_urn ''/index.html'')"
    using edge_reads_test [OF assms(1) reads(1)] reads(1) canonical_texts(1) by auto
  moreover obtain b where "parse_urn K (plain_urn ''/'') = Inr b" "denotes K D hash (urn b) (at_store ''chia'' (Some []))"
      "retrieval_key_hex K b = hash (plain_urn ''/index.html'')"
    using edge_reads_test [OF assms(1) reads(2)] reads(2) canonical_texts(2) by auto
  moreover obtain c where "parse_urn K (plain_urn ''/other.html'') = Inr c"
      "retrieval_key_hex K c = hash (plain_urn ''/other.html'')"
    using edge_reads_test [OF assms(1) reads(3)] reads(3) canonical_texts(4) by auto
  ultimately show ?thesis
    using texts_apart(2) [OF assms(2)]
    by (simp add: absent_and_empty_resources_both_resolve_to_the_default_view_def denotes_def resource_key_def)
      (simp add: at_store_def effective_resource_def)
qed

section \<open>Parsers that do so\<close>

text \<open>
  A URN here is a \<open>demo_urn\<close> whose key keeps its slash, so that an absent resource differs from an
  empty one; the hash is the frozen digest of a row of the corpus, and the text itself elsewhere.
\<close>

definition of_parts :: "urn_parts \<Rightarrow> demo_urn" where
  "of_parts p =
     \<lparr>d_chain = up_chain p, d_store = up_store p, d_root = up_root p,
      d_key = (case up_resource p of Some r \<Rightarrow> CHR ''/'' # r | None \<Rightarrow> [])\<rparr>"

definition to_parts :: "demo_urn \<Rightarrow> urn_parts" where
  "to_parts u =
     \<lparr>up_chain = d_chain u, up_store = d_store u, up_root = d_root u,
      up_resource = (case d_key u of [] \<Rightarrow> None | _ # r \<Rightarrow> Some r)\<rparr>"

lemma to_of_parts [simp]: "to_parts (of_parts p) = p"
  by (simp add: to_parts_def of_parts_def split: option.split)

definition layer_parse :: "string \<Rightarrow> string + demo_urn" where
  "layer_parse s = (case parse_grammar s of None \<Rightarrow> Inl ''not a DIG URN'' | Some p \<Rightarrow> Inr (of_parts p))"

definition layer_hash :: "string \<Rightarrow> string" where
  "layer_hash s =
     (case map_of (map (\<lambda>v. (v_canonical v, v_retrieval_key_hex v)) corpus_valid) s of Some k \<Rightarrow> k | None \<Rightarrow> CHR ''!'' # s)"

definition layer_crates :: "(demo_urn, bytes) crates" where
  "layer_crates = suite_crates
     \<lparr>du_parse_with_salt := (\<lambda>s. case peeled s of (head, sl) \<Rightarrow> unsalted (layer_parse head) sl),
      du_effective_resource_key := (\<lambda>u. effective_resource (up_resource (to_parts u))),
      du_canonical := (\<lambda>u. canonical_text (to_parts u)),
      du_content_key_hex := (\<lambda>u. layer_hash (canonical_text (rootless_parts (to_parts u))))\<rparr>"

definition layer_api :: "demo_urn dig_urn_api" where
  "layer_api =
     \<lparr>dg_parse = layer_parse, dg_chain = d_chain, dg_resource_key = (\<lambda>u. up_resource (to_parts u)),
      dg_retrieval_key_hex = (\<lambda>u. layer_hash (canonical_text (to_parts u)))\<rparr>"

definition layer_legacy :: "string legacy_api" where
  "layer_legacy =
     \<lparr>lg_parse = (\<lambda>s. map_option (\<lambda>p. \<lparr>lu_chain = up_chain p, lu_store_id = up_store p, lu_root_hash = up_root p,
        lu_resource_key = up_resource p\<rparr>) (parse_grammar s)),
      lg_hex = id,
      lg_retrieval_key_hex = (\<lambda>u. layer_hash (canonical_text
        \<lparr>up_chain = lu_chain u, up_store = lu_store_id u, up_root = lu_root_hash u, up_resource = lu_resource_key u\<rparr>)),
      lg_default_resource_key = ''index.html''\<rparr>"

lemma layers_denote: "denotes layer_crates layer_api layer_hash (of_parts p) p"
  by (simp add: denotes_def layer_crates_def layer_api_def suite_fields)
    (simp add: of_parts_def)

lemma layers_hold: "urn_layers layer_crates layer_api layer_hash"
proof -
  have "dg_parse layer_api = layer_parse"
      "du_parse_with_salt layer_crates = (\<lambda>s. case peeled s of (head, sl) \<Rightarrow> unsalted (layer_parse head) sl)"
    by (simp_all add: layer_api_def layer_crates_def)
  then show ?thesis
    using layers_denote by (auto simp: urn_layers_def layer_parse_def peeled_def split: option.split)
qed

lemma legacy_holds: "legacy_agrees layer_legacy layer_hash"
  by (auto simp: legacy_agrees_def layer_legacy_def legacy_parts_def option.map_id)

lemma layer_digests: "frozen_digests layer_hash"
  by code_simp

lemma digest_rows: "distinct (map v_retrieval_key_hex corpus_valid)"
    "\<forall>v \<in> set corpus_valid. \<forall>s. v_retrieval_key_hex v \<noteq> CHR ''!'' # s"
  by (simp_all add: corpus_valid_def)

lemma layer_separates: "separates layer_hash"
proof -
  let ?table = "map (\<lambda>v. (v_canonical v, v_retrieval_key_hex v)) corpus_valid"
  have row: "\<exists>v \<in> set corpus_valid. v_canonical v = x \<and> v_retrieval_key_hex v = k" if "map_of ?table x = Some k" for x k
    using map_of_SomeD [OF that] by auto
  have same: "v = w" if "v \<in> set corpus_valid" "w \<in> set corpus_valid" "v_retrieval_key_hex v = v_retrieval_key_hex w" for v w
    using digest_rows(1) that by (auto simp: distinct_map inj_on_def)
  have "x = y" if eq: "layer_hash x = layer_hash y" for x y
  proof (cases "map_of ?table x"; cases "map_of ?table y")
    fix k k' assume "map_of ?table x = Some k" "map_of ?table y = Some k'"
    with eq row [of x k] row [of y k'] same show "x = y" by (auto simp: layer_hash_def)
  next
    fix k assume "map_of ?table x = Some k" "map_of ?table y = None"
    with eq row [of x k] digest_rows(2) show "x = y" by (auto simp: layer_hash_def)
  next
    fix k assume "map_of ?table x = None" "map_of ?table y = Some k"
    with eq row [of y k] digest_rows(2) show "x = y" by (auto simp: layer_hash_def)
  qed (use eq in \<open>simp add: layer_hash_def\<close>)
  then show ?thesis by (simp add: separates_def inj_on_def)
qed

text \<open>All tests of the two files but the short salt, on these parsers.\<close>

lemma layer_tests_pass:
  "canonical_layer_reproduces_every_frozen_column layer_crates layer_api"
  "both_layers_reject_every_invalid_vector layer_crates layer_api"
  "resolver_key_matches_both_parsers_across_frozen_corpus layer_crates layer_legacy"
  "root_pinned_urns_prove_content_key_not_retrieval_key layer_crates layer_api"
  "edge_layer_peels_salt_and_canonical_layer_does_not layer_crates layer_api"
  "non_canonical_chain_labels_stay_accepted_but_an_empty_one_does_not layer_crates layer_api"
  "absent_and_empty_resources_both_resolve_to_the_default_view layer_crates"
  by (rule canonical_layer_reproduces_every_frozen_column_passes [OF layers_hold layer_digests]
      both_layers_reject_every_invalid_vector_passes [OF layers_hold]
      resolver_key_matches_both_parsers_across_frozen_corpus_passes [OF layers_hold legacy_holds]
      root_pinned_urns_prove_content_key_not_retrieval_key_passes [OF layers_hold layer_separates]
      edge_layer_peels_salt_and_canonical_layer_does_not_passes [OF layers_hold layer_separates]
      non_canonical_chain_labels_stay_accepted_but_an_empty_one_does_not_passes [OF layers_hold]
      absent_and_empty_resources_both_resolve_to_the_default_view_passes [OF layers_hold layer_separates])+

end
