(* ===== verification/Spec2Isabelle.thy ===== *)
theory Spec2Isabelle
  imports ResolverProps TrustProps Transparent AsyncHonest Images NativeApi WasmApi ClientOptions CrateRoot Examples UnitTests ClientTests UrnLayers
begin

text \<open>
  This development models \<open>dig-urn-resolver\<close>, a Rust library that turns a DIG URN into verified
  content bytes, and proves that it does so safely.  It covers the crate under \<open>src/src/\<close>, with the
  unit tests in it, the two programs under \<open>src/examples/\<close>, and the end-to-end tests under
  \<open>src/tests/\<close> that run the crate's own code.

  \<^bold>\<open>The program.\<close>  A URN names a store, a resource in it, and possibly a root (the version of the
  store) and a salt.  \<open>Resolver::resolve\<close> parses it, looks in a memory cache and (for a pinned root)
  in a disk cache, then walks a ladder of endpoints: local nodes that answered a health probe,
  then the public gateway, or the one endpoint an override names.  A node is asked by a \<open>GET\<close> and
  may attest plaintext, because its base was shown to be loopback; the gateway is asked in windows
  by JSON-RPC and its ciphertext is verified against the pinned root and decrypted by the client.
  A failed verification ends the walk; absence and unreachability go on to the next tier.  The code is
  asynchronous and single-threaded (\<open>RefCell\<close>): several resolves may be in flight on one resolver and
  give up control where they await the transport.

  \<^bold>\<open>Time and the outside.\<close>  Everything outside the crate is a record of functions.  \<open>crates\<close>
  (External) holds the libraries: the URN parser and key derivation of \<open>dig_urn_protocol\<close>, its
  verification gate, SHA-256, base64, JSON, URL and address parsing.  \<open>host\<close> (External) holds the
  transport, name resolution, file system and JavaScript objects, each a function of the
  \<open>history\<close>, the list of events so far: an operation with an effect appends its event and takes
  the answer the host gives to it in that history.  So answers may differ from one request to the next,
  files are what the events so far left on disk, and what a run asked for is read off the history
  (\<open>grows\<close>, Prelude).  Name resolution is the exception: \<open>lookup_host\<close> is one table for a whole run, so a
  name whose addresses change between the loopback check and the request is not represented.  Only properties that need them assume laws of these parameters, by name:
  \<open>gate_contract\<close> and \<open>decrypt_contract\<close> (what the gate's success means), \<open>gate_complete\<close> (what the
  gate accepts), \<open>pinned_urn_contract\<close>, \<open>merkle_contract\<close>, \<open>chunk_contract\<close> and \<open>document_contract\<close>
  (the URN parser, the merkle tree, the cipher and the JSON of the demo), \<open>gate_refusals\<close> (how the
  gate refuses), \<open>urn_contract\<close>, \<open>salt_contract\<close>, \<open>sealed\<close> and \<open>serde_contract\<close> (the same libraries
  on the fixtures of the integration tests, collected with the others as \<open>libraries\<close>), \<open>chunk_total_contract\<close>
  and \<open>whatwg_answers\<close> (library answers that unit tests rely on), \<open>b64_roundtrip\<close>,
  \<open>envelope_roundtrip\<close>, \<open>sha256_hex_format\<close>, \<open>honest_fs\<close>, \<open>honest_node_fs\<close> and \<open>honest_gateway\<close>.
  \<open>reads_options\<close> is how \<open>serde\<close> reads the options object; \<open>urn_layers\<close> and \<open>legacy_agrees\<close> are the
  URN grammar of the parsers that the tests compare.
  Demo, DiskCache, Examples, TestCrates, ClientOptions and UrnLayers hold concrete instances that satisfy them, used by the witnesses.

  \<^bold>\<open>Theories.\<close>
  \<^item> Prelude, RustStd: lists, results and histories; the string functions of the standard library
    that the code calls (\<open>trim\<close>, \<open>split\<close>, \<open>rsplit\<close>, \<open>parse\<close> of integers, ASCII case, decimal and hex).
  \<^item> Errors (\<open>error.rs\<close>), Urn_Model (\<open>urn.rs\<close>), Transport_Model (\<open>transport.rs\<close>), ContentType
    (\<open>content_type.rs\<close>): the data the tiers share; the content type derivation.
  \<^item> Crypto_Model (\<open>crypto.rs\<close>): decoding of salt, root and proof, \<open>verify_inclusion\<close>, \<open>decrypt\<close>,
    \<open>verify_and_decrypt\<close> and the mapping of gate errors; \<open>authentic\<close> is what a success means.
  \<^item> IpParse, Ladder (\<open>ladder.rs\<close>): the \<open>IpAddr\<close> parser of the standard library, the loopback
    assertion, \<open>classify\<close>, \<open>health_ok\<close> and \<open>build_plan\<close>.
  \<^item> CacheSpec, MemoryCache (\<open>cache.rs\<close>): the abstract LRU list and the locale \<open>lru_cache\<close> of a cache
    that simulates it; \<open>mc_get\<close>, \<open>mc_put\<close>, \<open>evict\<close> and the interpretation on them.
  \<^item> DiskCache (\<open>cache.rs\<close>, \<open>node_fs.rs\<close>): the native and the Node backend, their selection by
    feature, the injected file system; the locale \<open>artifact_store\<close> and its interpretation on both
    backends and on the selected one.
  \<^item> Tier: \<open>Fetched\<close>, \<open>ResolvedData\<close> and the locale \<open>tier_fetch\<close>, the contract of one tier with the
    resolver; NodeTier (\<open>node.rs\<close>) and RpcTier (\<open>rpc.rs\<close>) provide it.
  \<^item> Resolver (\<open>resolver.rs\<close>): options, state, \<open>disk_get_verified\<close>, \<open>cache_success\<close>, \<open>walk\<close> and
    \<open>resolve\<close>; the step relation \<open>session\<close> (any sequence of resolves and foreign events), its
    invariant \<open>resolver_ok\<close>, and what each request and each success can be.
  \<^item> ResolverProps, TrustProps: the properties of the ladder, the caches and the trust decision.
  \<^item> HonestNetwork: that a pinned URN resolves when only the gateway is up and it is honest, and is an
    integrity failure when what the gateway holds is not the content of the URN.
  \<^item> AsyncResolve, AsyncProps: the same code between two awaits.  A \<open>task\<close> is a resolve in flight with
    what it still needs; \<open>poll\<close> runs it to its next await of the transport; a \<open>pool\<close> is a resolver
    with its tasks, and \<open>interleaved\<close> the pools reached by starting, polling and dropping tasks, by
    outside events and by answers that come late, in any order.  Its invariant \<open>pool_ok\<close> extends \<open>resolver_ok\<close> by what a
    suspended task may hold; \<open>leads\<close> relates a task to the sequential \<open>resolve\<close>.
  \<^item> Transparent: the ladder of section 4 of \<open>SPEC.md\<close> as a stateless function (\<open>specified\<close>: the node
    that is up, what it says, what the gateway says) for a network whose answers do not change
    (\<open>stable_net\<close>), and the invariant \<open>pool_course\<close> by which every resolver and every suspended task
    is bound for its values, whatever was cached and planned before.
  \<^item> AsyncHonest: that under an honest gateway no scheduling keeps a resolve from succeeding.
  \<^item> Pages (\<open>pages.rs\<close>), Images (\<open>images.rs\<close>): what a failure is rendered as.
  \<^item> NativeApi (\<open>native.rs\<close>), WasmApi (\<open>wasm.rs\<close>): the two public surfaces.  The \<open>reqwest\<close> client and
    the two runtime builders are \<open>native_runtime\<close>; what the JavaScript runtime offers, every call of
    which may throw, is \<open>js_runtime\<close>.
  \<^item> ClientOptions (\<open>wasm.rs\<close>): the options object of the JavaScript constructor, what its TypeScript
    interface declares and what becomes of a member of another type.
  \<^item> CrateRoot (\<open>lib.rs\<close>): the modules, the features they are compiled under and the names the root
    exports; that no combination of features leaves an import or an optional library missing.
  \<^item> Examples: the tool that writes the SVG sources of the error images, and the NFT image demo from
    its fixture to its last assertion.
  \<^item> UnitTests: the unit tests of the crate as predicates of the model, each shown to hold.
  \<^item> TestKit (\<open>tests/common/mod.rs\<close>): the mock transport, in which a closure that panics is a request
    without an answer, the fixtures, and runs of one resolve.  IntegrationTests and IntegrationSuite
    (\<open>tests/resolve.rs\<close>) state every test of the file and prove it for all libraries that behave as
    documented, through \<open>specified\<close>; ClientTests does so for \<open>tests/wasm_ctor.rs\<close>, \<open>wasm_disk.rs\<close>,
    \<open>sage_example.rs\<close> and the salt test of \<open>urn_layer_contract.rs\<close>.  TestCrates is an instance of the
    libraries, with a JSON reader that inverts its writer.
  \<^item> UrnLayers (the rest of \<open>tests/urn_layer_contract.rs\<close>, \<open>tests/cross_parser_equivalence.rs\<close>): the
    grammar of section 2 of \<open>SPEC.md\<close> as a function that reads back what it prints, the frozen corpus
    checked against it row by row, and the tests that compare the crate's parser with those of
    \<open>dig_urn_protocol\<close> and \<open>digstore_core\<close>, for parsers that accept this grammar.

  \<^bold>\<open>What is shown.\<close>  \<open>success_is_authentic\<close> below is the main theorem: bytes returned as success are
  authentic under the root or attested by a loopback node.  It rests on the session invariant
  (every cached entry has that provenance) and on the contract of each tier.  Further: the walk is
  the first decisive tier; an integrity failure aborts it and caches nothing; which requests a
  resolve can make; with resolves interleaved, successes stay authentic, requests stay allowed, the
  shared cache stays sound and bounded, every task ends, and a task left alone computes exactly
  \<open>resolve\<close>; in a network that does not change and without a disk cache, caching in memory and interleaving cannot be observed: every
  resolve has the result of \<open>specified\<close>, for URNs that have different cache identities; where they
  have not (\<open>cache_ignores_chain\<close>: two chain labels of one resource) the second is served what the
  first one found; an honest gateway alone suffices, under every scheduling, and one that holds other
  content is an integrity failure; the window loop reassembles what an honest gateway sends and is bounded
  against a hostile one; the memory cache refines an LRU list; the disk cache stores and returns,
  across restarts and backends, and never leaves its directory; loopback trust; content types that the bytes cannot make active; error kinds;
  escaping and the fixed markup of the pages; the wrappers fail closed, and what they hand out is
  tagged as what it is; the demo ends with its image; the repository's own tests pass.

  \<^bold>\<open>Bounds.\<close>  No definition of the program uses fuel (the JSON reader of the instance in TestCrates is
  bounded by the length of its input).  A task needs at most 41 polls of its own: the start, two health
  probes, a node read, and 37 windows.  The window loop terminates by the number of windows left
  (\<open>MAX_WINDOWS\<close> = 37, for at most 64 MiB in windows of 3 MiB with slack), \<open>evict\<close> by the number of
  entries.  Widths are those of the code where wrap-around could matter: status codes are 16 bit,
  chunk lengths 32 bit, window offsets, lengths and cache ticks 64 bit.  The cache's tick is incremented once
  per operation, so the LRU properties ask for fewer than 2 ^ 64 operations.  The byte counter of the memory cache is a
  \<open>nat\<close>; \<open>memory_cache_counter_exact\<close> shows the two facts that make it agree with \<open>usize\<close>: no subtraction
  goes below zero, and it stays within twice the budget.

  \<^bold>\<open>Not modelled.\<close>  The npm build script, which is not part of the library; the test that pins the
  vendored corpus by its digest, which says nothing of this crate's code; the
  PNG files (a parameter of \<open>png\<close>); the inside of \<open>reqwest\<close>, \<open>tokio\<close>, \<open>serde\<close> and the JavaScript
  runtime, which are parameters with their failures; the comments of the TypeScript declaration in
  \<open>wasm.rs\<close>; the lines the examples print; a poll that finds the transport's answer not there yet, which changes
  nothing, so the bounds on polls count those that find it; the path separator of Windows.
\<close>

section \<open>End to end\<close>

text \<open>
  C1. Nothing unverified is ever returned as content.  Take any session: a resolver with any
  options, any network, file system and name service, any sequence of resolves and of events
  between them.  If a resolve succeeds with some bytes, then they are the bytes that a ciphertext
  opens to under the URN's key, a ciphertext included in the merkle tree of a root, or a node
  whose base URL is loopback attested them; and that URN and root are the ones asked for, or,
  when the URN pins a root, ones with the same cache identity.
\<close>

theorem success_is_authentic:
  assumes "gate_contract K" and "decrypt_contract K"
    and "session K H opts R h" and "resolve K H R s h = (Inr (Success d), R', h')"
  shows "\<exists>p p' root. parse_urn K s = Inr p \<and>
    (case root_hex K p of Some q \<Rightarrow> cache_id K p' root = cache_id K p q | None \<Rightarrow> p' = p) \<and>
    (authentic K p' root (rd_bytes d) \<or> attested_by_node K H opts p' d)"
proof -
  from resolve_ok(2) [OF session_ok [OF assms(3)] assms(4) refl]
  obtain p p' root where "parse_urn K s = Inr p" "source_of K p p' root" "provenance K H opts p' root d"
    by blast
  with verified_as_authentic [OF assms(1,2)] show ?thesis
    unfolding provenance_def source_of_def by blast
qed

lemma success_is_authentic_witness:
  "\<exists>h d R' h' p' root. resolve demo_crates demo_net (demo_rpc None) ''r:x'' h = (Inr (Success d), R', h') \<and>
     rd_bytes d = [1, 2] \<and>
     (authentic demo_crates p' root (rd_bytes d) \<or>
      attested_by_node demo_crates demo_net (demo_rpc_options None) p' d)"
proof -
  obtain h where ses: "session demo_crates demo_net (demo_rpc_options None) (demo_rpc None) h"
    using demo_rpc_session by blast
  obtain d R' h' where res: "resolve demo_crates demo_net (demo_rpc None) ''r:x'' h = (Inr (Success d), R', h')"
      and d: "rd_bytes d = [1, 2]" using demo_resolves [of h] by blast
  from success_is_authentic [OF demo_gate demo_decrypt ses res] res d show ?thesis by blast
qed

text \<open>
  C2. An override that is not the local machine is never trusted with plaintext: in a session
  whose endpoint override is not a loopback base, every success was verified under a root and
  decrypted by the client, whatever the endpoint attests, and every request but none to a node or
  to the public gateway is a window request to the override.
\<close>

theorem remote_override_client_verified:
  assumes "gate_contract K" and "decrypt_contract K"
    and "session K H opts R h" and "resolve K H R s h = (r, R', h')"
    and "o_endpoint opts = Some base" and "\<not> is_loopback_base K H (trim_end_matches CHR ''/'' base)"
    and "parse_urn K s = Inr p"
  shows "(\<forall>d. r = Inr (Success d) \<longrightarrow>
      (\<exists>p' root. (case root_hex K p of Some q \<Rightarrow> cache_id K p' root = cache_id K p q | None \<Rightarrow> p' = p) \<and>
         authentic K p' root (rd_bytes d)))
    \<and> grows (\<lambda>e. is_http e \<longrightarrow> rpc_request K (trim_end_matches CHR ''/'' base) p e) h h'"
proof
  have none: "\<not> node_base K H opts b" for b
    using assms(5,6) by (auto simp: node_base_def)
  show "\<forall>d. r = Inr (Success d) \<longrightarrow>
      (\<exists>p' root. (case root_hex K p of Some q \<Rightarrow> cache_id K p' root = cache_id K p q | None \<Rightarrow> p' = p) \<and>
         authentic K p' root (rd_bytes d))"
  proof (intro allI impI)
    fix d assume "r = Inr (Success d)"
    with resolve_ok(2) [OF session_ok [OF assms(3)] assms(4)] assms(7)
    obtain p' root where "source_of K p p' root" "provenance K H opts p' root d" by auto
    with none verified_as_authentic [OF assms(1,2)]
    show "\<exists>p' root. (case root_hex K p of Some q \<Rightarrow> cache_id K p' root = cache_id K p q | None \<Rightarrow> p' = p) \<and>
         authentic K p' root (rd_bytes d)"
      unfolding provenance_def source_of_def attested_by_node_def by blast
  qed
  have "grows (\<lambda>e. is_http e \<longrightarrow> allowed_request K H opts p (r_plan_cache R = None) e) h h'"
    using resolve_allowed [OF session_ok [OF assms(3)] assms(4,7)] .
  then show "grows (\<lambda>e. is_http e \<longrightarrow> rpc_request K (trim_end_matches CHR ''/'' base) p e) h h'"
    by (rule grows_mono) (use assms(5) none in \<open>auto simp: allowed_request_def rpc_base_def\<close>)
qed

lemma remote_override_client_verified_witness:
  "\<exists>h d R' h' p' root. resolve demo_crates demo_net (demo_rpc None) ''r:x'' h = (Inr (Success d), R', h') \<and>
     rd_bytes d = [1, 2] \<and> authentic demo_crates p' root (rd_bytes d)"
proof -
  obtain h where ses: "session demo_crates demo_net (demo_rpc_options None) (demo_rpc None) h"
    using demo_rpc_session by blast
  obtain d R' h' where res: "resolve demo_crates demo_net (demo_rpc None) ''r:x'' h = (Inr (Success d), R', h')"
      and d: "rd_bytes d = [1, 2]" using demo_resolves [of h] by blast
  have over: "o_endpoint (demo_rpc_options None) = Some ''https://rpc.dig.net''"
    by (simp add: demo_rpc_options_def)
  have "ep_kind (classify demo_crates demo_net ''https://rpc.dig.net'') = RpcKind"
    by (simp add: demo_classify endpoint_rpc_def)
  then have "\<not> is_loopback_base demo_crates demo_net (trim_end_matches CHR ''/'' ''https://rpc.dig.net'')"
    using classify_kind [of demo_crates demo_net "''https://rpc.dig.net''"] by simp
  from remote_override_client_verified [OF demo_gate demo_decrypt ses res over this demo_urn_parse] res d
  show ?thesis by blast
qed

section \<open>A collision of cache identities\<close>

text \<open>
  The value of \<open>X-Dig-Root\<close> enters the cache identity as the node sent it.  A value with a colon makes
  an attested answer for one resource of the store the cached content of another one, under
  the root that precedes the colon.
\<close>

lemma unvalidated_root_collides:
  assumes "is_success resp" and "header_true resp ''x-dig-verified''" and "root_hex K p = None"
    and "header resp ''x-dig-root'' = Some v" and "trim v = root @ '':'' @ k"
  shows "\<exists>f. node_answer K p resp = Inr f \<and> f_root f = Some (trim v) \<and>
    cache_id K p (trim v) =
      content_id (store_id_hex K p) root (k @ '':'' @ resource_key K p) (salt p)"
proof -
  have "status resp \<noteq> 404" using assms(1) by (auto simp: is_success_def)
  then show ?thesis
    using assms by (simp add: node_answer_def node_root_def cache_id_def content_id_def)
qed

end
